(* ===== verification/Prelude.thy ===== *)
theory Prelude
  imports Complex_Main "HOL-Library.Sublist" "HOL-Library.Multiset" "HOL-Library.AList"
begin

text \<open>
  What every component shares: the shape of a Python call (a state, and either an exception or
  a value), the meaning of the SQL statements the code issues over one table (conditional
  \<open>UPDATE\<close> with its row count, \<open>SELECT ... ORDER BY ... LIMIT\<close>, \<open>MAX\<close>), and the generic lemmas
  about them. A table is the list of its rows, in the order of insertion.
\<close>

named_theorems act_simps \<open>unfolding of calls that may raise\<close>
named_theorems sql_simps \<open>rows after a statement\<close>
named_theorems model_defs \<open>definitions of the model that component proofs unfold\<close>

section \<open>Calls that may raise\<close>

text \<open>
  A call runs in a state and returns an exception (\<open>Inl\<close>) or a value (\<open>Inr\<close>) with the state it
  leaves. The state changed before a \<open>raise\<close> survives it, as in Python: nothing is undone
  unless the code rolls its session back.
\<close>

type_synonym ('e, 's, 'a) act = "'s \<Rightarrow> ('e + 'a) \<times> 's"

definition ret :: "'a \<Rightarrow> ('e, 's, 'a) act" where
  "ret x = (\<lambda>s. (Inr x, s))"

definition throw :: "'e \<Rightarrow> ('e, 's, 'a) act" where
  "throw e = (\<lambda>s. (Inl e, s))"

definition andthen :: "('e, 's, 'a) act \<Rightarrow> ('a \<Rightarrow> ('e, 's, 'b) act) \<Rightarrow> ('e, 's, 'b) act" where
  "andthen m f = (\<lambda>s. case m s of (Inl e, t) \<Rightarrow> (Inl e, t) | (Inr x, t) \<Rightarrow> f x t)"

text \<open>\<open>try: m except ...: h\<close>; the handler re-raises what the code does not catch.\<close>

definition trycatch :: "('e, 's, 'a) act \<Rightarrow> ('e \<Rightarrow> ('e, 's, 'a) act) \<Rightarrow> ('e, 's, 'a) act" where
  "trycatch m h = (\<lambda>s. case m s of (Inl e, t) \<Rightarrow> h e t | (Inr x, t) \<Rightarrow> (Inr x, t))"

lemma ret_apply [act_simps, simp]: "ret x s = (Inr x, s)"
  by (simp add: ret_def)

lemma throw_apply [act_simps, simp]: "throw e s = (Inl e, s)"
  by (simp add: throw_def)

lemma andthen_Inl [act_simps]: "m s = (Inl e, t) \<Longrightarrow> andthen m f s = (Inl e, t)"
  by (simp add: andthen_def)

lemma andthen_Inr [act_simps]: "m s = (Inr x, t) \<Longrightarrow> andthen m f s = f x t"
  by (simp add: andthen_def)

lemma andthen_ret [simp]: "andthen (ret x) f = f x"
  by (rule ext) (simp add: andthen_def)

lemma andthen_throw [simp]: "andthen (throw e) f = throw e"
  by (rule ext) (simp add: andthen_def)

lemma andthen_assoc: "andthen (andthen m f) g = andthen m (\<lambda>x. andthen (f x) g)"
  by (rule ext) (simp add: andthen_def split: prod.splits sum.splits)

lemma andthen_eq_Inr:
  "andthen m f s = (Inr y, u) \<longleftrightarrow> (\<exists>x t. m s = (Inr x, t) \<and> f x t = (Inr y, u))"
  by (auto simp: andthen_def split: prod.splits sum.splits)

lemma andthen_eq_Inl:
  "andthen m f s = (Inl e, u) \<longleftrightarrow>
     m s = (Inl e, u) \<or> (\<exists>x t. m s = (Inr x, t) \<and> f x t = (Inl e, u))"
  by (auto simp: andthen_def split: prod.splits sum.splits)

lemma trycatch_Inl [act_simps]: "m s = (Inl e, t) \<Longrightarrow> trycatch m h s = h e t"
  by (simp add: trycatch_def)

lemma trycatch_Inr [act_simps]: "m s = (Inr x, t) \<Longrightarrow> trycatch m h s = (Inr x, t)"
  by (simp add: trycatch_def)

section \<open>Statements over a table\<close>

text \<open>
  \<open>UPDATE ... WHERE p SET ...\<close>: every row that satisfies the condition in the state before the
  statement is rewritten, and \<open>rowcount\<close> is the number of those rows.
\<close>

definition update_where :: "('r \<Rightarrow> bool) \<Rightarrow> ('r \<Rightarrow> 'r) \<Rightarrow> 'r list \<Rightarrow> 'r list" where
  "update_where p f rows = map (\<lambda>r. if p r then f r else r) rows"

definition rowcount :: "('r \<Rightarrow> bool) \<Rightarrow> 'r list \<Rightarrow> nat" where
  "rowcount p rows = length (filter p rows)"

text \<open>The first row in table order that satisfies a condition (\<open>.first()\<close>, \<open>session.get\<close>).\<close>

definition select_first :: "('r \<Rightarrow> bool) \<Rightarrow> 'r list \<Rightarrow> 'r option" where
  "select_first p rows = find p rows"

text \<open>\<open>SELECT MAX(f)\<close> over the rows that satisfy a condition: NULL over no row.\<close>

fun max_opt :: "'a::linorder list \<Rightarrow> 'a option" where
  "max_opt [] = None"
| "max_opt (x # xs) = (case max_opt xs of None \<Rightarrow> Some x | Some m \<Rightarrow> Some (max x m))"

definition select_max :: "('r \<Rightarrow> bool) \<Rightarrow> ('r \<Rightarrow> 'a::linorder) \<Rightarrow> 'r list \<Rightarrow> 'a option" where
  "select_max p f rows = max_opt (map f (filter p rows))"

text \<open>\<open>ORDER BY f DESC LIMIT 1\<close>: the first row, in table order, among those of the greatest key.\<close>

fun first_max :: "('r \<Rightarrow> 'a::linorder) \<Rightarrow> 'r list \<Rightarrow> 'r option" where
  "first_max f [] = None"
| "first_max f (r # rows) =
     (case first_max f rows of None \<Rightarrow> Some r | Some m \<Rightarrow> if f m \<le> f r then Some r else Some m)"

subsection \<open>Conditional updates\<close>

lemma update_where_Nil [simp]: "update_where p f [] = []"
  by (simp add: update_where_def)

lemma update_where_Cons [simp]:
  "update_where p f (r # rows) = (if p r then f r else r) # update_where p f rows"
  by (simp add: update_where_def)

lemma length_update_where [simp, sql_simps]: "length (update_where p f rows) = length rows"
  by (simp add: update_where_def)

lemma update_where_append [simp]:
  "update_where p f (xs @ ys) = update_where p f xs @ update_where p f ys"
  by (simp add: update_where_def)

lemma in_update_where [sql_simps]:
  "r \<in> set (update_where p f rows) \<longleftrightarrow>
     (\<exists>q \<in> set rows. r = (if p q then f q else q))"
  by (auto simp: update_where_def)

lemma in_update_where_image: "r \<in> set rows \<Longrightarrow> p r \<Longrightarrow> f r \<in> set (update_where p f rows)"
  by (force simp: update_where_def)

lemma in_update_where_other: "r \<in> set rows \<Longrightarrow> \<not> p r \<Longrightarrow> r \<in> set (update_where p f rows)"
  by (force simp: update_where_def)

lemma map_update_where [sql_simps]:
  assumes "\<And>r. p r \<Longrightarrow> g (f r) = g r"
  shows "map g (update_where p f rows) = map g rows"
  using assms by (induction rows) auto

lemma update_where_none [sql_simps]:
  "(\<And>r. r \<in> set rows \<Longrightarrow> \<not> p r) \<Longrightarrow> update_where p f rows = rows"
  by (induction rows) auto

lemma rowcount_Nil [simp]: "rowcount p [] = 0"
  by (simp add: rowcount_def)

lemma rowcount_Cons [simp]:
  "rowcount p (r # rows) = (if p r then Suc (rowcount p rows) else rowcount p rows)"
  by (simp add: rowcount_def)

lemma rowcount_zero_iff: "rowcount p rows = 0 \<longleftrightarrow> (\<forall>r \<in> set rows. \<not> p r)"
  by (induction rows) auto

lemma rowcount_pos_iff: "0 < rowcount p rows \<longleftrightarrow> (\<exists>r \<in> set rows. p r)"
  using rowcount_zero_iff [of p rows] by auto

text \<open>A condition on a key that no two rows share is met by at most one row.\<close>

lemma rowcount_key_le_1:
  assumes "distinct (map k rows)" and "\<And>r. p r \<Longrightarrow> k r = x"
  shows "rowcount p rows \<le> 1"
proof -
  have "distinct (map k (filter p rows))" using assms(1) by (rule distinct_map_filter)
  moreover have "set (map k (filter p rows)) \<subseteq> {x}" using assms(2) by auto
  ultimately have "length (map k (filter p rows)) \<le> card {x}"
    using card_mono [of "{x}" "set (map k (filter p rows))"] distinct_card [of "map k (filter p rows)"]
    by simp
  then show ?thesis by (simp add: rowcount_def)
qed

lemma rowcount_key_eq_1:
  assumes "distinct (map k rows)" and "\<And>r. p r \<Longrightarrow> k r = x"
  shows "rowcount p rows = 1 \<longleftrightarrow> (\<exists>r \<in> set rows. p r)"
proof -
  have "rowcount p rows \<le> 1" using assms(1) by (rule rowcount_key_le_1) (rule assms(2))
  then have "rowcount p rows = 1 \<longleftrightarrow> 0 < rowcount p rows" by linarith
  then show ?thesis by (simp only: rowcount_pos_iff)
qed

subsection \<open>Lookup by key\<close>

lemma select_first_Nil [simp]: "select_first p [] = None"
  by (simp add: select_first_def)

lemma select_first_Cons [simp]:
  "select_first p (r # rows) = (if p r then Some r else select_first p rows)"
  by (simp add: select_first_def)

lemma select_first_SomeD: "select_first p rows = Some r \<Longrightarrow> r \<in> set rows \<and> p r"
  by (auto simp: select_first_def find_Some_iff)

lemma select_first_None_iff: "select_first p rows = None \<longleftrightarrow> (\<forall>r \<in> set rows. \<not> p r)"
  by (auto simp: select_first_def find_None_iff)

lemma select_first_append:
  "select_first p (xs @ ys) = (case select_first p xs of None \<Rightarrow> select_first p ys | Some r \<Rightarrow> Some r)"
  by (induction xs) auto

lemma select_first_key:
  assumes "distinct (map k rows)" and "r \<in> set rows"
  shows "select_first (\<lambda>q. k q = k r) rows = Some r"
proof (cases "select_first (\<lambda>q. k q = k r) rows")
  case None
  then have "\<not> k r = k r" using assms(2) unfolding select_first_None_iff by blast
  then show ?thesis by simp
next
  case (Some q)
  then have "q \<in> set rows" and "k q = k r" by (auto dest: select_first_SomeD)
  with assms have "q = r" by (auto simp: distinct_map dest: inj_onD)
  with Some show ?thesis by simp
qed

lemma select_first_update_where:
  assumes "\<And>r. p r \<Longrightarrow> k (f r) = k r"
  shows "select_first (\<lambda>r. k r = x) (update_where p f rows) =
    map_option (\<lambda>r. if p r then f r else r) (select_first (\<lambda>r. k r = x) rows)"
  using assms by (induction rows) auto

lemma distinct_map_inj: "distinct (map k rows) \<Longrightarrow> q \<in> set rows \<Longrightarrow> r \<in> set rows \<Longrightarrow> k q = k r \<Longrightarrow> q = r"
  by (auto simp: distinct_map dest: inj_onD)

subsection \<open>Greatest values\<close>

lemma max_opt_None_iff [simp]: "max_opt xs = None \<longleftrightarrow> xs = []"
  by (cases xs) (auto split: option.splits)

lemma max_opt_Some_iff: "max_opt xs = Some m \<longleftrightarrow> m \<in> set xs \<and> (\<forall>x \<in> set xs. x \<le> m)"
proof (induction xs arbitrary: m)
  case Nil
  then show ?case by simp
next
  case (Cons x xs)
  show ?case
  proof (cases "max_opt xs")
    case None
    then show ?thesis by auto
  next
    case (Some n)
    with Cons.IH [of n] have n: "n \<in> set xs" "\<forall>y \<in> set xs. y \<le> n" by auto
    have "max_opt (x # xs) = Some (max x n)" using Some by simp
    moreover have "m = max x n \<longleftrightarrow> m \<in> set (x # xs) \<and> (\<forall>y \<in> set (x # xs). y \<le> m)"
      using n by (auto simp: max_def intro: order.trans antisym)
    ultimately show ?thesis by auto
  qed
qed

lemma max_opt_append1:
  "max_opt (xs @ [x]) = Some (case max_opt xs of None \<Rightarrow> x | Some m \<Rightarrow> max m x)"
  by (induction xs) (auto simp: max.assoc max.commute max.left_commute split: option.splits)

lemma max_opt_mset: "mset xs = mset ys \<Longrightarrow> max_opt xs = max_opt ys"
proof -
  assume "mset xs = mset ys"
  then have "set xs = set ys" by (metis set_mset_mset)
  then show ?thesis
    by (metis max_opt_None_iff max_opt_Some_iff option.exhaust set_empty)
qed

lemma select_max_None_iff: "select_max p f rows = None \<longleftrightarrow> (\<forall>r \<in> set rows. \<not> p r)"
  by (auto simp: select_max_def filter_empty_conv)

lemma select_max_Some_iff:
  "select_max p f rows = Some m \<longleftrightarrow>
     (\<exists>r \<in> set rows. p r \<and> f r = m) \<and> (\<forall>r \<in> set rows. p r \<longrightarrow> f r \<le> m)"
  by (auto simp: select_max_def max_opt_Some_iff)

lemma first_max_None_iff [simp]: "first_max f rows = None \<longleftrightarrow> rows = []"
  by (cases rows) (auto split: option.splits)

lemma first_max_SomeD: "first_max f rows = Some r \<Longrightarrow> r \<in> set rows \<and> (\<forall>q \<in> set rows. f q \<le> f r)"
proof (induction rows arbitrary: r)
  case Nil
  then show ?case by simp
next
  case (Cons a rows)
  show ?case
  proof (cases "first_max f rows")
    case None
    then have "rows = []" by simp
    with Cons.prems show ?thesis by simp
  next
    case (Some m)
    with Cons.IH have m: "m \<in> set rows" "\<forall>q \<in> set rows. f q \<le> f m" by auto
    from Cons.prems Some have "r = (if f m \<le> f a then a else m)" by (auto split: if_splits)
    with m show ?thesis by (auto intro: order.trans)
  qed
qed

lemma first_max_key:
  assumes "inj_on f (set rows)" and "r \<in> set rows" and "\<And>q. q \<in> set rows \<Longrightarrow> f q \<le> f r"
  shows "first_max f rows = Some r"
proof (cases "first_max f rows")
  case None
  with assms(2) show ?thesis by simp
next
  case (Some m)
  then have m: "m \<in> set rows" "\<forall>q \<in> set rows. f q \<le> f m" by (auto dest: first_max_SomeD)
  with assms(2,3) have "f m = f r" by (meson antisym)
  with assms(1,2) m(1) have "m = r" by (auto dest: inj_onD)
  with Some show ?thesis by simp
qed

lemma first_max_snoc:
  "first_max f (rows @ [r]) = (case first_max f rows of None \<Rightarrow> Some r
     | Some m \<Rightarrow> if f m < f r then Some r else Some m)"
  by (induction rows) (auto split: option.splits)

subsection \<open>Dictionaries\<close>

text \<open>
  A Python dictionary is an association list in insertion order: \<open>d[k] = v\<close> rewrites the entry of
  \<open>k\<close> in place or adds one at the end, which is what \<open>AList.update\<close> does. The loop body
  \<open>keep_greater\<close> keeps for each key the first entry of the greatest value.
\<close>

definition keep_greater :: "'k \<Rightarrow> ('r \<Rightarrow> 'v::linorder) \<Rightarrow> 'r \<Rightarrow> ('k \<times> 'r) list \<Rightarrow> ('k \<times> 'r) list" where
  "keep_greater k f r d =
     (case map_of d k of None \<Rightarrow> AList.update k r d
      | Some m \<Rightarrow> if f m < f r then AList.update k r d else d)"

lemma keep_greater_distinct: "distinct (map fst d) \<Longrightarrow> distinct (map fst (keep_greater k f r d))"
  by (simp add: keep_greater_def distinct_update split: option.split)

lemma fold_keep_greater_distinct:
  "distinct (map fst d) \<Longrightarrow> distinct (map fst (fold (\<lambda>r. keep_greater (key r) f r) rows d))"
  by (induction rows arbitrary: d) (auto simp: keep_greater_distinct)

lemma map_of_keep_greater:
  "map_of (fold (\<lambda>r. keep_greater (key r) f r) rows []) k = first_max f (filter (\<lambda>r. key r = k) rows)"
proof (induction rows rule: rev_induct)
  case (snoc r rows)
  then show ?case
    by (auto simp: keep_greater_def first_max_snoc AList.update_conv split: option.splits)
qed simp

text \<open>Entries whose keys are left out afterwards need not have been put in.\<close>

lemma map_of_filter_key: "P k \<Longrightarrow> map_of (filter (\<lambda>e. P (fst e)) d) k = map_of d k"
  by (induction d) auto

lemma filter_update_key:
  "filter (\<lambda>e. P (fst e)) (AList.update k r d) = (if P k then AList.update k r (filter (\<lambda>e. P (fst e)) d) else filter (\<lambda>e. P (fst e)) d)"
  by (induction d) auto

lemma filter_keep_greater:
  "filter (\<lambda>e. P (fst e)) (keep_greater k f r d) = (if P k then keep_greater k f r (filter (\<lambda>e. P (fst e)) d) else filter (\<lambda>e. P (fst e)) d)"
  by (simp add: keep_greater_def filter_update_key map_of_filter_key split: option.split)

lemma fold_keep_greater_filter:
  "fold (\<lambda>r. keep_greater (key r) f r) (filter (\<lambda>r. P (key r)) rows) (filter (\<lambda>e. P (fst e)) d)
     = filter (\<lambda>e. P (fst e)) (fold (\<lambda>r. keep_greater (key r) f r) rows d)"
proof (induction rows arbitrary: d)
  case (Cons r rows)
  from Cons [of "keep_greater (key r) f r d"] show ?case by (auto simp: filter_keep_greater)
qed simp

subsection \<open>Lists cut into pieces\<close>

text \<open>\<open>[xs[i : i + n] for i in range(0, len(xs), n)]\<close> for a positive step.\<close>

function chunks_of :: "nat \<Rightarrow> 'a list \<Rightarrow> 'a list list" where
  "chunks_of n xs = (if xs = [] \<or> n = 0 then [] else take n xs # chunks_of n (drop n xs))"
  by pat_completeness auto
termination
  by (relation "measure (\<lambda>(n, xs). length xs)") auto

declare chunks_of.simps [simp del]

lemma chunks_of_Nil [simp]: "chunks_of n [] = []"
  by (simp add: chunks_of.simps)

lemma concat_chunks_of: "0 < n \<Longrightarrow> concat (chunks_of n xs) = xs"
  by (induction n xs rule: chunks_of.induct) (simp add: chunks_of.simps [of _ "_ :: 'a list"])

lemma chunks_of_bounds: "c \<in> set (chunks_of n xs) \<Longrightarrow> c \<noteq> [] \<and> length c \<le> n"
proof (induction n xs rule: chunks_of.induct)
  case (1 n xs)
  show ?case
  proof (cases "xs = [] \<or> n = 0")
    case True
    with "1.prems" show ?thesis by (simp add: chunks_of.simps [of n xs])
  next
    case False
    with "1.prems" have "c = take n xs \<or> c \<in> set (chunks_of n (drop n xs))"
      by (simp add: chunks_of.simps [of n xs])
    with False "1.IH" show ?thesis by auto
  qed
qed

end
