(* ===== verification/Text.thy ===== *)
theory Text
  imports Prelude
begin

text \<open>
  The operations on \<open>str\<close> that the code uses. A Python string is a \<open>string\<close> (a list of
  characters); the characters of the model are the code points up to 255, so text beyond
  Latin-1 is outside it, and case folding is that of the ASCII letters.
\<close>

abbreviation code_point :: "char \<Rightarrow> nat" where
  "code_point c \<equiv> of_char c"

definition is_upper :: "char \<Rightarrow> bool" where
  "is_upper c \<longleftrightarrow> 65 \<le> code_point c \<and> code_point c \<le> 90"

definition is_lower :: "char \<Rightarrow> bool" where
  "is_lower c \<longleftrightarrow> 97 \<le> code_point c \<and> code_point c \<le> 122"

definition upper_char :: "char \<Rightarrow> char" where
  "upper_char c = (if is_lower c then char_of (code_point c - 32) else c)"

definition upper :: "string \<Rightarrow> string" where
  "upper s = map upper_char s"

text \<open>\<open>\s\<close> of a Unicode pattern and what \<open>str.strip\<close> removes, up to 255.\<close>

definition is_space :: "char \<Rightarrow> bool" where
  "is_space c \<longleftrightarrow> code_point c \<in> {9, 10, 11, 12, 13, 28, 29, 30, 31, 32, 133, 160}"

definition strip :: "string \<Rightarrow> string" where
  "strip s = rev (dropWhile is_space (rev (dropWhile is_space s)))"

text \<open>\<open>value in text\<close>, \<open>text.startswith(prefix)\<close> and \<open>", ".join(parts)\<close>.\<close>

definition starts_with :: "string \<Rightarrow> string \<Rightarrow> bool" where
  "starts_with p s \<longleftrightarrow> take (length p) s = p"

fun contains :: "string \<Rightarrow> string \<Rightarrow> bool" where
  "contains p [] \<longleftrightarrow> p = []"
| "contains p (c # s) \<longleftrightarrow> starts_with p (c # s) \<or> contains p s"

fun join :: "string \<Rightarrow> string list \<Rightarrow> string" where
  "join sep [] = []"
| "join sep [x] = x"
| "join sep (x # y # zs) = x @ sep @ join sep (y # zs)"

text \<open>\<open>str(n)\<close> for a non-negative integer, and zero-padded decimal fields.\<close>

definition digit_char :: "nat \<Rightarrow> char" where
  "digit_char d = char_of (48 + d mod 10)"

definition digit_val :: "char \<Rightarrow> nat option" where
  "digit_val c = (if 48 \<le> code_point c \<and> code_point c \<le> 57 then Some (code_point c - 48) else None)"

fun str_nat :: "nat \<Rightarrow> string" where
  "str_nat n = (if n < 10 then [digit_char n] else str_nat (n div 10) @ [digit_char (n mod 10)])"

declare str_nat.simps [simp del]

fun pad :: "nat \<Rightarrow> nat \<Rightarrow> string" where
  "pad 0 n = []"
| "pad (Suc k) n = pad k (n div 10) @ [digit_char (n mod 10)]"

text \<open>Exactly \<open>k\<close> decimal digits at the front, and what follows them.\<close>

fun parse_digits_acc :: "nat \<Rightarrow> nat \<Rightarrow> string \<Rightarrow> (nat \<times> string) option" where
  "parse_digits_acc 0 acc s = Some (acc, s)"
| "parse_digits_acc (Suc k) acc [] = None"
| "parse_digits_acc (Suc k) acc (c # s) =
     (case digit_val c of None \<Rightarrow> None | Some d \<Rightarrow> parse_digits_acc k (10 * acc + d) s)"

definition parse_digits :: "nat \<Rightarrow> string \<Rightarrow> (nat \<times> string) option" where
  "parse_digits k s = parse_digits_acc k 0 s"

lemma code_point_bound: "code_point c < 256"
  using range_nat_of_char by (metis UNIV_I atLeastLessThan_iff image_eqI)

lemma digit_val_digit_char [simp]: "digit_val (digit_char d) = Some (d mod 10)"
proof -
  have "code_point (digit_char d) = 48 + d mod 10"
    by (simp add: digit_char_def of_char_of)
  moreover have "d mod 10 < 10" by simp
  ultimately show ?thesis by (simp add: digit_val_def)
qed

lemma length_pad [simp]: "length (pad k n) = k"
  by (induction k n rule: pad.induct) auto

lemma parse_digits_acc_append:
  "parse_digits_acc k acc (xs @ ys) =
    (if length xs \<le> k
     then (case parse_digits_acc (length xs) acc xs of None \<Rightarrow> None
           | Some (a, r) \<Rightarrow> parse_digits_acc (k - length xs) a ys)
     else map_option (\<lambda>(a, r). (a, r @ ys)) (parse_digits_acc k acc xs))"
proof (induction xs arbitrary: k acc)
  case Nil
  then show ?case by simp
next
  case (Cons c xs)
  then show ?case by (cases k) (auto split: option.splits)
qed

lemma parse_digits_acc_pad:
  "parse_digits_acc k acc (pad k n @ rest) = Some (acc * 10 ^ k + n mod 10 ^ k, rest)"
proof (induction k arbitrary: acc n rest)
  case 0
  then show ?case by simp
next
  case (Suc k)
  have split: "parse_digits_acc (Suc k) acc (pad k (n div 10) @ xs) =
      (case parse_digits_acc k acc (pad k (n div 10)) of None \<Rightarrow> None
       | Some (a, r) \<Rightarrow> parse_digits_acc (Suc 0) a xs)" for xs
    by (simp add: parse_digits_acc_append split: option.splits)
  have pre: "parse_digits_acc k acc (pad k (n div 10)) = Some (acc * 10 ^ k + n div 10 mod 10 ^ k, [])"
    using Suc.IH [of acc "n div 10" "[]"] by simp
  have "10 * (n div 10 mod 10 ^ k) + n mod 10 = n mod (10 * 10 ^ k)"
    by (simp add: mod_mult2_eq)
  then show ?case by (simp add: split pre algebra_simps)
qed

lemma parse_digits_pad [simp]:
  "n < 10 ^ k \<Longrightarrow> parse_digits k (pad k n @ rest) = Some (n, rest)"
  by (simp add: parse_digits_def parse_digits_acc_pad)

lemma parse_digits_pad_end [simp]: "n < 10 ^ k \<Longrightarrow> parse_digits k (pad k n) = Some (n, [])"
  using parse_digits_pad [of n k "[]"] by simp

lemma pad_chars: "c \<in> set (pad k n) \<Longrightarrow> digit_val c \<noteq> None"
  by (induction k n rule: pad.induct) auto

lemma pad_inject: "m < 10 ^ k \<Longrightarrow> n < 10 ^ k \<Longrightarrow> pad k m = pad k n \<Longrightarrow> m = n"
  by (metis option.inject parse_digits_pad_end prod.inject)

lemma upper_char_idem [simp]: "upper_char (upper_char c) = upper_char c"
proof (cases "is_lower c")
  case True
  have "code_point c - 32 < 256" using code_point_bound [of c] by linarith
  then have "code_point (char_of (code_point c - 32) :: char) = code_point c - 32"
    by simp
  then have "\<not> is_lower (char_of (code_point c - 32))"
    using True by (simp add: is_lower_def) arith
  with True show ?thesis by (simp add: upper_char_def)
qed (simp add: upper_char_def)

lemma upper_idem [simp]: "upper (upper s) = upper s"
  by (simp add: upper_def)

lemma upper_char_upper: "is_upper c \<Longrightarrow> upper_char c = c"
  by (auto simp: upper_char_def is_upper_def is_lower_def)

lemma upper_of_upper: "(\<And>c. c \<in> set s \<Longrightarrow> is_upper c) \<Longrightarrow> upper s = s"
  by (induction s) (auto simp: upper_def upper_char_upper)

lemma starts_with_append [simp]: "starts_with p (p @ s)"
  by (simp add: starts_with_def)

lemma starts_with_iff: "starts_with p s \<longleftrightarrow> (\<exists>t. s = p @ t)"
  by (metis append_eq_conv_conj starts_with_def)

end
