(* ===== verification/Dates.thy ===== *)
theory Dates
  imports Text
begin

text \<open>
  The calendar dates and instants of Python's \<open>datetime\<close> module that the code uses. A \<open>date\<close> is
  its proleptic Gregorian ordinal (\<open>date.toordinal\<close>: 1 is 0001-01-01), so that comparison,
  subtraction and \<open>timedelta(days=n)\<close> are those of the integers; an aware UTC \<open>datetime\<close> is the
  number of microseconds since the midnight of ordinal 0. The conversions to and from year,
  month and day are CPython's (\<open>_ymd2ord\<close>, \<open>_ord2ymd\<close>), and on them rest \<open>isoformat\<close> and
  \<open>fromisoformat\<close>, whose round trip is proved here. \<open>OverflowError\<close> beyond year 9999 is
  modelled only where the program can reach it (\<open>Views\<close>): \<open>valid_date\<close> names the range in which Python's
  dates lie.
\<close>

type_synonym date = int
type_synonym datetime = int

definition valid_date :: "date \<Rightarrow> bool" where
  "valid_date d \<longleftrightarrow> 1 \<le> d \<and> d \<le> 3652059"

definition microseconds :: "int \<Rightarrow> int" where
  "microseconds s = s * 1000000"

definition day_microseconds :: int where
  "day_microseconds = 86400000000"

text \<open>\<open>datetime.date()\<close> of a UTC instant, and \<open>date.weekday()\<close> (Monday is 0).\<close>

definition date_of :: "datetime \<Rightarrow> date" where
  "date_of t = t div day_microseconds"

definition weekday :: "date \<Rightarrow> int" where
  "weekday d = (d + 6) mod 7"

section \<open>Year, month and day\<close>

definition is_leap :: "int \<Rightarrow> bool" where
  "is_leap y \<longleftrightarrow> y mod 4 = 0 \<and> (y mod 100 \<noteq> 0 \<or> y mod 400 = 0)"

definition days_before_year :: "int \<Rightarrow> int" where
  "days_before_year y = (y - 1) * 365 + (y - 1) div 4 - (y - 1) div 100 + (y - 1) div 400"

definition month_days :: "bool \<Rightarrow> int \<Rightarrow> int" where
  "month_days leap m = (if m = 2 then (if leap then 29 else 28)
     else if m \<in> {4, 6, 9, 11} then 30 else 31)"

definition days_before_month :: "bool \<Rightarrow> int \<Rightarrow> int" where
  "days_before_month leap m =
     [0, 0, 31, 59, 90, 120, 151, 181, 212, 243, 273, 304, 334] ! nat m
       + (if 2 < m \<and> leap then 1 else 0)"

definition ymd2ord :: "int \<Rightarrow> int \<Rightarrow> int \<Rightarrow> date" where
  "ymd2ord y m d = days_before_year y + days_before_month (is_leap y) m + d"

text \<open>
  The month is first estimated as \<open>(n + 50) >> 5\<close> from the day \<open>n\<close> of the year (from 0); the
  estimate is either exact or one too large.
\<close>

definition month_day :: "bool \<Rightarrow> int \<Rightarrow> int \<times> int" where
  "month_day leap n =
     (let m = (n + 50) div 32
      in if n < days_before_month leap m
         then (m - 1, n - (days_before_month leap m - month_days leap (m - 1)) + 1)
         else (m, n - days_before_month leap m + 1))"

definition ord2ymd :: "date \<Rightarrow> int \<times> int \<times> int" where
  "ord2ymd d =
     (let n = d - 1;
          n400 = n div 146097; r400 = n mod 146097;
          n100 = r400 div 36524; r100 = r400 mod 36524;
          n4 = r100 div 1461; r4 = r100 mod 1461;
          n1 = r4 div 365; r1 = r4 mod 365;
          y = n400 * 400 + 1 + n100 * 100 + n4 * 4 + n1
      in if n1 = 4 \<or> n100 = 4 then (y - 1, 12, 31)
         else (y, month_day (n1 = 3 \<and> (n4 \<noteq> 24 \<or> n100 = 3)) r1))"

lemma days_before_year_cycle:
  assumes "0 \<le> b" "b \<le> 3" "0 \<le> c" "c \<le> 24" "0 \<le> e" "e \<le> 3"
  shows "days_before_year (a * 400 + 1 + b * 100 + c * 4 + e)
    = a * 146097 + b * 36524 + c * 1461 + e * 365"
proof -
  define Y where "Y = a * 400 + b * 100 + c * 4 + e"
  have "Y div 4 = a * 100 + b * 25 + c"
    by (rule int_div_pos_eq [where r = e]) (use assms in \<open>auto simp: Y_def\<close>)
  moreover have "Y div 100 = a * 4 + b"
    by (rule int_div_pos_eq [where r = "c * 4 + e"]) (use assms in \<open>auto simp: Y_def\<close>)
  moreover have "Y div 400 = a"
    by (rule int_div_pos_eq [where r = "b * 100 + c * 4 + e"]) (use assms in \<open>auto simp: Y_def\<close>)
  moreover have "a * 400 + 1 + b * 100 + c * 4 + e - 1 = Y" by (simp add: Y_def)
  ultimately have "days_before_year (a * 400 + 1 + b * 100 + c * 4 + e)
      = Y * 365 + (a * 100 + b * 25 + c) - (a * 4 + b) + a"
    unfolding days_before_year_def by (simp only:)
  then show ?thesis by (simp add: Y_def)
qed

lemma is_leap_cycle:
  assumes "0 \<le> b" "b \<le> 3" "0 \<le> c" "c \<le> 24" "0 \<le> e" "e \<le> 3"
  shows "is_leap (a * 400 + 1 + b * 100 + c * 4 + e) \<longleftrightarrow> e = 3 \<and> (c \<noteq> 24 \<or> b = 3)"
proof -
  let ?y = "a * 400 + 1 + b * 100 + c * 4 + e"
  have "?y mod 4 = (if e = 3 then 0 else e + 1)"
    by (rule int_mod_pos_eq [where q = "a * 100 + b * 25 + c + (if e = 3 then 1 else 0)"])
      (use assms in auto)
  moreover have "?y mod 100 = (if c = 24 \<and> e = 3 then 0 else c * 4 + e + 1)"
    by (rule int_mod_pos_eq [where q = "a * 4 + b + (if c = 24 \<and> e = 3 then 1 else 0)"])
      (use assms in auto)
  moreover have "?y mod 400 = (if b = 3 \<and> c = 24 \<and> e = 3 then 0 else b * 100 + c * 4 + e + 1)"
    by (rule int_mod_pos_eq [where q = "a + (if b = 3 \<and> c = 24 \<and> e = 3 then 1 else 0)"])
      (use assms in auto)
  ultimately show ?thesis using assms unfolding is_leap_def by (auto split: if_splits)
qed

definition month_day_ok :: "bool \<Rightarrow> int \<Rightarrow> bool" where
  "month_day_ok leap n \<longleftrightarrow>
     (let (m, d) = month_day leap n
      in 1 \<le> m \<and> m \<le> 12 \<and> 1 \<le> d \<and> d \<le> month_days leap m \<and> days_before_month leap m + d = n + 1)"

lemma month_day_table:
  "list_all (month_day_ok True) [0..365] \<and> list_all (month_day_ok False) [0..364]"
  by code_simp

lemma days_before_month_table:
  "list_all (\<lambda>m. 0 \<le> days_before_month True m \<and> 0 \<le> days_before_month False m) [1..12]"
  by code_simp

lemma days_before_month_nonneg: "1 \<le> m \<Longrightarrow> m \<le> 12 \<Longrightarrow> 0 \<le> days_before_month leap m"
  using days_before_month_table unfolding list_all_iff set_upto by (cases leap) auto

lemma month_day_all_ok:
  assumes "0 \<le> n" and "n < (if leap then 366 else 365)"
  shows "month_day_ok leap n"
proof -
  have "\<forall>k \<in> {0..365}. month_day_ok True k" and "\<forall>k \<in> {0..364}. month_day_ok False k"
    using month_day_table unfolding list_all_iff set_upto by blast+
  with assms show ?thesis by (cases leap) auto
qed

text \<open>The days of a date's year, month and day count up to the date itself.\<close>

lemma ord2ymd_correct:
  assumes "1 \<le> d" and "ord2ymd d = (y, m, e)"
  shows "ymd2ord y m e = d \<and> 1 \<le> y \<and> 1 \<le> m \<and> m \<le> 12 \<and> 1 \<le> e \<and> e \<le> month_days (is_leap y) m"
proof -
  define a r400 b r100 c r4 f r1 where defs:
    "a = (d - 1) div 146097" "r400 = (d - 1) mod 146097" "b = r400 div 36524"
    "r100 = r400 mod 36524" "c = r100 div 1461" "r4 = r100 mod 1461"
    "f = r4 div 365" "r1 = r4 mod 365"
  have parts: "d - 1 = a * 146097 + r400" "r400 = b * 36524 + r100" "r100 = c * 1461 + r4"
    "r4 = f * 365 + r1"
    unfolding defs by simp_all
  have rems: "0 \<le> r400" "r400 < 146097" "0 \<le> r100" "r100 < 36524" "0 \<le> r4" "r4 < 1461"
    "0 \<le> r1" "r1 < 365"
    unfolding defs by simp_all
  have bounds: "0 \<le> a" "0 \<le> b" "b \<le> 4" "0 \<le> c" "c \<le> 24" "0 \<le> f" "f \<le> 4"
    using assms(1) parts rems by linarith+
  have val: "ord2ymd d = (let y = a * 400 + 1 + b * 100 + c * 4 + f in
      if f = 4 \<or> b = 4 then (y - 1, 12, 31)
      else (y, month_day (f = 3 \<and> (c \<noteq> 24 \<or> b = 3)) r1))"
    unfolding ord2ymd_def Let_def defs ..
  consider (century) "b = 4" | (fourth) "b \<noteq> 4" "f = 4" | (plain) "b \<noteq> 4" "f \<noteq> 4" by blast
  then show ?thesis
  proof cases
    case century
    with parts bounds rems have z: "r100 = 0" "c = 0" "f = 0" "r4 = 0" by linarith+
    with val century assms(2) have eq: "y = a * 400 + 1 + 3 * 100 + 24 * 4 + 3" "m = 12" "e = 31"
      by (simp_all add: Let_def)
    have "is_leap y" using is_leap_cycle [of 3 24 3 a] eq by simp
    with eq days_before_year_cycle [of 3 24 3 a] parts z century bounds show ?thesis
      by (simp add: ymd2ord_def days_before_month_def month_days_def)
  next
    case fourth
    with parts bounds rems have z: "r1 = 0" "r4 = 1460" by linarith+
    have lt: "c \<noteq> 24 \<or> b = 3" using parts bounds rems fourth z by linarith
    have eq: "y = a * 400 + 1 + b * 100 + c * 4 + 3" "m = 12" "e = 31"
      using val fourth assms(2) by (simp_all add: Let_def)
    have "is_leap y" using is_leap_cycle [of b c 3 a] eq lt bounds fourth by simp
    with eq days_before_year_cycle [of b c 3 a] parts z fourth bounds show ?thesis
      by (simp add: ymd2ord_def days_before_month_def month_days_def)
  next
    case plain
    let ?leap = "f = 3 \<and> (c \<noteq> 24 \<or> b = 3)"
    have eq: "y = a * 400 + 1 + b * 100 + c * 4 + f" "(m, e) = month_day ?leap r1"
      using val plain assms(2) by (simp_all add: Let_def)
    have leap: "is_leap y \<longleftrightarrow> ?leap" using is_leap_cycle [of b c f a] eq plain bounds by simp
    have "month_day_ok ?leap r1" using rems by (intro month_day_all_ok) auto
    then have md: "1 \<le> m" "m \<le> 12" "1 \<le> e" "e \<le> month_days ?leap m"
      "days_before_month ?leap m + e = r1 + 1"
      unfolding month_day_ok_def eq(2) [symmetric] Let_def by auto
    have "days_before_year y = a * 146097 + b * 36524 + c * 1461 + f * 365"
      using days_before_year_cycle [of b c f a] eq plain bounds by simp
    then have "ymd2ord y m e = d"
      using md parts unfolding ymd2ord_def leap by linarith
    with md leap eq bounds plain show ?thesis by simp
  qed
qed

lemma ord2ymd_year_bound:
  assumes "valid_date d" and "ord2ymd d = (y, m, e)"
  shows "y \<le> 9999"
proof (rule ccontr)
  assume "\<not> y \<le> 9999"
  then have y: "10000 \<le> y" by simp
  from assms have c: "ymd2ord y m e = d" "1 \<le> m" "m \<le> 12" "1 \<le> e"
    using ord2ymd_correct [of d y m e] by (auto simp: valid_date_def)
  have "days_before_year 10000 \<le> days_before_year y"
  proof -
    have "(y - 1) div 100 - 99 \<le> (y - 1) div 4 - 2499" using y by linarith
    moreover have "24 \<le> (y - 1) div 400" using y by linarith
    ultimately show ?thesis using y by (simp add: days_before_year_def)
  qed
  moreover have "days_before_year 10000 = 3652059" by (simp add: days_before_year_def)
  moreover have "0 \<le> days_before_month (is_leap y) m"
    using c days_before_month_nonneg by blast
  ultimately have "3652059 < d" using c(1,4) unfolding ymd2ord_def by linarith
  with assms(1) show False by (simp add: valid_date_def)
qed

section \<open>ISO dates\<close>

text \<open>
  \<open>date.isoformat\<close>, and \<open>date.fromisoformat\<close> with the forms Python 3.12 accepts: the calendar date
  with or without separators and the week date. \<open>None\<close> is \<open>ValueError\<close>. The string is read from the
  left; a string of ten characters in the basic form keeps its last two unread, as in CPython.
\<close>

definition isoformat :: "date \<Rightarrow> string" where
  "isoformat d = (case ord2ymd d of (y, m, e) \<Rightarrow>
     pad 4 (nat y) @ ''-'' @ pad 2 (nat m) @ ''-'' @ pad 2 (nat e))"

definition make_date :: "nat \<Rightarrow> nat \<Rightarrow> nat \<Rightarrow> date option" where
  "make_date y m e =
     (if 1 \<le> y \<and> y \<le> 9999 \<and> 1 \<le> m \<and> m \<le> 12 \<and> 1 \<le> e \<and> int e \<le> month_days (is_leap (int y)) (int m)
      then Some (ymd2ord (int y) (int m) (int e)) else None)"

definition iso_week_monday :: "int \<Rightarrow> date" where
  "iso_week_monday y =
     (let first = ymd2ord y 1 1; wd = (first + 6) mod 7; monday = first - wd
      in if 3 < wd then monday + 7 else monday)"

definition make_week_date :: "nat \<Rightarrow> nat \<Rightarrow> nat \<Rightarrow> date option" where
  "make_week_date y w e =
     (let first = ymd2ord (int y) 1 1 mod 7;
          long = first = 4 \<or> first = 3 \<and> is_leap (int y);
          d = iso_week_monday (int y) + (int w - 1) * 7 + (int e - 1)
      in if 1 \<le> y \<and> 1 \<le> w \<and> (w \<le> 52 \<or> w = 53 \<and> long) \<and> 1 \<le> e \<and> e \<le> 7 \<and> valid_date d
         then Some d else None)"

definition drop_sep :: "bool \<Rightarrow> string \<Rightarrow> string option" where
  "drop_sep sep s = (if sep then (case s of c # t \<Rightarrow> if c = CHR ''-'' then Some t else None | [] \<Rightarrow> None)
     else Some s)"

definition parse_week :: "nat \<Rightarrow> bool \<Rightarrow> string \<Rightarrow> date option" where
  "parse_week y sep s = Option.bind (parse_digits 2 s) (\<lambda>(w, t).
     if t = [] then make_week_date y w 1
     else Option.bind (drop_sep sep t) (\<lambda>t'. Option.bind (parse_digits 1 t') (\<lambda>(e, r).
       if r = [] then make_week_date y w e else None)))"

definition parse_month_day :: "nat \<Rightarrow> bool \<Rightarrow> string \<Rightarrow> date option" where
  "parse_month_day y sep s = Option.bind (parse_digits 2 s) (\<lambda>(m, t).
     Option.bind (drop_sep sep t) (\<lambda>t'. Option.bind (parse_digits 2 t') (\<lambda>(e, r).
       make_date y m e)))"

definition fromisoformat :: "string \<Rightarrow> date option" where
  "fromisoformat s =
     (if length s \<notin> {7, 8, 10} then None
      else Option.bind (parse_digits 4 s) (\<lambda>(y, t).
        let sep = take 1 t = ''-''; u = (if sep then drop 1 t else t)
        in if take 1 u = ''W'' then parse_week y sep (drop 1 u) else parse_month_day y sep u))"

lemma length_isoformat [simp]: "length (isoformat d) = 10"
  by (simp add: isoformat_def split: prod.splits)

lemma digit_char_not_W [simp]: "digit_char d \<noteq> CHR ''W''" "digit_char d \<noteq> CHR ''-''"
proof -
  have "digit_val (CHR ''W'') = None" "digit_val (CHR ''-'') = None" by (simp_all add: digit_val_def)
  then show "digit_char d \<noteq> CHR ''W''" "digit_char d \<noteq> CHR ''-''"
    by (metis digit_val_digit_char option.distinct(1))+
qed

theorem fromisoformat_isoformat:
  assumes "valid_date d"
  shows "fromisoformat (isoformat d) = Some d"
proof -
  obtain y m e where yme: "ord2ymd d = (y, m, e)" by (cases "ord2ymd d")
  have c: "ymd2ord y m e = d" "1 \<le> y" "1 \<le> m" "m \<le> 12" "1 \<le> e" "e \<le> month_days (is_leap y) m"
    using ord2ymd_correct [of d y m e] yme assms by (auto simp: valid_date_def)
  have y: "y \<le> 9999" using assms yme by (rule ord2ymd_year_bound)
  have e: "e \<le> 31" using c(6) by (auto simp: month_days_def split: if_splits)
  have b: "nat y < 10 ^ 4" "nat m < 10 ^ 2" "nat e < 10 ^ 2" using c y e by auto
  have iso: "isoformat d = pad 4 (nat y) @ CHR ''-'' # pad 2 (nat m) @ CHR ''-'' # pad 2 (nat e)"
    by (simp add: isoformat_def yme)
  have "make_date (nat y) (nat m) (nat e) = Some d"
    using c y e by (simp add: make_date_def nat_le_iff Suc_le_eq)
  moreover have "take 1 (pad 2 (nat m) @ CHR ''-'' # pad 2 (nat e)) \<noteq> ''W''"
    by (simp add: numeral_2_eq_2)
  ultimately have "parse_month_day (nat y) True (pad 2 (nat m) @ CHR ''-'' # pad 2 (nat e)) = Some d"
    using b by (simp add: parse_month_day_def drop_sep_def)
  then show ?thesis
    using b \<open>take 1 _ \<noteq> ''W''\<close> by (simp add: fromisoformat_def iso)
qed

lemma isoformat_inject:
  assumes "valid_date c" "valid_date d" "isoformat c = isoformat d"
  shows "c = d"
  by (metis assms fromisoformat_isoformat option.inject)

lemma isoformat_chars: "c \<in> set (isoformat d) \<Longrightarrow> c = CHR ''-'' \<or> digit_val c \<noteq> None"
proof -
  assume c: "c \<in> set (isoformat d)"
  obtain y m e where yme: "ord2ymd d = (y, m, e)" by (cases "ord2ymd d")
  have "set (isoformat d)
      = set (pad 4 (nat y)) \<union> set (pad 2 (nat m)) \<union> set (pad 2 (nat e)) \<union> {CHR ''-''}"
    unfolding isoformat_def yme by (simp only: prod.case set_append list.set) blast
  with c have "c = CHR ''-'' \<or> c \<in> set (pad 4 (nat y)) \<or> c \<in> set (pad 2 (nat m)) \<or> c \<in> set (pad 2 (nat e))"
    by blast
  then show ?thesis by (elim disjE) (auto dest: pad_chars)
qed

end
