(* ===== verification/Models.thy ===== *)
theory Models
  imports Dates
begin

text \<open>
  The data of the program: the enumerations and ORM rows of \<open>domain/*/models.py\<close>, the database as
  the lists of its rows, and the SQLAlchemy session through which every component reaches it.

  A session sees its own uncommitted writes (\<open>work\<close>); \<open>durable\<close> is what the last commit left, which
  is what a rollback returns to and what survives a crash. The wall clock that \<open>utcnow\<close> reads and
  the identifiers that \<open>uuid4\<close> draws are part of the session, so that a run is a function of them.
  Identifiers are numbers, ordered as both engines order UUIDs. Foreign keys are enforced by
  PostgreSQL only: the code never turns them on for SQLite (\<open>db/session.py\<close>). Column lengths and
  the \<open>CHECK\<close> of the enumerations are left to the types.
\<close>

section \<open>Enumerations\<close>

datatype AssetClass = EQUITY | ETF | FUND | CRYPTO

datatype ObservationType = EOD_CLOSE | NAV

datatype QualityStatus = QS_OK | QS_SUSPECT

datatype JobStatus = PENDING | CLAIMED | RUNNING | WAITING_FOR_PUBLICATION | DONE | FAILED

datatype SchedulerRunStatus = SUCCESS | FAILURE

datatype PolicyCapability = RETRIEVE | STORE | DISPLAY | REDISTRIBUTE | ATTRIBUTE | RETAIN

datatype PolicyStatus = APPROVED | DENIED | UNRESOLVED

datatype dialect = SQLITE | POSTGRESQL

text \<open>The \<open>.value\<close> of the \<open>StrEnum\<close> members.\<close>

fun observation_type_value :: "ObservationType \<Rightarrow> string" where
  "observation_type_value EOD_CLOSE = ''EOD_CLOSE''"
| "observation_type_value NAV = ''NAV''"

definition observation_type_of :: "string \<Rightarrow> ObservationType option" where
  "observation_type_of s = (if s = ''EOD_CLOSE'' then Some EOD_CLOSE
     else if s = ''NAV'' then Some NAV else None)"

fun capability_value :: "PolicyCapability \<Rightarrow> string" where
  "capability_value RETRIEVE = ''RETRIEVE''"
| "capability_value STORE = ''STORE''"
| "capability_value DISPLAY = ''DISPLAY''"
| "capability_value REDISTRIBUTE = ''REDISTRIBUTE''"
| "capability_value ATTRIBUTE = ''ATTRIBUTE''"
| "capability_value RETAIN = ''RETAIN''"

fun policy_status_value :: "PolicyStatus \<Rightarrow> string" where
  "policy_status_value APPROVED = ''APPROVED''"
| "policy_status_value DENIED = ''DENIED''"
| "policy_status_value UNRESOLVED = ''UNRESOLVED''"

section \<open>Decimals\<close>

text \<open>
  A \<open>Decimal\<close> by its numeric value: finite numbers that compare equal are identified, as \<open>==\<close> does
  in the code. A quiet NaN is unequal to everything, itself included, and comparing it with an
  order raises \<open>InvalidOperation\<close>. Signalling NaNs are not modelled.
\<close>

datatype decimal = Fin rat | PosInf | NegInf | NaN

fun dec_eq :: "decimal \<Rightarrow> decimal \<Rightarrow> bool" where
  "dec_eq NaN _ = False"
| "dec_eq _ NaN = False"
| "dec_eq x y = (x = y)"

fun dec_opt_eq :: "decimal option \<Rightarrow> decimal option \<Rightarrow> bool" where
  "dec_opt_eq None None = True"
| "dec_opt_eq (Some x) (Some y) = dec_eq x y"
| "dec_opt_eq _ _ = False"

lemma dec_eq_iff: "dec_eq x y \<longleftrightarrow> x = y \<and> x \<noteq> NaN"
  by (cases x; cases y) auto

lemma dec_opt_eq_iff: "dec_opt_eq x y \<longleftrightarrow> x = y \<and> x \<noteq> Some NaN"
  by (cases x; cases y) (auto simp: dec_eq_iff)

section \<open>Rows\<close>

type_synonym uuid = nat

record instrument =
  ins_id :: uuid
  asset_class :: AssetClass
  ins_name :: string
  ins_isin :: "string option"
  ins_figi :: "string option"
  ins_created_at :: datetime
  ins_updated_at :: datetime

record listing =
  lst_id :: uuid
  lst_instrument_id :: uuid
  lst_mic :: "string option"
  lst_venue :: string
  lst_ticker :: string
  lst_currency :: string
  lst_created_at :: datetime
  lst_updated_at :: datetime

record external_identity =
  xid_id :: uuid
  xid_listing_id :: uuid
  xid_source :: string
  xid_external_id :: string
  xid_valid_from :: date
  xid_valid_to :: "date option"
  xid_created_at :: datetime
  xid_updated_at :: datetime

record policy_decision =
  dec_id :: uuid
  dec_source :: string
  dec_capability :: PolicyCapability
  dec_version :: nat
  dec_status :: PolicyStatus
  evidence_reference :: string
  reviewed_by :: string
  reviewed_at :: datetime
  dec_notes :: "string option"
  dec_created_at :: datetime

record observation =
  obs_id :: uuid
  obs_listing_id :: uuid
  obs_source :: string
  credential_scope :: string
  external_listing_id :: string
  session_date :: date
  observation_type :: ObservationType
  revision :: nat
  obs_currency :: string
  obs_close :: decimal
  obs_open :: "decimal option"
  obs_high :: "decimal option"
  obs_low :: "decimal option"
  obs_adjusted_close :: "decimal option"
  quality_status :: QualityStatus
  retrieved_at :: datetime
  retrieval_policy_decision_id :: "uuid option"
  storage_policy_decision_id :: "uuid option"
  obs_created_at :: datetime

record job =
  job_id :: uuid
  job_type :: string
  dedupe_key :: string
  job_source :: string
  job_listing_id :: "uuid option"
  job_status :: JobStatus
  job_cursor :: "string option"
  attempt_count :: int
  max_attempts :: int
  next_run_at :: datetime
  claimed_by :: "string option"
  claimed_at :: "datetime option"
  generation :: nat
  last_error :: "string option"
  job_created_at :: datetime
  job_updated_at :: datetime

record scheduler_run =
  run_id :: uuid
  started_at :: datetime
  finished_at :: "datetime option"
  scheduler_status :: "SchedulerRunStatus option"
  worker_status :: "SchedulerRunStatus option"
  run_error_code :: "string option"

record database =
  engine :: dialect
  instruments :: "instrument list"
  listings :: "listing list"
  identities :: "external_identity list"
  decisions :: "policy_decision list"
  observations :: "observation list"
  jobs :: "job list"
  runs :: "scheduler_run list"

section \<open>Exceptions\<close>

text \<open>
  The exception classes the code raises or tells apart. \<open>ForeignError\<close> stands for any other
  exception that provider code raises, with its text.
\<close>

datatype exn =
    IntegrityError
  | OperationalError
  | StaleJobClaimError uuid
  | PolicyNotAuthorizedError string "(PolicyCapability \<times> PolicyStatus) list"
  | InvalidCursorError string
  | MalformedObservationError string
  | UnknownSourceError string string
  | CalendarUnavailableError string string
  | ProviderTimeoutError
  | ProviderProcessError
  | EOFError
  | ObjectDeletedError uuid
  | InvalidOperation
  | AssertionError
  | IndexError
  | RevisionRaceExhaustedError
  | NoEligibleObservationError
  | ObservationImmutableError uuid
  | PolicyDecisionImmutableError uuid
  | AmbiguousMatchError "uuid list"
  | CredentialNotFoundError string
  | ConsumerAuthenticationError string
  | ConsumerAuthorizationError string string
  | HTTPException nat string
  | ForeignError string

section \<open>Sessions\<close>

record sess =
  work :: database
  durable :: database
  wall :: datetime
  uuid_supply :: "nat \<Rightarrow> uuid"
  uuid_draws :: nat

type_synonym 'a py = "(exn, sess, 'a) act"

definition commit :: "sess \<Rightarrow> sess" where
  "commit s = s\<lparr>durable := work s\<rparr>"

definition rollback :: "sess \<Rightarrow> sess" where
  "rollback s = s\<lparr>work := durable s\<rparr>"

definition uuid4 :: "sess \<Rightarrow> uuid" where
  "uuid4 s = uuid_supply s (uuid_draws s)"

definition drawn :: "sess \<Rightarrow> sess" where
  "drawn s = s\<lparr>uuid_draws := Suc (uuid_draws s)\<rparr>"

definition utcnow :: "sess \<Rightarrow> datetime" where
  "utcnow s = wall s"

definition on_jobs :: "(job list \<Rightarrow> job list) \<Rightarrow> sess \<Rightarrow> sess" where
  "on_jobs f s = s\<lparr>work := (work s)\<lparr>jobs := f (jobs (work s))\<rparr>\<rparr>"

definition on_observations :: "(observation list \<Rightarrow> observation list) \<Rightarrow> sess \<Rightarrow> sess" where
  "on_observations f s = s\<lparr>work := (work s)\<lparr>observations := f (observations (work s))\<rparr>\<rparr>"

definition on_decisions :: "(policy_decision list \<Rightarrow> policy_decision list) \<Rightarrow> sess \<Rightarrow> sess" where
  "on_decisions f s = s\<lparr>work := (work s)\<lparr>decisions := f (decisions (work s))\<rparr>\<rparr>"

definition on_runs :: "(scheduler_run list \<Rightarrow> scheduler_run list) \<Rightarrow> sess \<Rightarrow> sess" where
  "on_runs f s = s\<lparr>work := (work s)\<lparr>runs := f (runs (work s))\<rparr>\<rparr>"

text \<open>An empty schema, and a session opened on a database whose draws start at 1000.\<close>

definition empty_database :: "dialect \<Rightarrow> database" where
  "empty_database e = \<lparr>engine = e, instruments = [], listings = [], identities = [], decisions = [],
     observations = [], jobs = [], runs = []\<rparr>"

definition session_on :: "database \<Rightarrow> datetime \<Rightarrow> sess" where
  "session_on db now = \<lparr>work = db, durable = db, wall = now, uuid_supply = (\<lambda>n. 1000 + n), uuid_draws = 0\<rparr>"

text \<open>A foreign key is checked where the engine enforces it.\<close>

definition fk_holds :: "sess \<Rightarrow> bool \<Rightarrow> bool" where
  "fk_holds s ok \<longleftrightarrow> engine (work s) = SQLITE \<or> ok"

definition listing_exists :: "sess \<Rightarrow> uuid \<Rightarrow> bool" where
  "listing_exists s l \<longleftrightarrow> l \<in> set (map lst_id (listings (work s)))"

definition decision_exists :: "sess \<Rightarrow> uuid option \<Rightarrow> bool" where
  "decision_exists s d \<longleftrightarrow> (case d of None \<Rightarrow> True
     | Some i \<Rightarrow> i \<in> set (map dec_id (decisions (work s))))"

subsection \<open>Frame facts\<close>

named_theorems frames \<open>what the primitive session operations read and leave\<close>

lemma work_on_jobs [frames, simp]:
  "work (on_jobs f s) = (work s)\<lparr>jobs := f (jobs (work s))\<rparr>"
  "jobs (work (on_jobs f s)) = f (jobs (work s))"
  "observations (work (on_jobs f s)) = observations (work s)"
  "decisions (work (on_jobs f s)) = decisions (work s)"
  "runs (work (on_jobs f s)) = runs (work s)"
  "durable (on_jobs f s) = durable s" "wall (on_jobs f s) = wall s"
  "uuid_draws (on_jobs f s) = uuid_draws s" "uuid_supply (on_jobs f s) = uuid_supply s"
  by (simp_all add: on_jobs_def)

lemma work_on_observations [frames, simp]:
  "observations (work (on_observations g s)) = g (observations (work s))"
  "jobs (work (on_observations g s)) = jobs (work s)"
  "decisions (work (on_observations g s)) = decisions (work s)"
  "runs (work (on_observations g s)) = runs (work s)"
  "engine (work (on_observations g s)) = engine (work s)"
  "listings (work (on_observations g s)) = listings (work s)"
  "durable (on_observations g s) = durable s" "wall (on_observations g s) = wall s"
  "uuid_draws (on_observations g s) = uuid_draws s"
  "uuid_supply (on_observations g s) = uuid_supply s"
  by (simp_all add: on_observations_def)

lemma work_on_decisions [frames, simp]:
  "decisions (work (on_decisions h s)) = h (decisions (work s))"
  "jobs (work (on_decisions h s)) = jobs (work s)"
  "observations (work (on_decisions h s)) = observations (work s)"
  "runs (work (on_decisions h s)) = runs (work s)"
  "durable (on_decisions h s) = durable s" "wall (on_decisions h s) = wall s"
  by (simp_all add: on_decisions_def)

lemma work_on_runs [frames, simp]:
  "runs (work (on_runs k s)) = k (runs (work s))"
  "jobs (work (on_runs k s)) = jobs (work s)"
  "observations (work (on_runs k s)) = observations (work s)"
  "decisions (work (on_runs k s)) = decisions (work s)"
  "durable (on_runs k s) = durable s" "wall (on_runs k s) = wall s"
  by (simp_all add: on_runs_def)

lemma commit_simps [frames, simp]:
  "work (commit s) = work s" "durable (commit s) = work s" "wall (commit s) = wall s"
  "uuid_draws (commit s) = uuid_draws s" "uuid_supply (commit s) = uuid_supply s"
  by (simp_all add: commit_def)

lemma rollback_simps [frames, simp]:
  "work (rollback s) = durable s" "durable (rollback s) = durable s" "wall (rollback s) = wall s"
  by (simp_all add: rollback_def)

lemma drawn_simps [frames, simp]:
  "work (drawn s) = work s" "durable (drawn s) = durable s" "wall (drawn s) = wall s"
  "uuid_supply (drawn s) = uuid_supply s" "uuid_draws (drawn s) = Suc (uuid_draws s)"
  "uuid4 (drawn s) = uuid_supply s (Suc (uuid_draws s))"
  by (simp_all add: drawn_def uuid4_def)

lemma utcnow_simps [frames, simp]:
  "utcnow (on_jobs f s) = utcnow s" "utcnow (on_observations g s) = utcnow s"
  "utcnow (commit s) = utcnow s" "utcnow (drawn s) = utcnow s"
  by (simp_all add: utcnow_def)

end
