(* ===== verification/Credentials.thy ===== *)
theory Credentials
  imports Models
begin

text \<open>
  \<open>domain/governance/credentials.py\<close>: the resolver of opaque credential references and the
  sanitizer of messages. The two patterns of \<open>sanitize_message\<close> are written out as the leftmost
  non-overlapping substitutions that \<open>re.sub\<close> makes. For the URL pattern it is proved that no
  user information other than the mask is left in the text.
\<close>

section \<open>Credential references\<close>

record credential_reference =
  ref_source :: string
  ref_scope :: string
  ref_env_var :: string

text \<open>\<open>os.environ\<close> is a map; an unset and an empty variable are both no value.\<close>

definition resolve :: "(string \<rightharpoonup> string) \<Rightarrow> credential_reference \<Rightarrow> exn + string" where
  "resolve environ ref =
     (case environ (ref_env_var ref) of
        None \<Rightarrow> Inl (CredentialNotFoundError (ref_env_var ref))
      | Some v \<Rightarrow> if v = [] then Inl (CredentialNotFoundError (ref_env_var ref)) else Inr v)"

section \<open>Sanitized messages\<close>

text \<open>\<open>(://)([^/@\s]+)(@)\<close> replaced by \<open>\1***\3\<close>.\<close>

definition authority_char :: "char \<Rightarrow> bool" where
  "authority_char c \<longleftrightarrow> c \<noteq> CHR ''/'' \<and> c \<noteq> CHR ''@'' \<and> \<not> is_space c"

function sub_url_credentials :: "string \<Rightarrow> string" where
  "sub_url_credentials [] = []"
| "sub_url_credentials (c # s) =
     (let tail = drop 3 (c # s);
          run = takeWhile authority_char tail;
          rest = dropWhile authority_char tail
      in if starts_with ''://'' (c # s) \<and> run \<noteq> [] \<and> take 1 rest = ''@''
         then ''://***@'' @ sub_url_credentials (drop 1 rest)
         else c # sub_url_credentials s)"
  by pat_completeness auto
termination
  by (relation "measure length")
    (auto simp: less_Suc_eq_le intro!: le_trans [OF diff_le_self] le_trans [OF length_dropWhile_le])

declare sub_url_credentials.simps(2) [simp del]

text \<open>
  \<open>((?:api[_-]?key|token|secret|password|apikey)=)([^&\s]+)\<close>, ignoring case, replaced by
  \<open>\1***\<close>. The alternatives are listed in the pattern's order.
\<close>

definition secret_keys :: "string list" where
  "secret_keys = [''API_KEY='', ''API-KEY='', ''APIKEY='', ''TOKEN='', ''SECRET='', ''PASSWORD='']"

definition secret_key_at :: "string \<Rightarrow> nat option" where
  "secret_key_at s = map_option length (find (\<lambda>k. upper (take (length k) s) = k) secret_keys)"

definition value_char :: "char \<Rightarrow> bool" where
  "value_char c \<longleftrightarrow> c \<noteq> CHR ''&'' \<and> \<not> is_space c"

lemma length_dropWhile_less: "takeWhile p xs \<noteq> [] \<Longrightarrow> length (dropWhile p xs) < length xs"
  by (cases xs) (auto simp: less_Suc_eq_le length_dropWhile_le split: if_splits)

function sub_query_secrets :: "string \<Rightarrow> string" where
  "sub_query_secrets [] = []"
| "sub_query_secrets (c # s) =
     (case secret_key_at (c # s) of
        None \<Rightarrow> c # sub_query_secrets s
      | Some n \<Rightarrow>
          if takeWhile value_char (drop n (c # s)) \<noteq> []
          then take n (c # s) @ ''***'' @ sub_query_secrets (dropWhile value_char (drop n (c # s)))
          else c # sub_query_secrets s)"
  by pat_completeness auto

termination
proof (relation "measure length", goal_cases)
  case (3 c s n)
  then have "length (dropWhile value_char (drop n (c # s))) < length (drop n (c # s))"
    by (intro length_dropWhile_less)
  also have "\<dots> \<le> length (c # s)" by simp
  finally show ?case by simp
qed auto

declare sub_query_secrets.simps(2) [simp del]

text \<open>\<open>text.replace(old, new)\<close> for a non-empty \<open>old\<close>.\<close>

function replace_all :: "string \<Rightarrow> string \<Rightarrow> string \<Rightarrow> string" where
  "replace_all old new [] = []"
| "replace_all old new (c # s) =
     (if old \<noteq> [] \<and> starts_with old (c # s)
      then new @ replace_all old new (drop (length old) (c # s))
      else c # replace_all old new s)"
  by pat_completeness auto
termination
  by (relation "measure (\<lambda>(old, new, s). length s)") (auto simp: Suc_diff_le neq_Nil_conv)

definition mask_known :: "string list \<Rightarrow> string \<Rightarrow> string" where
  "mask_known secrets s = fold (\<lambda>k t. if k = [] then t else replace_all k ''***'' t) secrets s"

definition sanitize_message :: "string \<Rightarrow> string list \<Rightarrow> string" where
  "sanitize_message message known_secrets =
     mask_known known_secrets (sub_query_secrets (sub_url_credentials message))"

section \<open>No user information is left\<close>

lemma sub_url_match:
  assumes "u \<noteq> []" and "list_all authority_char u"
  shows "sub_url_credentials (''://'' @ u @ CHR ''@'' # r) = ''://***@'' @ sub_url_credentials r"
proof -
  have "takeWhile authority_char (u @ CHR ''@'' # r) = u"
    "dropWhile authority_char (u @ CHR ''@'' # r) = CHR ''@'' # r"
    using assms(2) by (auto simp: list_all_iff authority_char_def takeWhile_tail dropWhile_append3)
  with assms(1) show ?thesis
    by (simp add: sub_url_credentials.simps(2) starts_with_def numeral_3_eq_3)
qed

lemma sub_url_cases:
  obtains (Nil) "s = []" "sub_url_credentials s = []"
  | (Match) u r where "s = ''://'' @ u @ CHR ''@'' # r" "u \<noteq> []" "list_all authority_char u"
      "sub_url_credentials s = ''://***@'' @ sub_url_credentials r"
  | (Copy) c t where "s = c # t" "sub_url_credentials s = c # sub_url_credentials t"
      "\<And>u r. s = ''://'' @ u @ CHR ''@'' # r \<Longrightarrow> list_all authority_char u \<Longrightarrow> u = []"
proof (cases s)
  case Nil
  then show ?thesis using that(1) by simp
next
  case (Cons c t)
  define run rest where "run = takeWhile authority_char (drop 3 s)"
    and "rest = dropWhile authority_char (drop 3 s)"
  show ?thesis
  proof (cases "starts_with ''://'' s \<and> run \<noteq> [] \<and> take 1 rest = ''@''")
    case True
    then obtain r where r: "rest = CHR ''@'' # r" by (cases rest) auto
    have "drop 3 s = run @ rest" by (simp add: run_def rest_def)
    moreover have "s = ''://'' @ drop 3 s" using True by (auto simp: starts_with_iff)
    ultimately have s: "s = ''://'' @ run @ CHR ''@'' # r" using r by metis
    have run: "list_all authority_char run"
      by (auto simp: run_def list_all_iff dest: set_takeWhileD)
    have "run \<noteq> []" using True by simp
    then show ?thesis using that(2) [OF s _ run] sub_url_match [OF _ run] s by metis
  next
    case False
    then have eq: "sub_url_credentials s = c # sub_url_credentials t"
      unfolding Cons by (auto simp: sub_url_credentials.simps(2) run_def rest_def Let_def Cons)
    have "u = []" if "s = ''://'' @ u @ CHR ''@'' # r" "list_all authority_char u" for u r
    proof (rule ccontr)
      assume "u \<noteq> []"
      then have "sub_url_credentials s = ''://***@'' @ sub_url_credentials r"
        using sub_url_match that by metis
      have "run = u" "rest = CHR ''@'' # r"
        using that by (auto simp: run_def rest_def numeral_3_eq_3 list_all_iff authority_char_def
            takeWhile_tail dropWhile_append3)
      with False \<open>u \<noteq> []\<close> that(1) show False by (auto simp: starts_with_iff)
    qed
    with Cons eq that(3) show ?thesis by blast
  qed
qed

lemma sub_url_reads_through:
  assumes "sub_url_credentials s = u @ CHR ''@'' # r" and "list_all authority_char u"
  shows "\<exists>r'. s = u @ CHR ''@'' # r'"
  using assms
proof (induction u arbitrary: s)
  case Nil
  then show ?case by (cases s rule: sub_url_cases) auto
next
  case (Cons a u)
  show ?case
  proof (cases s rule: sub_url_cases)
    case (Match v q)
    with Cons.prems have "u @ CHR ''@'' # r = ''//***@'' @ sub_url_credentials q" by simp
    then show ?thesis using Cons.prems(2) by (cases u) (auto simp: authority_char_def)
  next
    case (Copy c t)
    with Cons show ?thesis by auto
  qed (use Cons.prems in simp)
qed

lemma sub_url_no_userinfo:
  assumes "sub_url_credentials s = p @ ''://'' @ u @ CHR ''@'' # r"
    and "u \<noteq> []" and "list_all authority_char u"
  shows "u = ''***''"
  using assms(1)
proof (induction "length s" arbitrary: s p rule: less_induct)
  case less
  show ?case
  proof (cases s rule: sub_url_cases)
    case Nil
    with less.prems show ?thesis by simp
  next
    case (Match v q)
    have eq: "''://***@'' @ sub_url_credentials q = p @ ''://'' @ u @ CHR ''@'' # r"
      using less.prems Match by simp
    show ?thesis
    proof (cases "p = []")
      case True
      have "takeWhile authority_char (u @ CHR ''@'' # r) = u"
        using assms(3) by (auto simp: list_all_iff authority_char_def takeWhile_tail)
      moreover have "u @ CHR ''@'' # r = ''***@'' @ sub_url_credentials q" using eq True by simp
      ultimately show ?thesis by (simp add: authority_char_def is_space_def)
    next
      case False
      have "\<exists>p'. p = ''://***@'' @ p'"
        using eq False by (auto simp: Cons_eq_append_conv)
      then obtain p' where "sub_url_credentials q = p' @ ''://'' @ u @ CHR ''@'' # r"
        using eq by auto
      then show ?thesis using less.hyps [of q p'] Match(1) by auto
    qed
  next
    case (Copy c t)
    show ?thesis
    proof (cases p)
      case (Cons a p')
      with less.prems Copy show ?thesis using less.hyps [of t p'] by auto
    next
      case Nil
      with less.prems Copy have c: "c = CHR '':''" and t: "sub_url_credentials t = ''//'' @ u @ CHR ''@'' # r"
        by auto
      then obtain t2 where "t = CHR ''/'' # t2" "sub_url_credentials t2 = ''/'' @ u @ CHR ''@'' # r"
        by (cases t rule: sub_url_cases) auto
      moreover from this obtain t3 where "t2 = CHR ''/'' # t3" "sub_url_credentials t3 = u @ CHR ''@'' # r"
        by (cases t2 rule: sub_url_cases) auto
      moreover from this obtain r' where "t3 = u @ CHR ''@'' # r'"
        using sub_url_reads_through assms(3) by blast
      ultimately have "s = ''://'' @ u @ CHR ''@'' # r'" using Copy c by simp
      with Copy(3) assms(2,3) show ?thesis by blast
    qed
  qed
qed

section \<open>Plain text is kept\<close>

text \<open>Without a colon there is no authority, and without an equals sign no key with a value.\<close>

lemma sub_url_plain: "CHR '':'' \<notin> set s \<Longrightarrow> sub_url_credentials s = s"
  by (induction s) (auto simp: sub_url_credentials.simps(2) Let_def starts_with_def)

lemma upper_char_equals: "upper_char c = CHR ''='' \<Longrightarrow> c = CHR ''=''"
proof (cases "is_lower c")
  case True
  then have c: "97 \<le> code_point c" "code_point c \<le> 122" by (simp_all add: is_lower_def)
  then have "(code_point c - 32) mod 256 = code_point c - 32" by (intro mod_less) linarith
  with True c have "code_point (upper_char c) = code_point c - 32" "97 \<le> code_point c"
    by (simp_all add: upper_char_def)
  moreover assume "upper_char c = CHR ''=''"
  ultimately show ?thesis by simp
qed (simp add: upper_char_def)

lemma secret_key_plain: "CHR ''='' \<notin> set s \<Longrightarrow> secret_key_at s = None"
proof -
  assume no: "CHR ''='' \<notin> set s"
  have "upper (take (length k) s) \<noteq> k" if "k \<in> set secret_keys" for k
  proof
    assume eq: "upper (take (length k) s) = k"
    have "CHR ''='' \<in> set k" using that by (auto simp: secret_keys_def)
    with eq have "CHR ''='' \<in> set (upper (take (length k) s))" by simp
    then obtain c where "c \<in> set (take (length k) s)" "upper_char c = CHR ''=''"
      by (auto simp: upper_def)
    with no show False by (auto dest: in_set_takeD upper_char_equals)
  qed
  then show ?thesis by (simp add: secret_key_at_def find_None_iff)
qed

lemma sub_query_plain: "CHR ''='' \<notin> set s \<Longrightarrow> sub_query_secrets s = s"
proof (induction s)
  case (Cons c s)
  with secret_key_plain [of "c # s"] show ?case by (simp add: sub_query_secrets.simps(2))
qed simp

lemma sanitize_plain: "CHR '':'' \<notin> set s \<Longrightarrow> CHR ''='' \<notin> set s \<Longrightarrow> sanitize_message s [] = s"
  by (simp add: sanitize_message_def mask_known_def sub_url_plain sub_query_plain)

end
