(* ===== verification/Queue.thy ===== *)
theory Queue
  imports Credentials "HOL-Library.Product_Lexorder"
begin

text \<open>
  \<open>domain/ingestion/queue.py\<close>: the persistent job queue. Every operation is one statement over the
  table \<open>jobs\<close>, followed by a commit where the code commits; a \<open>Job\<close> object that a caller holds is
  the row as it was read, and \<open>refreshed\<close> is the object after the session expired it. A statement
  that does not set \<open>updated_at\<close> gets the clock's value there (\<open>onupdate=utcnow\<close>).

  SQLite may refuse a statement because another connection holds its lock: \<open>locks None n\<close> says so
  of the query of \<open>claim_next\<close> and \<open>locks (Some i) n\<close> of the claim of job \<open>i\<close>, when \<open>n\<close> further
  attempts are left. The interleaving of several workers is the subject of \<open>Queue_Trace\<close>.
\<close>

section \<open>Backoff\<close>

definition backoff_base_seconds :: int where "backoff_base_seconds = 30"
definition backoff_cap_seconds :: int where "backoff_cap_seconds = 3600"
definition default_quota_defer_seconds :: int where "default_quota_defer_seconds = 3600"
definition lock_retry_attempts :: nat where "lock_retry_attempts = 10"

definition backoff_seconds :: "int \<Rightarrow> int" where
  "backoff_seconds attempts =
     (if attempts \<le> 0 then 0
      else min (backoff_base_seconds * 2 ^ nat (attempts - 1)) backoff_cap_seconds)"

section \<open>Enqueueing\<close>

record enqueue_result =
  er_job :: job
  er_created :: bool

record job_request =
  rq_job_type :: string
  rq_source :: string
  rq_dedupe_key :: string
  rq_listing_id :: "uuid option"
  rq_cursor :: "string option"
  rq_run_at :: datetime
  rq_max_attempts :: int

definition new_job :: "job_request \<Rightarrow> sess \<Rightarrow> job" where
  "new_job q s =
     \<lparr>job_id = uuid4 s, job_type = rq_job_type q, dedupe_key = rq_dedupe_key q,
      job_source = rq_source q, job_listing_id = rq_listing_id q, job_status = PENDING,
      job_cursor = rq_cursor q, attempt_count = 0, max_attempts = rq_max_attempts q,
      next_run_at = rq_run_at q, claimed_by = None, claimed_at = None, generation = 0,
      last_error = None, job_created_at = utcnow s, job_updated_at = utcnow s\<rparr>"

text \<open>\<open>INSERT\<close> under the primary key, \<open>uq_jobs_dedupe_key\<close> and the foreign key to the listing.\<close>

definition insert_job :: "job \<Rightarrow> sess \<Rightarrow> sess option" where
  "insert_job j s =
     (if (\<exists>q \<in> set (jobs (work s)). job_id q = job_id j \<or> dedupe_key q = dedupe_key j)
         \<or> \<not> fk_holds s (case job_listing_id j of None \<Rightarrow> True | Some l \<Rightarrow> listing_exists s l)
      then None else Some (on_jobs (\<lambda>js. js @ [j]) s))"

definition enqueue_idempotent :: "job_request \<Rightarrow> enqueue_result py" where
  "enqueue_idempotent q s =
     (case insert_job (new_job q s) (drawn s) of
        Some t \<Rightarrow> (Inr \<lparr>er_job = new_job q s, er_created = True\<rparr>, t)
      | None \<Rightarrow>
          (case select_first (\<lambda>j. dedupe_key j = rq_dedupe_key q) (jobs (work s)) of
             None \<Rightarrow> (Inl IntegrityError, drawn s)
           | Some existing \<Rightarrow> (Inr \<lparr>er_job = existing, er_created = False\<rparr>, drawn s)))"

text \<open>
  \<open>plan_and_enqueue\<close> sets the status of a job it has just created; the session writes the attribute
  with its next flush, before any other statement reads the table.
\<close>

definition await_publication :: "job \<Rightarrow> sess \<Rightarrow> sess" where
  "await_publication j s =
     on_jobs (update_where (\<lambda>r. job_id r = job_id j)
       (\<lambda>r. r\<lparr>job_status := WAITING_FOR_PUBLICATION, job_updated_at := utcnow s\<rparr>)) s"

definition enqueue_waiting :: "job_request \<Rightarrow> enqueue_result py" where
  "enqueue_waiting q =
     andthen (enqueue_idempotent q)
       (\<lambda>r s. if er_created r
               then (Inr (r\<lparr>er_job := (er_job r)\<lparr>job_status := WAITING_FOR_PUBLICATION\<rparr>\<rparr>), await_publication (er_job r) s)
               else (Inr r, s))"

section \<open>Recovering and promoting\<close>

definition due_waiting :: "datetime \<Rightarrow> job \<Rightarrow> bool" where
  "due_waiting now j \<longleftrightarrow> job_status j = WAITING_FOR_PUBLICATION \<and> next_run_at j \<le> now"

definition promoted :: "datetime \<Rightarrow> job \<Rightarrow> job" where
  "promoted now j = j\<lparr>job_status := PENDING, job_updated_at := now\<rparr>"

definition promote_due_waiting :: "datetime \<Rightarrow> nat py" where
  "promote_due_waiting now s =
     (Inr (rowcount (due_waiting now) (jobs (work s))),
      commit (on_jobs (update_where (due_waiting now) (promoted now)) s))"

definition lease_expired :: "datetime \<Rightarrow> int \<Rightarrow> job \<Rightarrow> bool" where
  "lease_expired now lease_seconds j \<longleftrightarrow>
     job_status j \<in> {CLAIMED, RUNNING}
     \<and> (case claimed_at j of None \<Rightarrow> False | Some t \<Rightarrow> t \<le> now - microseconds lease_seconds)"

definition recovered :: "datetime \<Rightarrow> job \<Rightarrow> job" where
  "recovered now j =
     j\<lparr>job_status := (if max_attempts j \<le> attempt_count j + 1 then FAILED else PENDING),
       attempt_count := attempt_count j + 1, next_run_at := now, claimed_by := None,
       claimed_at := None, generation := generation j + 1,
       last_error := Some ''claim_lease_expired'', job_updated_at := now\<rparr>"

definition recover_expired :: "datetime \<Rightarrow> int \<Rightarrow> nat py" where
  "recover_expired now lease_seconds s =
     (Inr (rowcount (lease_expired now lease_seconds) (jobs (work s))),
      commit (on_jobs (update_where (lease_expired now lease_seconds) (recovered now)) s))"

section \<open>Claiming\<close>

text \<open>\<open>_retry_on_lock\<close>: \<open>action n\<close> is the attempt after which \<open>n\<close> are left.\<close>

fun retry_on_lock :: "nat \<Rightarrow> (nat \<Rightarrow> 'a py) \<Rightarrow> 'a py" where
  "retry_on_lock 0 action s = (Inl OperationalError, s)"
| "retry_on_lock (Suc n) action s =
     (case action n s of
        (Inl OperationalError, t) \<Rightarrow> retry_on_lock n action t
      | (Inl e, t) \<Rightarrow> (Inl e, t)
      | (Inr x, t) \<Rightarrow> (Inr x, t))"

definition when_locked :: "bool \<Rightarrow> 'a py \<Rightarrow> 'a py" where
  "when_locked locked act1 = (if locked then throw OperationalError else act1)"

definition claimed_row :: "string \<Rightarrow> datetime \<Rightarrow> datetime \<Rightarrow> job \<Rightarrow> job" where
  "claimed_row worker_id now clock j =
     j\<lparr>job_status := CLAIMED, claimed_by := Some worker_id, claimed_at := Some now,
       generation := generation j + 1, job_updated_at := clock\<rparr>"

definition claimable :: "uuid \<Rightarrow> job \<Rightarrow> bool" where
  "claimable i j \<longleftrightarrow> job_id j = i \<and> job_status j = PENDING"

definition claim_attempt :: "uuid \<Rightarrow> string \<Rightarrow> datetime \<Rightarrow> job option py" where
  "claim_attempt i worker_id now s =
     (let t = commit (on_jobs (update_where (claimable i) (claimed_row worker_id now (utcnow s))) s)
      in (Inr (if rowcount (claimable i) (jobs (work s)) \<noteq> 1 then None
               else select_first (\<lambda>j. job_id j = i) (jobs (work t))), t))"

definition try_claim_one :: "(uuid option \<Rightarrow> nat \<Rightarrow> bool) \<Rightarrow> uuid \<Rightarrow> string \<Rightarrow> datetime \<Rightarrow> job option py" where
  "try_claim_one locks i worker_id now =
     retry_on_lock lock_retry_attempts (\<lambda>n. when_locked (locks (Some i) n) (claim_attempt i worker_id now))"

definition claim_job :: "(uuid option \<Rightarrow> nat \<Rightarrow> bool) \<Rightarrow> job \<Rightarrow> string \<Rightarrow> datetime \<Rightarrow> job py" where
  "claim_job locks j worker_id now =
     andthen (try_claim_one locks (job_id j) worker_id now)
       (\<lambda>claimed. case claimed of None \<Rightarrow> throw (StaleJobClaimError (job_id j)) | Some c \<Rightarrow> ret c)"

definition candidate_for :: "datetime \<Rightarrow> string option \<Rightarrow> job \<Rightarrow> bool" where
  "candidate_for now source j \<longleftrightarrow>
     job_status j = PENDING \<and> next_run_at j \<le> now \<and> (case source of None \<Rightarrow> True | Some x \<Rightarrow> job_source j = x)"

definition claim_order :: "job \<Rightarrow> datetime \<times> uuid" where
  "claim_order j = (next_run_at j, job_id j)"

definition candidate_ids :: "datetime \<Rightarrow> string option \<Rightarrow> nat \<Rightarrow> job list \<Rightarrow> uuid list" where
  "candidate_ids now source limit js =
     map job_id (take (limit * 5) (sort_key claim_order (filter (candidate_for now source) js)))"

fun claim_each :: "(uuid option \<Rightarrow> nat \<Rightarrow> bool) \<Rightarrow> string \<Rightarrow> datetime \<Rightarrow> nat \<Rightarrow> uuid list \<Rightarrow> job list \<Rightarrow> job list py" where
  "claim_each locks worker_id now limit [] claimed s = (Inr claimed, s)"
| "claim_each locks worker_id now limit (i # ids) claimed s =
     (if limit \<le> length claimed then (Inr claimed, s)
      else case try_claim_one locks i worker_id now s of
             (Inl e, t) \<Rightarrow> (Inl e, t)
           | (Inr None, t) \<Rightarrow> claim_each locks worker_id now limit ids claimed t
           | (Inr (Some j), t) \<Rightarrow> claim_each locks worker_id now limit ids (claimed @ [j]) t)"

definition claim_next :: "(uuid option \<Rightarrow> nat \<Rightarrow> bool) \<Rightarrow> string \<Rightarrow> datetime \<Rightarrow> string option \<Rightarrow> nat \<Rightarrow> int \<Rightarrow> job list py" where
  "claim_next locks worker_id now source limit lease_seconds =
     andthen (recover_expired now lease_seconds) (\<lambda>_.
     andthen (promote_due_waiting now) (\<lambda>_.
     andthen (retry_on_lock lock_retry_attempts (\<lambda>n. when_locked (locks None n)
                (\<lambda>s. (Inr (candidate_ids now source limit (jobs (work s))), s)))) (\<lambda>ids.
     claim_each locks worker_id now limit ids [])))"

section \<open>Transitions of the owner\<close>

definition owned :: "job \<Rightarrow> string \<Rightarrow> nat \<Rightarrow> JobStatus list \<Rightarrow> job \<Rightarrow> bool" where
  "owned j worker_id gen allowed r \<longleftrightarrow>
     job_id r = job_id j \<and> job_status r \<in> set allowed \<and> claimed_by r = Some worker_id \<and> generation r = gen"

definition owned_transition :: "job \<Rightarrow> string \<Rightarrow> nat \<Rightarrow> JobStatus list \<Rightarrow> (job \<Rightarrow> job) \<Rightarrow> unit py" where
  "owned_transition j worker_id gen allowed values s =
     (let t = on_jobs (update_where (owned j worker_id gen allowed) values) s
      in if rowcount (owned j worker_id gen allowed) (jobs (work s)) \<noteq> 1
         then (Inl (StaleJobClaimError (job_id j)), t) else (Inr (), t))"

definition assert_owned :: "job \<Rightarrow> string \<Rightarrow> nat \<Rightarrow> unit py" where
  "assert_owned j worker_id gen s =
     (case select_first (owned j worker_id gen [CLAIMED, RUNNING]) (jobs (work s)) of
        None \<Rightarrow> (Inl (StaleJobClaimError (job_id j)), s) | Some r \<Rightarrow> (Inr (), s))"

definition mark_running :: "job \<Rightarrow> string \<Rightarrow> nat \<Rightarrow> unit py" where
  "mark_running j worker_id gen s =
     owned_transition j worker_id gen [CLAIMED] (\<lambda>r. r\<lparr>job_status := RUNNING, job_updated_at := utcnow s\<rparr>) s"

definition mark_done :: "job \<Rightarrow> string \<Rightarrow> nat \<Rightarrow> datetime \<Rightarrow> unit py" where
  "mark_done j worker_id gen now =
     owned_transition j worker_id gen [RUNNING]
       (\<lambda>r. r\<lparr>job_status := DONE, last_error := None, job_updated_at := now\<rparr>)"

definition mark_waiting_for_publication :: "job \<Rightarrow> string \<Rightarrow> nat \<Rightarrow> datetime \<Rightarrow> unit py" where
  "mark_waiting_for_publication j worker_id gen retry_at s =
     owned_transition j worker_id gen [CLAIMED, RUNNING]
       (\<lambda>r. r\<lparr>job_status := WAITING_FOR_PUBLICATION, next_run_at := retry_at, last_error := None,
              claimed_by := None, claimed_at := None, job_updated_at := utcnow s\<rparr>) s"

definition defer_for_quota :: "job \<Rightarrow> string \<Rightarrow> nat \<Rightarrow> datetime option \<Rightarrow> datetime \<Rightarrow> unit py" where
  "defer_for_quota j worker_id gen reset_at now s =
     owned_transition j worker_id gen [CLAIMED, RUNNING]
       (\<lambda>r. r\<lparr>job_status := PENDING,
              next_run_at := (case reset_at of Some t \<Rightarrow> t
                | None \<Rightarrow> now + microseconds default_quota_defer_seconds),
              last_error := None, claimed_by := None, claimed_at := None, job_updated_at := utcnow s\<rparr>) s"

definition failed_values :: "job \<Rightarrow> string \<Rightarrow> datetime \<Rightarrow> job \<Rightarrow> job" where
  "failed_values j error now r =
     (let next_attempt = attempt_count j + 1
      in r\<lparr>attempt_count := next_attempt,
           last_error := Some (take 1024 (sanitize_message error [])),
           job_status := (if max_attempts j \<le> next_attempt then FAILED else PENDING),
           next_run_at := now + microseconds (backoff_seconds next_attempt),
           claimed_by := None, claimed_at := None, job_updated_at := now\<rparr>)"

definition mark_failed :: "job \<Rightarrow> string \<Rightarrow> nat \<Rightarrow> string \<Rightarrow> datetime \<Rightarrow> unit py" where
  "mark_failed j worker_id gen error now =
     owned_transition j worker_id gen [CLAIMED, RUNNING] (failed_values j error now)"

text \<open>Attributes of an expired object are read again from its row.\<close>

definition refreshed :: "sess \<Rightarrow> job \<Rightarrow> job" where
  "refreshed s j = (case select_first (\<lambda>r. job_id r = job_id j) (jobs (work s)) of Some r \<Rightarrow> r | None \<Rightarrow> j)"

section \<open>Queries\<close>

definition outstanding :: "job \<Rightarrow> bool" where
  "outstanding j \<longleftrightarrow> job_status j \<in> {PENDING, CLAIMED}"

definition depth :: "sess \<Rightarrow> string option \<Rightarrow> nat" where
  "depth s source = length (filter (\<lambda>j. outstanding j
     \<and> (case source of None \<Rightarrow> True | Some x \<Rightarrow> job_source j = x)) (jobs (work s)))"

definition total_seconds :: "int \<Rightarrow> rat" where
  "total_seconds us = of_int us / 1000000"

definition oldest_pending_age_seconds :: "sess \<Rightarrow> datetime \<Rightarrow> rat option" where
  "oldest_pending_age_seconds s now =
     (case sort_key job_created_at (filter (\<lambda>j. job_status j = PENDING) (jobs (work s))) of
        [] \<Rightarrow> None | j # _ \<Rightarrow> Some (total_seconds (now - job_created_at j)))"

text \<open>\<open>GROUP BY source\<close>, one entry per source that has a row.\<close>

definition sources_of :: "(job \<Rightarrow> bool) \<Rightarrow> sess \<Rightarrow> string list" where
  "sources_of p s = remdups (map job_source (filter p (jobs (work s))))"

definition count_by_source :: "(job \<Rightarrow> bool) \<Rightarrow> sess \<Rightarrow> (string \<times> nat) list" where
  "count_by_source p s =
     map (\<lambda>x. (x, length (filter (\<lambda>j. p j \<and> job_source j = x) (jobs (work s))))) (sources_of p s)"

definition pending_by_source :: "sess \<Rightarrow> (string \<times> nat) list" where
  "pending_by_source = count_by_source outstanding"

definition oldest_pending_age_by_source :: "sess \<Rightarrow> datetime \<Rightarrow> (string \<times> rat) list" where
  "oldest_pending_age_by_source s now =
     map (\<lambda>x. (x, total_seconds (now - Min (set (map job_created_at
            (filter (\<lambda>j. job_status j = PENDING \<and> job_source j = x) (jobs (work s))))))))
       (sources_of (\<lambda>j. job_status j = PENDING) s)"

definition done_count :: "sess \<Rightarrow> nat" where
  "done_count s = length (filter (\<lambda>j. job_status j = DONE) (jobs (work s)))"

definition failed_by_source :: "sess \<Rightarrow> (string \<times> nat) list" where
  "failed_by_source = count_by_source (\<lambda>j. job_status j = FAILED)"

section \<open>Backoff is bounded and grows\<close>

lemma backoff_mono: "m \<le> n \<Longrightarrow> backoff_seconds m \<le> backoff_seconds n"
proof (cases "m \<le> 0")
  case False
  assume "m \<le> n"
  with False have "(2::int) ^ nat (m - 1) \<le> 2 ^ nat (n - 1)" by (intro power_increasing) auto
  then have "min (30 * (2::int) ^ nat (m - 1)) c \<le> 30 * 2 ^ nat (n - 1)" for c
    by (simp add: min.coboundedI1)
  with False \<open>m \<le> n\<close> show ?thesis by (simp add: backoff_seconds_def backoff_base_seconds_def)
qed (simp add: backoff_seconds_def backoff_base_seconds_def backoff_cap_seconds_def)

lemma backoff_bounds: "0 < n \<Longrightarrow> 30 \<le> backoff_seconds n \<and> backoff_seconds n \<le> 3600"
  using backoff_mono [of 1 n] by (simp add: backoff_seconds_def backoff_base_seconds_def backoff_cap_seconds_def)

section \<open>Enqueueing\<close>

definition keys_unique :: "sess \<Rightarrow> bool" where
  "keys_unique s \<longleftrightarrow> distinct (map job_id (jobs (work s))) \<and> distinct (map dedupe_key (jobs (work s)))"

lemma new_job_fields [simp]:
  "job_id (new_job q s) = uuid4 s" "dedupe_key (new_job q s) = rq_dedupe_key q"
  "job_status (new_job q s) = PENDING" "claimed_by (new_job q s) = None" "claimed_at (new_job q s) = None"
  "attempt_count (new_job q s) = 0" "max_attempts (new_job q s) = rq_max_attempts q"
  "generation (new_job q s) = 0"
  by (simp_all add: new_job_def)

lemma insert_job_SomeD:
  assumes "insert_job j s = Some t"
  shows "t = on_jobs (\<lambda>js. js @ [j]) s" "job_id j \<notin> set (map job_id (jobs (work s)))"
    "dedupe_key j \<notin> set (map dedupe_key (jobs (work s)))"
  using assms by (auto simp: insert_job_def split: if_splits)

lemma enqueue_cases:
  assumes "enqueue_idempotent q s = (r, t)"
  obtains (added) "r = Inr \<lparr>er_job = new_job q s, er_created = True\<rparr>"
      "t = on_jobs (\<lambda>js. js @ [new_job q s]) (drawn s)"
      "uuid4 s \<notin> set (map job_id (jobs (work s)))" "rq_dedupe_key q \<notin> set (map dedupe_key (jobs (work s)))"
  | (found) e where "r = Inr \<lparr>er_job = e, er_created = False\<rparr>" "t = drawn s"
      "e \<in> set (jobs (work s))" "dedupe_key e = rq_dedupe_key q"
  | (refused) "r = Inl IntegrityError" "t = drawn s" "rq_dedupe_key q \<notin> set (map dedupe_key (jobs (work s)))"
proof (cases "insert_job (new_job q s) (drawn s)")
  case (Some u)
  from insert_job_SomeD [OF Some] Some assms added show ?thesis by (simp add: enqueue_idempotent_def)
next
  case None
  show ?thesis
  proof (cases "select_first (\<lambda>j. dedupe_key j = rq_dedupe_key q) (jobs (work s))")
    case no: None
    with None assms refused show ?thesis
      by (force simp: enqueue_idempotent_def select_first_None_iff)
  next
    case (Some e)
    with None assms have "r = Inr \<lparr>er_job = e, er_created = False\<rparr>" "t = drawn s"
      by (simp_all add: enqueue_idempotent_def)
    with found select_first_SomeD [OF Some] show ?thesis by blast
  qed
qed

lemma enqueue_keeps_unique:
  "enqueue_idempotent q s = (r, t) \<Longrightarrow> keys_unique s \<Longrightarrow> keys_unique t"
  by (erule enqueue_cases) (auto simp: keys_unique_def)

lemma enqueue_keeps_rows:
  "enqueue_idempotent q s = (r, t) \<Longrightarrow> prefix (jobs (work s)) (jobs (work t))"
  by (erule enqueue_cases) auto

lemma enqueue_existing:
  assumes "e \<in> set (jobs (work s))" and "dedupe_key e = rq_dedupe_key q" and "keys_unique s"
  shows "enqueue_idempotent q s = (Inr \<lparr>er_job = e, er_created = False\<rparr>, drawn s)"
proof -
  have "insert_job (new_job q s) (drawn s) = None" using assms(1,2) by (auto simp: insert_job_def)
  moreover have "select_first (\<lambda>j. dedupe_key j = dedupe_key e) (jobs (work s)) = Some e"
    using assms(1,3) by (intro select_first_key) (auto simp: keys_unique_def)
  ultimately show ?thesis using assms(2) by (simp add: enqueue_idempotent_def)
qed

section \<open>Retrying on a lock\<close>

lemma retry_on_lock_when:
  assumes "\<And>s. fst (action s) \<noteq> Inl OperationalError"
  shows "retry_on_lock n (\<lambda>k. when_locked (locked k) action) s
    = (if \<exists>k < n. \<not> locked k then action s else (Inl OperationalError, s))"
proof (induction n)
  case (Suc n)
  show ?case
  proof (cases "locked n")
    case True
    with Suc.IH show ?thesis by (auto simp: when_locked_def less_Suc_eq)
  next
    case False
    then show ?thesis using assms [of s]
      by (auto simp: when_locked_def split: prod.splits sum.splits exn.splits)
  qed
qed simp

lemma try_claim_one_eq:
  "try_claim_one locks i worker_id now s =
     (if \<exists>k < lock_retry_attempts. \<not> locks (Some i) k then claim_attempt i worker_id now s
      else (Inl OperationalError, s))"
  unfolding try_claim_one_def by (rule retry_on_lock_when) (simp add: claim_attempt_def Let_def)

section \<open>One worker claims\<close>

lemma claimed_row_fields [simp]:
  "job_id (claimed_row w now c j) = job_id j" "job_status (claimed_row w now c j) = CLAIMED"
  "dedupe_key (claimed_row w now c j) = dedupe_key j" "generation (claimed_row w now c j) = generation j + 1"
  "claimed_by (claimed_row w now c j) = Some w" "claimed_at (claimed_row w now c j) = Some now"
  "attempt_count (claimed_row w now c j) = attempt_count j" "max_attempts (claimed_row w now c j) = max_attempts j"
  by (simp_all add: claimed_row_def)

lemma update_claimable:
  assumes "distinct (map job_id js)" and "c \<in> set js" and "job_status c = PENDING"
  shows "update_where (claimable (job_id c)) f js = update_where (\<lambda>j. j = c) f js"
  using assms distinct_map_inj [OF assms(1) _ assms(2)]
  by (auto simp: update_where_def claimable_def)

lemma claim_attempt_pending:
  assumes "distinct (map job_id (jobs (work s)))" and "c \<in> set (jobs (work s))" and "job_status c = PENDING"
  shows "claim_attempt (job_id c) w now s =
    (Inr (Some (claimed_row w now (wall s) c)),
     commit (on_jobs (update_where (\<lambda>j. j = c) (claimed_row w now (wall s))) s))"
proof -
  let ?js = "jobs (work s)" and ?f = "claimed_row w now (wall s)"
  have "rowcount (claimable (job_id c)) ?js = 1"
    using assms rowcount_key_eq_1 [OF assms(1), of "claimable (job_id c)" "job_id c"]
    by (auto simp: claimable_def)
  moreover have "select_first (\<lambda>j. job_id j = job_id c) (update_where (claimable (job_id c)) ?f ?js) = Some (?f c)"
    using select_first_update_where [of "claimable (job_id c)" job_id ?f "job_id c" ?js]
      select_first_key [OF assms(1,2)] assms(3) by (simp add: claimable_def)
  ultimately show ?thesis
    using update_claimable [OF assms, of ?f] by (simp add: claim_attempt_def Let_def utcnow_def on_jobs_def)
qed

lemma update_where_twice:
  assumes "\<And>j. q j \<Longrightarrow> \<not> p j" and "\<And>j. p j \<Longrightarrow> \<not> q (f j)"
  shows "update_where q f (update_where p f js) = update_where (\<lambda>j. p j \<or> q j) f js"
  using assms by (auto simp: update_where_def)

lemma on_jobs_on_jobs [simp]: "on_jobs f (on_jobs g s) = on_jobs (f \<circ> g) s"
  by (simp add: on_jobs_def)

lemma commit_on_jobs_commit [simp]: "commit (on_jobs f (commit s)) = commit (on_jobs f s)"
  by (simp add: commit_def on_jobs_def)

lemma on_jobs_same: "f (jobs (work s)) = jobs (work s) \<Longrightarrow> on_jobs f s = s"
  by (simp add: on_jobs_def)

lemma commit_same: "durable s = work s \<Longrightarrow> commit s = s"
  by (simp add: commit_def)

lemma claim_each_free:
  assumes "\<And>i. \<exists>k < lock_retry_attempts. \<not> locks (Some i) k"
  shows "distinct (map job_id (jobs (work s))) \<Longrightarrow> durable s = work s \<Longrightarrow> set cs \<subseteq> set (jobs (work s)) \<Longrightarrow>
    distinct cs \<Longrightarrow> (\<And>c. c \<in> set cs \<Longrightarrow> job_status c = PENDING) \<Longrightarrow>
    claim_each locks w now limit (map job_id cs) claimed s =
      (Inr (claimed @ map (claimed_row w now (wall s)) (take (limit - length claimed) cs)),
       commit (on_jobs (update_where (\<lambda>j. j \<in> set (take (limit - length claimed) cs))
         (claimed_row w now (wall s))) s))"
proof (induction cs arbitrary: claimed s)
  case Nil
  then show ?case by (simp add: on_jobs_same commit_same update_where_none)
next
  case (Cons c cs)
  let ?f = "claimed_row w now (wall s)"
  let ?t = "commit (on_jobs (update_where (\<lambda>j. j = c) ?f) s)"
  show ?case
  proof (cases "limit \<le> length claimed")
    case True
    with Cons.prems show ?thesis by (simp add: on_jobs_same commit_same update_where_none)
  next
    case False
    let ?k = "limit - length (claimed @ [?f c])"
    have k: "limit - length claimed = Suc ?k" using False by simp
    have step: "try_claim_one locks (job_id c) w now s = (Inr (Some (?f c)), ?t)"
      using assms [of "job_id c"] claim_attempt_pending [of s c w now] Cons.prems by (simp add: try_claim_one_eq)
    have IH: "claim_each locks w now limit (map job_id cs) (claimed @ [?f c]) ?t =
      (Inr ((claimed @ [?f c]) @ map (claimed_row w now (wall ?t)) (take ?k cs)),
       commit (on_jobs (update_where (\<lambda>j. j \<in> set (take ?k cs)) (claimed_row w now (wall ?t))) ?t))"
    proof (rule Cons.IH)
      show "distinct (map job_id (jobs (work ?t)))" using Cons.prems(1) by (simp add: map_update_where)
      show "set cs \<subseteq> set (jobs (work ?t))" using Cons.prems(3,4) by (auto intro!: in_update_where_other)
    qed (use Cons.prems in auto)
    have "update_where (\<lambda>j. j \<in> set (take ?k cs)) ?f \<circ> update_where (\<lambda>j. j = c) ?f
        = update_where (\<lambda>j. j \<in> set (take (limit - length claimed) (c # cs))) ?f"
    proof
      fix js
      have "\<not> ?f c \<in> set (take ?k cs)"
        using Cons.prems(5) by (metis claimed_row_fields(2) in_set_takeD JobStatus.distinct(1) list.set_intros(2))
      moreover have "c \<notin> set (take ?k cs)" using Cons.prems(4) by (auto dest: in_set_takeD)
      ultimately show "(update_where (\<lambda>j. j \<in> set (take ?k cs)) ?f \<circ> update_where (\<lambda>j. j = c) ?f) js
          = update_where (\<lambda>j. j \<in> set (take (limit - length claimed) (c # cs))) ?f js"
        by (subst comp_apply, subst update_where_twice) (auto simp: k)
    qed
    with IH step False show ?thesis by (simp add: k)
  qed
qed

lemma promote_apply [simp]:
  "promote_due_waiting now s = (Inr (rowcount (due_waiting now) (jobs (work s))),
     commit (on_jobs (update_where (due_waiting now) (promoted now)) s))"
  by (simp add: promote_due_waiting_def)

lemma recover_apply [simp]:
  "recover_expired now lease s = (Inr (rowcount (lease_expired now lease) (jobs (work s))),
     commit (on_jobs (update_where (lease_expired now lease) (recovered now)) s))"
  by (simp add: recover_expired_def)

text \<open>The table after recovery and promotion, and the jobs that may be claimed in it, in order.\<close>

definition refreshed_jobs :: "datetime \<Rightarrow> int \<Rightarrow> job list \<Rightarrow> job list" where
  "refreshed_jobs now lease js =
     update_where (due_waiting now) (promoted now) (update_where (lease_expired now lease) (recovered now) js)"

definition claimable_jobs :: "datetime \<Rightarrow> string option \<Rightarrow> job list \<Rightarrow> job list" where
  "claimable_jobs now source js = sort_key claim_order (filter (candidate_for now source) js)"

lemma promoted_fields [simp]:
  "job_id (promoted now j) = job_id j" "dedupe_key (promoted now j) = dedupe_key j"
  "job_status (promoted now j) = PENDING" "generation (promoted now j) = generation j"
  "claimed_by (promoted now j) = claimed_by j" "claimed_at (promoted now j) = claimed_at j"
  "attempt_count (promoted now j) = attempt_count j" "max_attempts (promoted now j) = max_attempts j"
  by (simp_all add: promoted_def)

lemma recovered_fields [simp]:
  "job_id (recovered now j) = job_id j" "dedupe_key (recovered now j) = dedupe_key j"
  "generation (recovered now j) = generation j + 1" "attempt_count (recovered now j) = attempt_count j + 1"
  "claimed_by (recovered now j) = None" "claimed_at (recovered now j) = None"
  "max_attempts (recovered now j) = max_attempts j"
  "job_status (recovered now j) = (if max_attempts j \<le> attempt_count j + 1 then FAILED else PENDING)"
  by (simp_all add: recovered_def)

lemma refreshed_jobs_ids [simp]: "map job_id (refreshed_jobs now lease js) = map job_id js"
  by (simp add: refreshed_jobs_def map_update_where)

lemma claim_next_free:
  assumes "\<And>i. \<exists>k < lock_retry_attempts. \<not> locks i k" and "distinct (map job_id (jobs (work s)))"
  shows "claim_next locks w now source limit lease s =
    (let js = refreshed_jobs now lease (jobs (work s));
         won = take limit (claimable_jobs now source js)
     in (Inr (map (claimed_row w now (wall s)) won),
         commit (on_jobs (\<lambda>_. update_where (\<lambda>j. j \<in> set won) (claimed_row w now (wall s)) js) s)))"
proof -
  let ?js = "refreshed_jobs now lease (jobs (work s))"
  let ?t = "commit (on_jobs (\<lambda>_. ?js) s)"
  let ?cs = "take (limit * 5) (claimable_jobs now source ?js)"
  have t: "commit (on_jobs (\<lambda>x. update_where (due_waiting now) (promoted now)
      (update_where (lease_expired now lease) (recovered now) x)) s) = ?t"
    by (simp add: commit_def on_jobs_def refreshed_jobs_def)
  have sel: "retry_on_lock lock_retry_attempts (\<lambda>n. when_locked (locks None n)
      (\<lambda>s. (Inr (candidate_ids now source limit (jobs (work s))), s))) ?t = (Inr (map job_id ?cs), ?t)"
    using assms(1) [of None] by (subst retry_on_lock_when)
      (auto simp: candidate_ids_def claimable_jobs_def)
  have "claim_each locks w now limit (map job_id ?cs) [] ?t =
      (Inr ([] @ map (claimed_row w now (wall ?t)) (take (limit - length ([] :: job list)) ?cs)),
       commit (on_jobs (update_where (\<lambda>j. j \<in> set (take (limit - length ([] :: job list)) ?cs))
         (claimed_row w now (wall ?t))) ?t))"
  proof (rule claim_each_free)
    have "distinct ?js" using assms(2) by (metis distinct_map refreshed_jobs_ids)
    then show "distinct ?cs" by (simp add: claimable_jobs_def)
    show "set ?cs \<subseteq> set (jobs (work ?t))"
      by (auto simp: claimable_jobs_def dest!: in_set_takeD)
    show "job_status c = PENDING" if "c \<in> set ?cs" for c
      using that by (auto simp: claimable_jobs_def candidate_for_def dest!: in_set_takeD)
  qed (use assms in auto)
  then show ?thesis
    unfolding claim_next_def
    by (simp add: andthen_def t sel Let_def o_def)
qed

section \<open>Only the owner moves a job\<close>

lemma owned_key: "owned j w g allowed r \<Longrightarrow> job_id r = job_id j"
  by (simp add: owned_def)

lemma owned_transition_cases:
  assumes "owned_transition j w g allowed values s = (x, t)" and "distinct (map job_id (jobs (work s)))"
  obtains (won) r where "x = Inr ()" "r \<in> set (jobs (work s))" "owned j w g allowed r"
      "t = on_jobs (update_where (\<lambda>q. q = r) values) s"
  | (stale) "x = Inl (StaleJobClaimError (job_id j))" "t = s" "\<And>r. r \<in> set (jobs (work s)) \<Longrightarrow> \<not> owned j w g allowed r"
proof (cases "\<exists>r \<in> set (jobs (work s)). owned j w g allowed r")
  case True
  then obtain r where r: "r \<in> set (jobs (work s))" "owned j w g allowed r" by blast
  have "rowcount (owned j w g allowed) (jobs (work s)) = 1"
    using True rowcount_key_eq_1 [OF assms(2), of "owned j w g allowed" "job_id j"] owned_key by blast
  moreover have "update_where (owned j w g allowed) values (jobs (work s))
      = update_where (\<lambda>q. q = r) values (jobs (work s))"
    unfolding update_where_def
  proof (rule map_cong [OF refl])
    fix q assume "q \<in> set (jobs (work s))"
    then have "owned j w g allowed q \<longleftrightarrow> q = r"
      using r distinct_map_inj [OF assms(2) _ r(1)] owned_key by metis
    then show "(if owned j w g allowed q then values q else q) = (if q = r then values q else q)" by simp
  qed
  ultimately have "x = Inr () \<and> t = on_jobs (update_where (\<lambda>q. q = r) values) s"
    using assms(1) by (simp add: owned_transition_def Let_def on_jobs_def)
  with won [OF _ r] show ?thesis by blast
next
  case False
  then have "rowcount (owned j w g allowed) (jobs (work s)) = 0" by (simp add: rowcount_zero_iff)
  moreover have "on_jobs (update_where (owned j w g allowed) values) s = s"
    using False by (intro on_jobs_same update_where_none) blast
  ultimately have "x = Inl (StaleJobClaimError (job_id j)) \<and> t = s"
    using assms(1) by (simp add: owned_transition_def Let_def)
  with stale False show ?thesis by blast
qed

lemma assert_owned_iff:
  "assert_owned j w g s = (Inr (), s) \<longleftrightarrow> (\<exists>r \<in> set (jobs (work s)). owned j w g [CLAIMED, RUNNING] r)"
  by (auto simp: assert_owned_def select_first_None_iff split: option.splits dest: select_first_SomeD)

lemma assert_owned_state: "assert_owned j w g s = (x, t) \<Longrightarrow> t = s \<and> (x = Inr () \<or> x = Inl (StaleJobClaimError (job_id j)))"
  by (auto simp: assert_owned_def split: option.splits)

lemma assert_owned_InrD:
  "assert_owned j w g s = (Inr (), t) \<Longrightarrow> \<exists>r \<in> set (jobs (work s)). owned j w g [CLAIMED, RUNNING] r"
  using assert_owned_iff assert_owned_state by blast

lemma assert_owned_stale:
  "(\<And>r. r \<in> set (jobs (work s)) \<Longrightarrow> \<not> owned j w g [CLAIMED, RUNNING] r) \<Longrightarrow>
     assert_owned j w g s = (Inl (StaleJobClaimError (job_id j)), s)"
  using select_first_None_iff [of "owned j w g [CLAIMED, RUNNING]" "jobs (work s)"] by (simp add: assert_owned_def)

lemmas transitions = mark_running_def mark_done_def mark_waiting_for_publication_def defer_for_quota_def
  mark_failed_def

lemma failed_values_fields [simp]:
  "job_id (failed_values j err now r) = job_id r" "dedupe_key (failed_values j err now r) = dedupe_key r"
  "generation (failed_values j err now r) = generation r" "claimed_by (failed_values j err now r) = None"
  "claimed_at (failed_values j err now r) = None" "max_attempts (failed_values j err now r) = max_attempts r"
  "attempt_count (failed_values j err now r) = attempt_count j + 1"
  "job_status (failed_values j err now r) = (if max_attempts j \<le> attempt_count j + 1 then FAILED else PENDING)"
  by (simp_all add: failed_values_def Let_def)

lemma refreshed_row:
  "distinct (map job_id (jobs (work s))) \<Longrightarrow> r \<in> set (jobs (work s)) \<Longrightarrow> job_id r = job_id j \<Longrightarrow> refreshed s j = r"
  using select_first_key [of job_id "jobs (work s)" r] by (simp add: refreshed_def)

section \<open>Properties of the operations\<close>

definition sample_job :: "uuid \<Rightarrow> string \<Rightarrow> JobStatus \<Rightarrow> datetime \<Rightarrow> job" where
  "sample_job i key st run = \<lparr>job_id = i, job_type = ''fetch_range'', dedupe_key = key, job_source = ''fake'',
     job_listing_id = None, job_status = st, job_cursor = None, attempt_count = 0, max_attempts = 5,
     next_run_at = run, claimed_by = (if st = RUNNING then Some ''w'' else None),
     claimed_at = (if st = RUNNING then Some 0 else None), generation = (if st = RUNNING then 1 else 0),
     last_error = None, job_created_at = 0, job_updated_at = 0\<rparr>"

definition sample_queue :: sess where
  "sample_queue = session_on ((empty_database SQLITE)\<lparr>jobs := [sample_job 1 ''a'' PENDING 7,
     sample_job 2 ''b'' PENDING 5, sample_job 3 ''c'' RUNNING 5]\<rparr>) 0"

definition sample_request :: job_request where
  "sample_request = \<lparr>rq_job_type = ''fetch_range'', rq_source = ''fake'', rq_dedupe_key = ''d'',
     rq_listing_id = None, rq_cursor = None, rq_run_at = 0, rq_max_attempts = 5\<rparr>"

lemmas sample_defs = sample_job_def sample_queue_def session_on_def empty_database_def sample_request_def

text \<open>
  Idempotent enqueueing. However often, and whatever else is enqueued in between, a request
  whose dedupe key is already in the table returns the row of that key, creates nothing and changes
  no row; and no sequence of requests makes two rows of one key.
\<close>

theorem enqueue_is_idempotent:
  assumes "keys_unique s" and "enqueue_idempotent q s = (Inr r, t)"
    and "u = fold (\<lambda>x v. snd (enqueue_idempotent x v)) others t" and "rq_dedupe_key q' = rq_dedupe_key q"
  shows "enqueue_idempotent q' u = (Inr \<lparr>er_job = er_job r, er_created = False\<rparr>, drawn u)
    \<and> jobs (work (drawn u)) = jobs (work u) \<and> keys_unique u"
proof -
  have step: "keys_unique v \<and> er_job r \<in> set (jobs (work v)) \<Longrightarrow>
      keys_unique (snd (enqueue_idempotent x v)) \<and> er_job r \<in> set (jobs (work (snd (enqueue_idempotent x v))))"
    for x v using enqueue_keeps_unique [OF surjective_pairing] enqueue_keeps_rows [OF surjective_pairing]
    by (metis set_mono_prefix subsetD)
  have "er_job r \<in> set (jobs (work t)) \<and> dedupe_key (er_job r) = rq_dedupe_key q"
    using assms(2) by (cases rule: enqueue_cases) auto
  moreover have "keys_unique t" using enqueue_keeps_unique [OF assms(2,1)] .
  ultimately have t: "keys_unique t \<and> er_job r \<in> set (jobs (work t))" and key: "dedupe_key (er_job r) = rq_dedupe_key q"
    by auto
  have "keys_unique u \<and> er_job r \<in> set (jobs (work u))"
    unfolding assms(3) using t by (induction others arbitrary: t) (auto simp: step)
  with key assms(4) enqueue_existing [of "er_job r" u q'] show ?thesis by simp
qed

theorem enqueue_is_idempotent_witness:
  "er_created (\<lparr>er_job = new_job sample_request sample_queue, er_created = False\<rparr>) = False
   \<and> fst (enqueue_idempotent sample_request (snd (enqueue_idempotent sample_request sample_queue)))
      = Inr \<lparr>er_job = new_job sample_request sample_queue, er_created = False\<rparr>"
proof -
  have "keys_unique sample_queue" by (simp add: keys_unique_def sample_defs)
  moreover have "enqueue_idempotent sample_request sample_queue
      = (Inr \<lparr>er_job = new_job sample_request sample_queue, er_created = True\<rparr>,
         snd (enqueue_idempotent sample_request sample_queue))"
    by (simp add: enqueue_idempotent_def insert_job_def fk_holds_def new_job_def uuid4_def sample_defs)
  ultimately show ?thesis using enqueue_is_idempotent [of sample_queue sample_request _ _ _ "[]" sample_request] by simp
qed

text \<open>
  \<open>claim_next\<close> hands out the due jobs of the source, oldest first and by identifier on a tie, at
  most \<open>limit\<close>, after the expired leases and the due publications were put back; each is the row
  it claims, and no other row changes. Up to nine refusals by a lock at each statement make no
  difference.
\<close>

theorem claim_next_takes_oldest:
  assumes "\<And>i. \<exists>k < lock_retry_attempts. \<not> locks i k" and "keys_unique s"
    and "js = refreshed_jobs now lease (jobs (work s))"
    and "won = take limit (sort_key claim_order (filter (candidate_for now source) js))"
  shows "claim_next locks w now source limit lease s =
    (Inr (map (claimed_row w now (wall s)) won),
     commit (on_jobs (\<lambda>_. update_where (\<lambda>j. j \<in> set won) (claimed_row w now (wall s)) js) s))"
  using claim_next_free [OF assms(1)] assms(2-4) by (simp add: keys_unique_def Let_def claimable_jobs_def)

theorem claim_next_takes_oldest_witness:
  "fst (claim_next (\<lambda>i n. n = 0) ''w'' 10 None 1 300 sample_queue)
     = Inr [claimed_row ''w'' 10 0 (sample_job 2 ''b'' PENDING 5)]"
proof -
  have locks: "\<exists>k < lock_retry_attempts. \<not> k = (0::nat)"
    by (rule exI [of _ 1]) (simp add: lock_retry_attempts_def)
  have "refreshed_jobs 10 300 (jobs (work sample_queue)) = jobs (work sample_queue)"
    by (simp add: refreshed_jobs_def due_waiting_def lease_expired_def microseconds_def sample_defs)
  moreover have "take 1 (sort_key claim_order (filter (candidate_for 10 None) (jobs (work sample_queue))))
      = [sample_job 2 ''b'' PENDING 5]"
    by (simp add: candidate_for_def claim_order_def sample_defs)
  moreover have "keys_unique sample_queue" "wall sample_queue = 0" by (simp_all add: keys_unique_def sample_defs)
  ultimately show ?thesis
    using claim_next_takes_oldest [OF locks, of sample_queue _ 10 300 _ 1 None "''w''"] by simp
qed

text \<open>
  C34. A job whose worker died is handed out again. When its lease has expired, attempts are left and
  the batch holds every claimable job, \<open>claim_next\<close> returns it under a generation two above the
  abandoned one, with one more attempt counted.
\<close>

theorem abandoned_job_reclaimed:
  assumes "keys_unique s" and "r \<in> set (jobs (work s))" and "lease_expired now lease r"
    and "attempt_count r + 1 < max_attempts r" and "length (jobs (work s)) \<le> limit"
    and "\<And>i. \<exists>k < lock_retry_attempts. \<not> locks i k"
  shows "\<exists>js j. fst (claim_next locks w now None limit lease s) = Inr js \<and> j \<in> set js
    \<and> job_id j = job_id r \<and> job_status j = CLAIMED \<and> claimed_by j = Some w
    \<and> generation j = generation r + 2 \<and> attempt_count j = attempt_count r + 1"
proof -
  let ?js = "refreshed_jobs now lease (jobs (work s))"
  let ?won = "take limit (claimable_jobs now None ?js)"
  have "recovered now r \<in> set (update_where (lease_expired now lease) (recovered now) (jobs (work s)))"
    using assms(2,3) by (rule in_update_where_image)
  moreover have "\<not> due_waiting now (recovered now r)" using assms(4) by (simp add: due_waiting_def)
  ultimately have "recovered now r \<in> set ?js" unfolding refreshed_jobs_def by (rule in_update_where_other)
  moreover have "candidate_for now None (recovered now r)"
    using assms(4) by (simp add: candidate_for_def) (simp add: recovered_def)
  moreover have "length ?js = length (jobs (work s))" using refreshed_jobs_ids by (metis length_map)
  ultimately have "recovered now r \<in> set ?won"
    using assms(5) by (simp add: claimable_jobs_def le_trans [OF length_filter_le])
  moreover have "fst (claim_next locks w now None limit lease s) = Inr (map (claimed_row w now (wall s)) ?won)"
    using claim_next_free [OF assms(6)] assms(1) by (simp add: keys_unique_def Let_def)
  ultimately show ?thesis
    by (intro exI [of _ "map (claimed_row w now (wall s)) ?won"] exI [of _ "claimed_row w now (wall s) (recovered now r)"])
      auto
qed

theorem abandoned_job_reclaimed_witness:
  "\<exists>js j. fst (claim_next (\<lambda>i n. False) ''v'' 300000000 None 3 300 sample_queue) = Inr js \<and> j \<in> set js
    \<and> job_id j = 3 \<and> job_status j = CLAIMED \<and> claimed_by j = Some ''v''
    \<and> generation j = 3 \<and> attempt_count j = 1"
proof -
  have "lock_retry_attempts > 0" by (simp add: lock_retry_attempts_def)
  then have locks: "\<exists>k < lock_retry_attempts. \<not> False" by blast
  have "keys_unique sample_queue" "sample_job 3 ''c'' RUNNING 5 \<in> set (jobs (work sample_queue))"
    "lease_expired 300000000 300 (sample_job 3 ''c'' RUNNING 5)" "length (jobs (work sample_queue)) \<le> 3"
    by (simp_all add: keys_unique_def lease_expired_def microseconds_def sample_defs)
  from abandoned_job_reclaimed [OF this(1-3) _ this(4) locks, of "''v''"] show ?thesis
    by (simp add: sample_job_def numeral_3_eq_3)
qed

lemma owned_transition_won:
  assumes "keys_unique s" and "r \<in> set (jobs (work s))" and "owned r w g allowed r"
  shows "owned_transition r w g allowed values s = (Inr (), on_jobs (update_where (\<lambda>q. q = r) values) s)"
proof -
  obtain x t where xt: "owned_transition r w g allowed values s = (x, t)" by force
  from assms(1) have dist: "distinct (map job_id (jobs (work s)))" by (simp add: keys_unique_def)
  from xt dist show ?thesis
  proof (cases rule: owned_transition_cases)
    case (won q)
    with distinct_map_inj [OF dist won(2) assms(2)] owned_key have "q = r" by metis
    with won xt show ?thesis by simp
  next
    case stale
    with assms(2,3) show ?thesis by blast
  qed
qed

lemma refreshed_updated:
  assumes "keys_unique s" and "r \<in> set (jobs (work s))" and "job_id (f r) = job_id r"
  shows "refreshed (on_jobs (update_where (\<lambda>q. q = r) f) s) r = f r"
proof -
  have "select_first (\<lambda>q. job_id q = job_id r) (jobs (work s)) = Some r"
    using assms(1,2) by (intro select_first_key) (simp_all add: keys_unique_def)
  then show ?thesis
    using select_first_update_where [of "\<lambda>q. q = r" job_id f "job_id r"] assms(3)
    by (simp add: refreshed_def)
qed

text \<open>
  A failed attempt of the owner is counted and the claim given up. The job is retried between
  30 seconds and an hour later, never sooner than after the attempt before, until its attempts are
  used up, when it is \<open>FAILED\<close>; the stored error has at most 1024 characters.
\<close>

theorem failed_attempt_backs_off:
  assumes "keys_unique s" and "r \<in> set (jobs (work s))" and "job_status r \<in> {CLAIMED, RUNNING}"
    and "claimed_by r = Some w" and "0 \<le> attempt_count r"
  shows "\<exists>t r'. mark_failed r w (generation r) err now s = (Inr (), t) \<and> refreshed t r = r'
    \<and> jobs (work t) = update_where (\<lambda>q. q = r) (\<lambda>q. r') (jobs (work s))
    \<and> attempt_count r' = attempt_count r + 1 \<and> generation r' = generation r
    \<and> claimed_by r' = None \<and> claimed_at r' = None
    \<and> job_status r' = (if attempt_count r + 1 < max_attempts r then PENDING else FAILED)
    \<and> now + microseconds 30 \<le> next_run_at r' \<and> next_run_at r' \<le> now + microseconds 3600
    \<and> now + microseconds (backoff_seconds (attempt_count r)) \<le> next_run_at r'
    \<and> (\<exists>e. last_error r' = Some e \<and> length e \<le> 1024)"
proof -
  let ?v = "failed_values r err now"
  let ?t = "on_jobs (update_where (\<lambda>q. q = r) ?v) s"
  have own: "owned r w (generation r) [CLAIMED, RUNNING] r" using assms(3,4) by (auto simp: owned_def)
  have "mark_failed r w (generation r) err now s = (Inr (), ?t)"
    unfolding mark_failed_def by (rule owned_transition_won [OF assms(1,2) own])
  moreover have "refreshed ?t r = ?v r"
    using assms(1,2) by (rule refreshed_updated) (simp add: failed_values_def Let_def)
  moreover have "update_where (\<lambda>q. q = r) ?v (jobs (work s)) = update_where (\<lambda>q. q = r) (\<lambda>q. ?v r) (jobs (work s))"
    by (auto simp: update_where_def)
  moreover have "backoff_seconds (attempt_count r) \<le> backoff_seconds (attempt_count r + 1)"
    by (rule backoff_mono) simp
  moreover have "30 \<le> backoff_seconds (attempt_count r + 1) \<and> backoff_seconds (attempt_count r + 1) \<le> 3600"
    by (rule backoff_bounds) (use assms(5) in simp)
  ultimately show ?thesis
    by (intro exI [of _ ?t] exI [of _ "?v r"]) (simp add: failed_values_def Let_def microseconds_def)
qed

theorem failed_attempt_backs_off_witness:
  "\<exists>t. mark_failed (sample_job 3 ''c'' RUNNING 5) ''w'' 1 ''boom'' 9 sample_queue = (Inr (), t)
    \<and> job_status (refreshed t (sample_job 3 ''c'' RUNNING 5)) = PENDING"
proof -
  let ?r = "sample_job 3 ''c'' RUNNING 5"
  have "keys_unique sample_queue" "?r \<in> set (jobs (work sample_queue))"
    by (simp_all add: keys_unique_def sample_defs)
  moreover have "job_status ?r = RUNNING" "claimed_by ?r = Some ''w''" "attempt_count ?r = 0"
    "max_attempts ?r = 5" "generation ?r = 1" by (simp_all add: sample_job_def)
  ultimately show ?thesis
    using failed_attempt_backs_off [of sample_queue ?r "''w''" "''boom''" 9] by auto
qed

end
