(* ===== verification/Queue_Trace.thy ===== *)
theory Queue_Trace
  imports Queue
begin

text \<open>
  Any number of workers over one queue. A world is the table that the statements of all sessions
  have produced so far, and the claims that were handed out, each a worker and the row it was
  given. A step is one statement of \<open>JobQueue\<close> issued by some worker, in any order (\<open>tick\<close> is anything
  that leaves the table alone: the clock, a commit, a write to another table): the engines
  serialise the writers of a row, so a statement of a worker that lost the row reads it after the
  winner. A worker acts on a job only with a row it was handed and with that row's generation, as
  \<open>IngestionRunner.process\<close> and \<open>claim_and_process\<close> do.
\<close>

section \<open>Steps\<close>

record world =
  world_session :: sess
  held :: "(string \<times> job) list"

definition table :: "world \<Rightarrow> job list" where
  "table W = jobs (work (world_session W))"

datatype queue_event =
    Enqueue uuid
  | Promote
  | Expire "uuid list"
  | Claim string uuid nat
  | Start uuid
  | Finish uuid
  | Wait uuid
  | Defer uuid
  | Fail uuid
  | Tick

inductive queue_step :: "world \<Rightarrow> queue_event \<Rightarrow> world \<Rightarrow> bool" where
  enqueue: "enqueue_idempotent q s = (Inr r, t) \<Longrightarrow> 0 < rq_max_attempts q
    \<Longrightarrow> queue_step \<lparr>world_session = s, held = h\<rparr> (Enqueue (job_id (er_job r))) \<lparr>world_session = t, held = h\<rparr>"
| enqueue_wait: "enqueue_waiting q s = (Inr r, t) \<Longrightarrow> 0 < rq_max_attempts q
    \<Longrightarrow> queue_step \<lparr>world_session = s, held = h\<rparr> (Enqueue (job_id (er_job r))) \<lparr>world_session = t, held = h\<rparr>"
| promote: "promote_due_waiting now s = (Inr n, t)
    \<Longrightarrow> queue_step \<lparr>world_session = s, held = h\<rparr> Promote \<lparr>world_session = t, held = h\<rparr>"
| expire: "recover_expired now lease s = (Inr n, t)
    \<Longrightarrow> ids = map job_id (filter (lease_expired now lease) (jobs (work s)))
    \<Longrightarrow> queue_step \<lparr>world_session = s, held = h\<rparr> (Expire ids) \<lparr>world_session = t, held = h\<rparr>"
| claim: "claim_attempt i w now s = (Inr (Some j), t)
    \<Longrightarrow> queue_step \<lparr>world_session = s, held = h\<rparr> (Claim w i (generation j)) \<lparr>world_session = t, held = h @ [(w, j)]\<rparr>"
| start: "(w, j) \<in> set h \<Longrightarrow> mark_running j w (generation j) s = (Inr (), t)
    \<Longrightarrow> queue_step \<lparr>world_session = s, held = h\<rparr> (Start (job_id j)) \<lparr>world_session = t, held = h\<rparr>"
| finish: "(w, j) \<in> set h \<Longrightarrow> mark_done j w (generation j) now s = (Inr (), t)
    \<Longrightarrow> queue_step \<lparr>world_session = s, held = h\<rparr> (Finish (job_id j)) \<lparr>world_session = t, held = h\<rparr>"
| wait: "(w, j) \<in> set h \<Longrightarrow> mark_waiting_for_publication j w (generation j) retry_at s = (Inr (), t)
    \<Longrightarrow> queue_step \<lparr>world_session = s, held = h\<rparr> (Wait (job_id j)) \<lparr>world_session = t, held = h\<rparr>"
| defer_quota: "(w, j) \<in> set h \<Longrightarrow> defer_for_quota j w (generation j) reset_at now s = (Inr (), t)
    \<Longrightarrow> queue_step \<lparr>world_session = s, held = h\<rparr> (Defer (job_id j)) \<lparr>world_session = t, held = h\<rparr>"
| failed: "(w, j) \<in> set h \<Longrightarrow> mark_failed j w (generation j) err now s = (Inr (), t)
    \<Longrightarrow> queue_step \<lparr>world_session = s, held = h\<rparr> (Fail (job_id j)) \<lparr>world_session = t, held = h\<rparr>"
| tick: "jobs (work t) = jobs (work s)
    \<Longrightarrow> queue_step \<lparr>world_session = s, held = h\<rparr> Tick \<lparr>world_session = t, held = h\<rparr>"

inductive reaches :: "world \<Rightarrow> queue_event list \<Rightarrow> world \<Rightarrow> bool" where
  here: "reaches W [] W"
| further: "reaches W es V \<Longrightarrow> queue_step V e U \<Longrightarrow> reaches W (es @ [e]) U"

definition fresh_world :: "world \<Rightarrow> bool" where
  "fresh_world W \<longleftrightarrow> table W = [] \<and> held W = []"

inductive_cases reaches_Nil: "reaches W [] V"

lemma reaches_trans: "reaches V fs U \<Longrightarrow> reaches W es V \<Longrightarrow> reaches W (es @ fs) U"
proof (induction rule: reaches.induct)
  case (further V fs X f U)
  then have "reaches W (es @ fs) X" by blast
  from reaches.further [OF this further.hyps(2)] show ?case by simp
qed simp

section \<open>What a step does to a row\<close>

text \<open>Failures are the events that count an attempt: a failed attempt and an expired lease.\<close>

fun failures :: "uuid \<Rightarrow> queue_event \<Rightarrow> int" where
  "failures i (Expire ids) = (if i \<in> set ids then 1 else 0)"
| "failures i (Fail k) = (if k = i then 1 else 0)"
| "failures i _ = 0"

inductive row_move :: "(string \<times> job) list \<Rightarrow> queue_event \<Rightarrow> job \<Rightarrow> job \<Rightarrow> bool" for h where
  move_promote: "job_status r = WAITING_FOR_PUBLICATION \<Longrightarrow> row_move h Promote r (promoted now r)"
| move_expire: "job_status r \<in> {CLAIMED, RUNNING} \<Longrightarrow> job_id r \<in> set ids \<Longrightarrow> row_move h (Expire ids) r (recovered now r)"
| move_claim: "job_status r = PENDING \<Longrightarrow> g = generation r + 1
    \<Longrightarrow> row_move h (Claim w (job_id r) g) r (claimed_row w now clock r)"
| move_start: "(w, j) \<in> set h \<Longrightarrow> owned j w (generation j) [CLAIMED] r
    \<Longrightarrow> row_move h (Start (job_id j)) r (r\<lparr>job_status := RUNNING, job_updated_at := clock\<rparr>)"
| move_finish: "(w, j) \<in> set h \<Longrightarrow> owned j w (generation j) [RUNNING] r
    \<Longrightarrow> row_move h (Finish (job_id j)) r (r\<lparr>job_status := DONE, last_error := None, job_updated_at := now\<rparr>)"
| move_wait: "(w, j) \<in> set h \<Longrightarrow> owned j w (generation j) [CLAIMED, RUNNING] r
    \<Longrightarrow> row_move h (Wait (job_id j)) r (r\<lparr>job_status := WAITING_FOR_PUBLICATION, next_run_at := at1,
          last_error := None, claimed_by := None, claimed_at := None, job_updated_at := clock\<rparr>)"
| move_defer: "(w, j) \<in> set h \<Longrightarrow> owned j w (generation j) [CLAIMED, RUNNING] r
    \<Longrightarrow> row_move h (Defer (job_id j)) r (r\<lparr>job_status := PENDING, next_run_at := at1,
          last_error := None, claimed_by := None, claimed_at := None, job_updated_at := clock\<rparr>)"
| move_fail: "(w, j) \<in> set h \<Longrightarrow> owned j w (generation j) [CLAIMED, RUNNING] r
    \<Longrightarrow> row_move h (Fail (job_id j)) r (failed_values j err now r)"

definition row_next :: "(string \<times> job) list \<Rightarrow> queue_event \<Rightarrow> job \<Rightarrow> job \<Rightarrow> bool" where
  "row_next h e r r' \<longleftrightarrow> r' = r \<and> failures (job_id r) e = 0 \<or> row_move h e r r'"

definition fresh_job :: "job \<Rightarrow> bool" where
  "fresh_job j \<longleftrightarrow> job_status j \<in> {PENDING, WAITING_FOR_PUBLICATION} \<and> claimed_by j = None \<and> claimed_at j = None
     \<and> attempt_count j = 0 \<and> 0 < max_attempts j \<and> generation j = 0"

definition table_next :: "(string \<times> job) list \<Rightarrow> queue_event \<Rightarrow> job list \<Rightarrow> job list \<Rightarrow> bool" where
  "table_next h e js ks \<longleftrightarrow>
     (\<exists>g new. ks = map g js @ new \<and> (\<forall>r \<in> set js. row_next h e r (g r))
        \<and> (new = [] \<or> (\<exists>j. new = [j] \<and> fresh_job j \<and> failures (job_id j) e = 0
              \<and> job_id j \<notin> set (map job_id js) \<and> dedupe_key j \<notin> set (map dedupe_key js))))"

lemma table_next_map:
  "(\<And>r. r \<in> set js \<Longrightarrow> row_next h e r (g r)) \<Longrightarrow> table_next h e js (map g js)"
  unfolding table_next_def by (rule exI [of _ g], rule exI [of _ "[]"]) simp

lemma table_next_update:
  "(\<And>r. r \<in> set js \<Longrightarrow> p r \<Longrightarrow> row_move h e r (f r)) \<Longrightarrow> (\<And>r. r \<in> set js \<Longrightarrow> \<not> p r \<Longrightarrow> failures (job_id r) e = 0)
    \<Longrightarrow> table_next h e js (update_where p f js)"
  unfolding update_where_def by (rule table_next_map) (auto simp: row_next_def)

lemma table_next_new:
  "fresh_job j \<Longrightarrow> job_id j \<notin> set (map job_id js) \<Longrightarrow> dedupe_key j \<notin> set (map dedupe_key js)
    \<Longrightarrow> (\<And>i. failures i e = 0) \<Longrightarrow> table_next h e js (js @ [j])"
  unfolding table_next_def by (rule exI [of _ "\<lambda>r. r"], rule exI [of _ "[j]"]) (simp add: row_next_def)

lemma table_next_same: "(\<And>i. failures i e = 0) \<Longrightarrow> table_next h e js js"
  using table_next_map [of js h e "\<lambda>r. r"] by (simp add: row_next_def)

lemma jobs_await [simp]:
  "jobs (work (await_publication j s)) = update_where (\<lambda>r. job_id r = job_id j)
     (\<lambda>r. r\<lparr>job_status := WAITING_FOR_PUBLICATION, job_updated_at := utcnow s\<rparr>) (jobs (work s))"
  by (simp add: await_publication_def)

lemma await_new:
  assumes "job_id j \<notin> set (map job_id js)"
  shows "update_where (\<lambda>r. job_id r = job_id j) f (js @ [j]) = js @ [f j]"
proof -
  have "update_where (\<lambda>r. job_id r = job_id j) f js = js"
    using assms by (intro update_where_none) (metis image_eqI list.set_map)
  then show ?thesis by simp
qed

lemma fresh_new_job:
  "0 < rq_max_attempts q \<Longrightarrow> fresh_job (new_job q s)"
  "0 < rq_max_attempts q \<Longrightarrow> fresh_job ((new_job q s)\<lparr>job_status := WAITING_FOR_PUBLICATION, job_updated_at := c\<rparr>)"
  by (simp_all add: fresh_job_def)

lemma enqueue_table:
  assumes "enqueue_idempotent q s = (Inr r, t)" and "0 < rq_max_attempts q"
  shows "table_next h (Enqueue i) (jobs (work s)) (jobs (work t))"
  using assms(1)
proof (cases rule: enqueue_cases)
  case added
  then show ?thesis
    using assms(2) by (auto intro!: table_next_new fresh_new_job)
qed (auto intro: table_next_same)

lemma enqueue_waiting_table:
  assumes "enqueue_waiting q s = (Inr r, t)" and "0 < rq_max_attempts q"
  shows "table_next h (Enqueue i) (jobs (work s)) (jobs (work t))"
proof -
  obtain u r' where u: "enqueue_idempotent q s = (Inr r', u)"
    "t = (if er_created r' then await_publication (er_job r') u else u)"
    using assms(1) by (cases "enqueue_idempotent q s") (auto simp: enqueue_waiting_def andthen_def
      split: sum.splits if_splits)
  from u(1) show ?thesis
  proof (cases rule: enqueue_cases)
    case added
    then have "jobs (work t) = jobs (work s) @
        [(new_job q s)\<lparr>job_status := WAITING_FOR_PUBLICATION, job_updated_at := utcnow u\<rparr>]"
      using u(2) await_new [of "new_job q s" "jobs (work s)"] by simp
    then show ?thesis
      using added assms(2) by (auto intro!: table_next_new fresh_new_job)
  qed (use u(2) in \<open>auto intro: table_next_same\<close>)
qed

lemma claim_attempt_SomeD:
  assumes "claim_attempt i w now s = (Inr (Some j), t)" and "distinct (map job_id (jobs (work s)))"
  shows "\<exists>r \<in> set (jobs (work s)). job_id r = i \<and> job_status r = PENDING \<and> j = claimed_row w now (wall s) r
    \<and> t = commit (on_jobs (update_where (\<lambda>q. q = r) (claimed_row w now (wall s))) s)"
proof -
  from assms(1) have "rowcount (claimable i) (jobs (work s)) = 1"
    by (auto simp: claim_attempt_def Let_def split: if_splits)
  then obtain r where r: "r \<in> set (jobs (work s))" "job_id r = i" "job_status r = PENDING"
    using rowcount_pos_iff [of "claimable i" "jobs (work s)"] by (auto simp: claimable_def)
  with claim_attempt_pending [OF assms(2) r(1,3), of w now] assms(1) show ?thesis by auto
qed

lemma owned_transition_table:
  assumes "owned_transition j w g allowed values s = (Inr (), t)" and "distinct (map job_id (jobs (work s)))"
    and "\<And>r. owned j w g allowed r \<Longrightarrow> row_move h e r (values r)"
    and "\<And>i. i \<noteq> job_id j \<Longrightarrow> failures i e = 0"
  shows "table_next h e (jobs (work s)) (jobs (work t))"
  using assms(1,2)
proof (cases rule: owned_transition_cases)
  case (won r)
  have "failures (job_id q) e = 0" if "q \<in> set (jobs (work s))" "q \<noteq> r" for q
    using assms(4) that won(2,3) distinct_map_inj [OF assms(2)] owned_key by metis
  then show ?thesis
    using won assms(3) by (auto intro!: table_next_update)
qed simp

lemma step_table:
  assumes "queue_step W e W'" and "keys_unique (world_session W)"
  shows "table_next (held W) e (table W) (table W')"
  using assms
proof (cases rule: queue_step.cases)
  case (enqueue q s r t h)
  then show ?thesis by (simp add: table_def enqueue_table)
next
  case (enqueue_wait q s r t h)
  then show ?thesis by (simp add: table_def enqueue_waiting_table)
next
  case (promote now s n t h)
  then show ?thesis
    by (auto simp: table_def due_waiting_def intro!: table_next_update move_promote)
next
  case (expire now lease s n t ids h)
  have "row_move h e r (recovered now r)" if "r \<in> set (table W)" "lease_expired now lease r" for r
    using that expire by (auto simp: table_def lease_expired_def intro!: move_expire)
  moreover have "failures (job_id r) e = 0" if "r \<in> set (table W)" "\<not> lease_expired now lease r" for r
  proof -
    have "job_id r \<notin> set ids"
    proof
      assume "job_id r \<in> set ids"
      then obtain q where q: "q \<in> set (table W)" "job_id q = job_id r" "lease_expired now lease q"
        using expire by (force simp: table_def)
      have "distinct (map job_id (table W))" using assms(2) by (simp add: table_def keys_unique_def)
      with q(1,2) that(1) have "q = r" by (metis distinct_map_inj)
      with q(3) that(2) show False by simp
    qed
    then show ?thesis using expire(2) by simp
  qed
  ultimately show ?thesis
    using expire by (auto simp: table_def intro!: table_next_update)
next
  case (claim i w now s j t h)
  then obtain r where r: "r \<in> set (jobs (work s))" "job_id r = i" "job_status r = PENDING"
    "j = claimed_row w now (wall s) r"
    "t = commit (on_jobs (update_where (\<lambda>q. q = r) (claimed_row w now (wall s))) s)"
    using claim_attempt_SomeD [of i w now s j t] assms(2) by (auto simp: keys_unique_def)
  with claim show ?thesis
    by (auto simp: table_def intro!: table_next_update move_claim)
next
  case (tick t s h)
  then show ?thesis by (simp add: table_def table_next_same)
qed (use assms(2) in \<open>auto simp: table_def keys_unique_def mark_running_def mark_done_def
  mark_waiting_for_publication_def defer_for_quota_def mark_failed_def
  elim!: owned_transition_table intro: row_move.intros\<close>)

section \<open>The invariant of a row\<close>

text \<open>
  A job has an owner from its claim to its end, and only then; an attempt is counted when it fails,
  and a job is \<open>FAILED\<close> exactly when its attempts are used up.
\<close>

definition row_ok :: "job \<Rightarrow> bool" where
  "row_ok r \<longleftrightarrow>
     (claimed_by r = None \<longleftrightarrow> job_status r \<in> {PENDING, WAITING_FOR_PUBLICATION, FAILED})
     \<and> (claimed_at r = None \<longleftrightarrow> claimed_by r = None)
     \<and> 0 \<le> attempt_count r \<and> attempt_count r \<le> max_attempts r \<and> 0 < max_attempts r
     \<and> (job_status r = FAILED \<longleftrightarrow> attempt_count r = max_attempts r)"

text \<open>A claim that was handed out describes the row as long as the row is under that generation.\<close>

definition claim_ok :: "string \<times> job \<Rightarrow> job \<Rightarrow> bool" where
  "claim_ok c r \<longleftrightarrow> (case c of (w, j) \<Rightarrow> job_id r = job_id j \<longrightarrow>
     generation j \<le> generation r
     \<and> (generation j = generation r \<and> job_status r \<in> {CLAIMED, RUNNING} \<longrightarrow>
          claimed_by r = Some w \<and> attempt_count r = attempt_count j \<and> max_attempts r = max_attempts j))"

definition claim_id :: "string \<times> job \<Rightarrow> uuid \<times> nat" where
  "claim_id c = (job_id (snd c), generation (snd c))"

definition world_ok :: "world \<Rightarrow> bool" where
  "world_ok W \<longleftrightarrow> keys_unique (world_session W)
     \<and> (\<forall>r \<in> set (table W). row_ok r \<and> (\<forall>c \<in> set (held W). claim_ok c r))
     \<and> (\<forall>c \<in> set (held W). job_id (snd c) \<in> set (map job_id (table W)))
     \<and> distinct (map claim_id (held W))"

lemma row_move_keys:
  "row_move h e r r' \<Longrightarrow> job_id r' = job_id r \<and> dedupe_key r' = dedupe_key r \<and> generation r \<le> generation r'
     \<and> max_attempts r' = max_attempts r"
  by (induction rule: row_move.induct) auto

lemma owned_claim:
  "owned j w (generation j) [CLAIMED, RUNNING] r \<Longrightarrow> claim_ok (w, j) r \<Longrightarrow>
     attempt_count j = attempt_count r \<and> max_attempts j = max_attempts r"
  by (auto simp: owned_def claim_ok_def)

lemma row_move_ok:
  "row_move h e r r' \<Longrightarrow> row_ok r \<Longrightarrow> (\<And>c. c \<in> set h \<Longrightarrow> claim_ok c r) \<Longrightarrow> row_ok r'"
proof (induction rule: row_move.induct)
  case (move_fail w j r err now)
  then have "attempt_count j = attempt_count r" "max_attempts j = max_attempts r"
    using owned_claim [of j w r] by auto
  with move_fail show ?case by (auto simp: row_ok_def owned_def)
qed (auto simp: row_ok_def owned_def)

lemma row_move_claims:
  "row_move h e r r' \<Longrightarrow> claim_ok c r \<Longrightarrow> claim_ok c r'"
  by (induction rule: row_move.induct) (auto simp: owned_def claim_ok_def)

lemma row_move_failures:
  "row_move h e r r' \<Longrightarrow> (\<And>c. c \<in> set h \<Longrightarrow> claim_ok c r) \<Longrightarrow>
     attempt_count r' = attempt_count r + failures (job_id r) e"
proof (induction rule: row_move.induct)
  case (move_fail w j r err now)
  then show ?case using owned_claim [of j w r] by (simp add: owned_def)
qed (auto simp: owned_def)

lemma row_move_final: "row_move h e r r' \<Longrightarrow> job_status r \<notin> {DONE, FAILED}"
  by (induction rule: row_move.induct) (auto simp: owned_def)

lemma row_next_keys:
  "row_next h e r r' \<Longrightarrow> job_id r' = job_id r \<and> dedupe_key r' = dedupe_key r \<and> generation r \<le> generation r'
     \<and> max_attempts r' = max_attempts r"
  using row_move_keys [of h e r r'] by (auto simp: row_next_def)

section \<open>The invariant of the world\<close>

definition table_ok :: "(string \<times> job) list \<Rightarrow> job list \<Rightarrow> bool" where
  "table_ok h js \<longleftrightarrow> distinct (map job_id js) \<and> distinct (map dedupe_key js)
     \<and> (\<forall>r \<in> set js. row_ok r \<and> (\<forall>c \<in> set h. claim_ok c r))
     \<and> (\<forall>c \<in> set h. job_id (snd c) \<in> set (map job_id js))"

lemma world_ok_table:
  "world_ok W \<longleftrightarrow> table_ok (held W) (table W) \<and> distinct (map claim_id (held W))"
  by (auto simp: world_ok_def table_ok_def keys_unique_def table_def)

lemma fresh_job_ok: "fresh_job j \<Longrightarrow> row_ok j"
  by (auto simp: fresh_job_def row_ok_def)

lemma row_next_ok:
  assumes "row_next h e r r'" and "row_ok r" and "\<forall>c \<in> set h. claim_ok c r"
  shows "row_ok r' \<and> (\<forall>c \<in> set h. claim_ok c r')"
  using assms row_move_ok [of h e r r'] row_move_claims [of h e r r'] by (auto simp: row_next_def)

lemma table_next_ok:
  assumes "table_next h e js ks" and "table_ok h js"
  shows "table_ok h ks"
proof -
  from assms(1) obtain g new where ks: "ks = map g js @ new" and g: "\<forall>r \<in> set js. row_next h e r (g r)"
    and new: "new = [] \<or> (\<exists>j. new = [j] \<and> fresh_job j \<and> failures (job_id j) e = 0
      \<and> job_id j \<notin> set (map job_id js) \<and> dedupe_key j \<notin> set (map dedupe_key js))"
    unfolding table_next_def by blast
  have keys: "map job_id (map g js) = map job_id js" "map dedupe_key (map g js) = map dedupe_key js"
    using g row_next_keys by auto
  have "distinct (map job_id ks)" "distinct (map dedupe_key ks)"
    using new assms(2) unfolding ks map_append keys by (elim disjE exE conjE; simp add: table_ok_def)+
  moreover have "set (map job_id js) \<subseteq> set (map job_id ks)"
    unfolding ks map_append keys by simp
  moreover have "row_ok r \<and> (\<forall>c \<in> set h. claim_ok c r)" if "r \<in> set ks" for r
  proof (cases "r \<in> set new")
    case True
    with new have r: "fresh_job r" "job_id r \<notin> set (map job_id js)" by auto
    have "claim_ok c r" if "c \<in> set h" for c
      using that assms(2) r(2) by (force simp: table_ok_def claim_ok_def split: prod.splits)
    with r fresh_job_ok show ?thesis by blast
  next
    case False
    with that obtain q where "q \<in> set js" "r = g q" by (auto simp: ks)
    with g assms(2) row_next_ok [of h e q r] show ?thesis by (auto simp: table_ok_def)
  qed
  ultimately show ?thesis using assms(2) unfolding table_ok_def by blast
qed

lemma step_keeps_ok:
  assumes "queue_step W e W'" and "world_ok W"
  shows "world_ok W'"
proof -
  have ok: "table_ok (held W) (table W)" and ids: "distinct (map claim_id (held W))"
    using assms(2) by (auto simp: world_ok_table)
  have next_ok: "table_ok (held W) (table W')"
    using step_table [OF assms(1)] assms(2) table_next_ok [OF _ ok] by (simp add: world_ok_def)
  from assms(1) show ?thesis
  proof (cases rule: queue_step.cases)
    case (claim i w now s j t h)
    have dist: "distinct (map job_id (jobs (work s)))" using ok claim by (simp add: table_ok_def table_def)
    from claim_attempt_SomeD [OF claim(4) dist] obtain r where r0: "r \<in> set (jobs (work s))" "job_id r = i"
      "j = claimed_row w now (wall s) r"
      "t = commit (on_jobs (update_where (\<lambda>q. q = r) (claimed_row w now (wall s))) s)" by blast
    then have r: "r \<in> set (table W)" "job_id r = i" "j = claimed_row w now (wall s) r" "j \<in> set (table W')"
      using claim(1,3) by (simp_all add: table_def in_update_where_image)
    have "claim_ok (w, j) q" if "q \<in> set (table W')" for q
    proof (cases "job_id q = job_id j")
      case True
      with that r(4) next_ok have "q = j" unfolding table_ok_def by (metis distinct_map_inj)
      with r(3) show ?thesis by (simp add: claim_ok_def)
    qed (simp add: claim_ok_def)
    moreover have "claim_id (w, j) \<notin> set (map claim_id h)"
    proof
      assume "claim_id (w, j) \<in> set (map claim_id h)"
      then obtain c where c: "c \<in> set h" "job_id (snd c) = job_id j" "generation (snd c) = generation j"
        by (auto simp: claim_id_def)
      have "claim_ok c r" using ok r(1) c(1) claim by (simp add: table_ok_def)
      with c r(3) show False by (auto simp: claim_ok_def split: prod.splits)
    qed
    ultimately show ?thesis
      using next_ok ids r(4) claim by (auto simp: world_ok_table table_ok_def)
  qed (use next_ok ids in \<open>auto simp: world_ok_table\<close>)
qed

lemma fresh_world_ok: "fresh_world W \<Longrightarrow> world_ok W"
  by (simp add: fresh_world_def world_ok_table table_ok_def)

lemma reaches_ok: "reaches W es V \<Longrightarrow> world_ok W \<Longrightarrow> world_ok V"
  by (induction rule: reaches.induct) (auto intro: step_keeps_ok)

section \<open>Rows along a run\<close>

lemma step_row:
  assumes "queue_step W e W'" and "world_ok W" and "r \<in> set (table W)"
  shows "\<exists>r' \<in> set (table W'). row_next (held W) e r r'"
proof -
  have "table_next (held W) e (table W) (table W')"
    using step_table assms(1,2) by (simp add: world_ok_def)
  then obtain g new where g: "table W' = map g (table W) @ new"
    "\<forall>r \<in> set (table W). row_next (held W) e r (g r)" unfolding table_next_def by blast
  then have "g r \<in> set (table W')" using assms(3) by simp
  with g(2) assms(3) show ?thesis by blast
qed

lemma step_row_back:
  assumes "queue_step W e W'" and "world_ok W" and "r' \<in> set (table W')"
  shows "(\<exists>r \<in> set (table W). row_next (held W) e r r')
    \<or> fresh_job r' \<and> failures (job_id r') e = 0 \<and> job_id r' \<notin> set (map job_id (table W))"
proof -
  have "table_next (held W) e (table W) (table W')"
    using step_table assms(1,2) by (simp add: world_ok_def)
  then obtain g new where g: "table W' = map g (table W) @ new"
    "\<forall>r \<in> set (table W). row_next (held W) e r (g r)"
    "new = [] \<or> (\<exists>j. new = [j] \<and> fresh_job j \<and> failures (job_id j) e = 0
       \<and> job_id j \<notin> set (map job_id (table W)) \<and> dedupe_key j \<notin> set (map dedupe_key (table W)))"
    unfolding table_next_def by blast
  from g(1) assms(3) have "(\<exists>r \<in> set (table W). r' = g r) \<or> r' \<in> set new" by auto
  with g(2,3) show ?thesis by (elim disjE) (blast, auto)
qed

lemma final_row_kept:
  "reaches W es V \<Longrightarrow> world_ok W \<Longrightarrow> r \<in> set (table W) \<Longrightarrow> job_status r \<in> {DONE, FAILED} \<Longrightarrow> r \<in> set (table V)"
proof (induction rule: reaches.induct)
  case (further W es V e U)
  then have "world_ok V" "r \<in> set (table V)" using reaches_ok by auto
  from step_row [OF further.hyps(2) this] obtain r' where "r' \<in> set (table U)" "row_next (held V) e r r'" by blast
  moreover have "\<not> row_move (held V) e r r'" using row_move_final further.prems(3) by blast
  ultimately show ?case by (auto simp: row_next_def)
qed simp

lemma held_grows: "reaches W es V \<Longrightarrow> prefix (held W) (held V)"
proof (induction rule: reaches.induct)
  case (further W es V e U)
  from further.hyps(2) have "prefix (held V) (held U)" by (cases rule: queue_step.cases) auto
  with further.IH show ?case by (rule prefix_order.trans)
qed simp

text \<open>The attempts a row counts are the failures of its job in the run.\<close>

definition failed_attempts :: "uuid \<Rightarrow> queue_event list \<Rightarrow> int" where
  "failed_attempts i es = sum_list (map (failures i) es)"

lemma failed_attempts_snoc [simp]: "failed_attempts i (es @ [e]) = failed_attempts i es + failures i e"
  by (simp add: failed_attempts_def)

lemma no_row_no_failures:
  assumes "queue_step W e W'" and "world_ok W" and "i \<notin> set (map job_id (table W))"
  shows "failures i e = 0"
  using assms(1)
proof (cases rule: queue_step.cases)
  case (expire now lease s n t ids h)
  then show ?thesis using assms(3) by (auto simp: table_def)
next
  case (failed w j h err now s t)
  then have "job_id j \<in> set (map job_id (table W))"
    using assms(2) by (fastforce simp: world_ok_table table_ok_def)
  with assms(3) failed show ?thesis by auto
qed auto

lemma attempts_counted:
  assumes "reaches W es V" and "fresh_world W"
  shows "(\<forall>r \<in> set (table V). attempt_count r = failed_attempts (job_id r) es)
    \<and> (\<forall>i. i \<notin> set (map job_id (table V)) \<longrightarrow> failed_attempts i es = 0)"
  using assms
proof (induction rule: reaches.induct)
  case (here W)
  then show ?case by (simp add: fresh_world_def failed_attempts_def)
next
  case (further W es V e U)
  have ok: "world_ok V" using further fresh_world_ok reaches_ok by blast
  have IH: "\<forall>r \<in> set (table V). attempt_count r = failed_attempts (job_id r) es"
    "\<forall>i. i \<notin> set (map job_id (table V)) \<longrightarrow> failed_attempts i es = 0" using further by auto
  have "attempt_count r' = failed_attempts (job_id r') (es @ [e])" if r': "r' \<in> set (table U)" for r'
    using step_row_back [OF further.hyps(2) ok r']
  proof (elim disjE bexE conjE)
    fix r assume r: "r \<in> set (table V)" "row_next (held V) e r r'"
    have "\<forall>c \<in> set (held V). claim_ok c r" using ok r(1) by (simp add: world_ok_def)
    with r row_move_failures [of "held V" e r r'] IH(1) row_next_keys [OF r(2)] show ?thesis
      by (auto simp: row_next_def)
  next
    assume "fresh_job r'" "failures (job_id r') e = 0" "job_id r' \<notin> set (map job_id (table V))"
    with IH(2) show ?thesis by (simp add: fresh_job_def)
  qed
  moreover have "failed_attempts i (es @ [e]) = 0" if i: "i \<notin> set (map job_id (table U))" for i
  proof -
    have "i \<notin> set (map job_id (table V))"
    proof
      assume "i \<in> set (map job_id (table V))"
      then obtain r where r: "r \<in> set (table V)" "job_id r = i" by auto
      from step_row [OF further.hyps(2) ok r(1)] obtain r' where "r' \<in> set (table U)"
        "row_next (held V) e r r'" by blast
      with row_next_keys [of "held V" e r r'] r(2) i show False by (metis image_eqI list.set_map)
    qed
    with IH(2) no_row_no_failures [OF further.hyps(2) ok] show ?thesis by simp
  qed
  ultimately show ?case by blast
qed

section \<open>A claim is fenced by the next one\<close>

lemma held_claim_ok:
  "world_ok V \<Longrightarrow> (w, j) \<in> set (held V) \<Longrightarrow> r \<in> set (table V) \<Longrightarrow> claim_ok (w, j) r"
  by (auto simp: world_ok_def)

lemma not_owned_superseded:
  assumes "world_ok V" and "(w', j') \<in> set (held V)" and "job_id j = job_id j'" and "g < generation j'"
    and "r \<in> set (table V)"
  shows "\<not> owned j w g allowed r"
  using held_claim_ok [OF assms(1,2,5)] assms(3,4) by (auto simp: claim_ok_def owned_def)

lemma not_owned_stale:
  assumes "\<And>r. r \<in> set (jobs (work s)) \<Longrightarrow> \<not> owned j w g allowed r"
  shows "owned_transition j w g allowed values s = (Inl (StaleJobClaimError (job_id j)), s)"
proof -
  have "rowcount (owned j w g allowed) (jobs (work s)) = 0" using assms by (simp add: rowcount_zero_iff)
  moreover have "on_jobs (update_where (owned j w g allowed) values) s = s"
    using assms by (intro on_jobs_same update_where_none)
  ultimately show ?thesis by (simp add: owned_transition_def Let_def)
qed

section \<open>The operations of a worker are runs\<close>

lemma reaches_step: "queue_step V e U \<Longrightarrow> reaches V [e] U"
  using reaches.further [OF reaches.here] by fastforce

lemma claim_attempt_keeps_ids:
  "claim_attempt i w now s = (x, t) \<Longrightarrow> map job_id (jobs (work t)) = map job_id (jobs (work s))"
  by (auto simp: claim_attempt_def Let_def map_update_where)

lemma claim_attempt_runs:
  assumes "claim_attempt i w now s = (Inr x, t)" and "distinct (map job_id (jobs (work s)))"
  shows "\<exists>es. reaches \<lparr>world_session = s, held = h\<rparr> es
    \<lparr>world_session = t, held = h @ (case x of None \<Rightarrow> [] | Some j \<Rightarrow> [(w, j)])\<rparr>"
proof (cases x)
  case (Some j)
  with assms(1) have "reaches \<lparr>world_session = s, held = h\<rparr> [Claim w i (generation j)]
      \<lparr>world_session = t, held = h @ [(w, j)]\<rparr>"
    by (intro reaches_step queue_step.claim) simp
  with Some show ?thesis by auto
next
  case None
  have free: "\<not> claimable i r" if "r \<in> set (jobs (work s))" for r
    using claim_attempt_pending [OF assms(2) that, of w now] assms(1) None by (auto simp: claimable_def)
  then have "jobs (work t) = jobs (work s)"
    using assms(1) by (auto simp: claim_attempt_def Let_def update_where_none)
  with None have "reaches \<lparr>world_session = s, held = h\<rparr> [Tick]
      \<lparr>world_session = t, held = h @ (case x of None \<Rightarrow> [] | Some j \<Rightarrow> [(w, j)])\<rparr>"
    by (auto intro: reaches_step queue_step.tick)
  then show ?thesis by blast
qed

lemma try_claim_one_runs:
  assumes "try_claim_one locks i w now s = (x, t)" and "distinct (map job_id (jobs (work s)))"
  shows "map job_id (jobs (work t)) = map job_id (jobs (work s)) \<and>
    (\<exists>es. reaches \<lparr>world_session = s, held = h\<rparr> es
      \<lparr>world_session = t, held = h @ (case x of Inr (Some j) \<Rightarrow> [(w, j)] | _ \<Rightarrow> [])\<rparr>)"
proof (cases "\<exists>k < lock_retry_attempts. \<not> locks (Some i) k")
  case True
  with assms(1) have c: "claim_attempt i w now s = (x, t)" by (simp add: try_claim_one_eq)
  then obtain y where x: "x = Inr y" by (auto simp: claim_attempt_def Let_def)
  with c claim_attempt_runs [of i w now s y t h] claim_attempt_keeps_ids [OF c] assms(2) show ?thesis
    by (cases y) auto
next
  case False
  with assms(1) have "x = Inl OperationalError" "t = s" by (auto simp: try_claim_one_eq)
  with reaches.here show ?thesis by auto
qed

lemma claim_each_runs:
  assumes "claim_each locks w now limit ids claimed s = (x, t)" and "distinct (map job_id (jobs (work s)))"
  shows "\<exists>es js. reaches \<lparr>world_session = s, held = h\<rparr> es \<lparr>world_session = t, held = h @ map (Pair w) js\<rparr>
    \<and> (\<forall>r. x = Inr r \<longrightarrow> r = claimed @ js)"
  using assms
proof (induction ids arbitrary: claimed s h)
  case Nil
  then have "reaches \<lparr>world_session = s, held = h\<rparr> [] \<lparr>world_session = t, held = h @ map (Pair w) []\<rparr>
      \<and> (\<forall>r. x = Inr r \<longrightarrow> r = claimed @ [])" by (auto simp: reaches.here)
  then show ?case by blast
next
  case (Cons i ids)
  obtain y u where step: "try_claim_one locks i w now s = (y, u)" by force
  let ?got = "case y of Inr (Some j) \<Rightarrow> [j] | _ \<Rightarrow> []"
  from try_claim_one_runs [OF step Cons.prems(2), of h] obtain es where
    same: "map job_id (jobs (work u)) = map job_id (jobs (work s))" and
    es: "reaches \<lparr>world_session = s, held = h\<rparr> es \<lparr>world_session = u, held = h @ map (Pair w) ?got\<rparr>"
    by (auto split: sum.splits option.splits)
  show ?case
  proof (cases "limit \<le> length claimed \<or> (\<exists>e. y = Inl e)")
    case True
    then show ?thesis
    proof
      assume "limit \<le> length claimed"
      with Cons.prems(1) have "reaches \<lparr>world_session = s, held = h\<rparr> [] \<lparr>world_session = t, held = h @ map (Pair w) []\<rparr>
          \<and> (\<forall>r. x = Inr r \<longrightarrow> r = claimed @ [])" by (auto simp: reaches.here)
      then show ?thesis by blast
    next
      assume "\<exists>e. y = Inl e"
      with Cons.prems(1) step es reaches.here [of "\<lparr>world_session = s, held = h\<rparr>"] show ?thesis
        by (fastforce split: if_splits intro: exI [of _ "[] :: job list"])
    qed
  next
    case False
    then have "claim_each locks w now limit ids (claimed @ ?got) u = (x, t)"
      using Cons.prems(1) step by (auto split: sum.splits option.splits)
    from Cons.IH [OF this, of "h @ map (Pair w) ?got"] same Cons.prems(2) obtain fs js where
      "reaches \<lparr>world_session = u, held = h @ map (Pair w) ?got\<rparr> fs
         \<lparr>world_session = t, held = (h @ map (Pair w) ?got) @ map (Pair w) js\<rparr>"
      "\<forall>r. x = Inr r \<longrightarrow> r = (claimed @ ?got) @ js" by auto
    with reaches_trans [OF _ es] have
      "reaches \<lparr>world_session = s, held = h\<rparr> (es @ fs) \<lparr>world_session = t, held = h @ map (Pair w) (?got @ js)\<rparr>"
      "\<forall>r. x = Inr r \<longrightarrow> r = claimed @ (?got @ js)" by auto
    then show ?thesis by blast
  qed
qed

lemma claim_next_runs:
  assumes "claim_next locks w now source limit lease s = (x, t)" and "distinct (map job_id (jobs (work s)))"
  shows "\<exists>es js. reaches \<lparr>world_session = s, held = h\<rparr> es \<lparr>world_session = t, held = h @ map (Pair w) js\<rparr>
    \<and> (\<forall>r. x = Inr r \<longrightarrow> r = js)"
proof -
  let ?r = "snd (recover_expired now lease s)"
  let ?p = "snd (promote_due_waiting now ?r)"
  have "queue_step \<lparr>world_session = s, held = h\<rparr>
      (Expire (map job_id (filter (lease_expired now lease) (jobs (work s))))) \<lparr>world_session = ?r, held = h\<rparr>"
    by (rule queue_step.expire [of now lease s "rowcount (lease_expired now lease) (jobs (work s))"]) simp_all
  moreover have "queue_step \<lparr>world_session = ?r, held = h\<rparr> Promote \<lparr>world_session = ?p, held = h\<rparr>"
    by (rule queue_step.promote [of now ?r "rowcount (due_waiting now) (jobs (work ?r))"]) simp
  ultimately obtain es where es: "reaches \<lparr>world_session = s, held = h\<rparr> es \<lparr>world_session = ?p, held = h\<rparr>"
    using reaches_trans [OF reaches_step reaches_step] by blast
  have dist: "distinct (map job_id (jobs (work ?p)))" using assms(2) by (simp add: map_update_where)
  have sel: "retry_on_lock lock_retry_attempts (\<lambda>n. when_locked (locks None n)
      (\<lambda>s. (Inr (candidate_ids now source limit (jobs (work s))), s))) ?p
    = (if \<exists>k < lock_retry_attempts. \<not> locks None k
       then (Inr (candidate_ids now source limit (jobs (work ?p))), ?p) else (Inl OperationalError, ?p))"
    by (rule retry_on_lock_when) simp
  show ?thesis
  proof (cases "\<exists>k < lock_retry_attempts. \<not> locks None k")
    case True
    with assms(1) sel have
      each: "claim_each locks w now limit (candidate_ids now source limit (jobs (work ?p))) [] ?p = (x, t)"
      by (simp add: claim_next_def andthen_def)
    from claim_each_runs [OF each dist, of h] es reaches_trans show ?thesis by fastforce
  next
    case False
    with assms(1) sel have "x = Inl OperationalError" "t = ?p"
      by (auto simp: claim_next_def andthen_def)
    with es have "reaches \<lparr>world_session = s, held = h\<rparr> es \<lparr>world_session = t, held = h @ map (Pair w) []\<rparr>
        \<and> (\<forall>r. x = Inr r \<longrightarrow> r = [])" by simp
    then show ?thesis by blast
  qed
qed

section \<open>A concrete run\<close>

text \<open>
  One job, claimed by \<open>a\<close>, whose lease of 300 seconds expires, claimed again by \<open>b\<close> and finished.
\<close>

definition demo_request :: job_request where
  "demo_request = \<lparr>rq_job_type = ''fetch_range'', rq_source = ''fake'', rq_dedupe_key = ''k'',
     rq_listing_id = None, rq_cursor = None, rq_run_at = 0, rq_max_attempts = 5\<rparr>"

definition demo_start :: world where
  "demo_start = \<lparr>world_session = session_on (empty_database SQLITE) 0, held = []\<rparr>"

definition demo_job :: "JobStatus \<Rightarrow> int \<Rightarrow> nat \<Rightarrow> string option \<Rightarrow> datetime option \<Rightarrow> datetime \<Rightarrow> string option \<Rightarrow> datetime \<Rightarrow> job" where
  "demo_job st n g w at1 run err upd = \<lparr>job_id = 1000, job_type = ''fetch_range'', dedupe_key = ''k'',
     job_source = ''fake'', job_listing_id = None, job_status = st, job_cursor = None, attempt_count = n,
     max_attempts = 5, next_run_at = run, claimed_by = w, claimed_at = at1, generation = g,
     last_error = err, job_created_at = 0, job_updated_at = upd\<rparr>"

definition demo_session :: "job \<Rightarrow> sess" where
  "demo_session j = \<lparr>work = (empty_database SQLITE)\<lparr>jobs := [j]\<rparr>, durable = (empty_database SQLITE)\<lparr>jobs := [j]\<rparr>,
     wall = 0, uuid_supply = (\<lambda>n. 1000 + n), uuid_draws = 1\<rparr>"

definition demo_a :: job where
  "demo_a = demo_job CLAIMED 0 1 (Some ''a'') (Some 0) 0 None 0"

definition demo_b :: job where
  "demo_b = demo_job CLAIMED 1 3 (Some ''b'') (Some 300000000) 300000000 (Some ''claim_lease_expired'') 0"

definition demo_middle :: world where
  "demo_middle = \<lparr>world_session = demo_session demo_b, held = [(''a'', demo_a), (''b'', demo_b)]\<rparr>"

definition demo_done :: job where
  "demo_done = demo_job DONE 1 3 (Some ''b'') (Some 300000000) 300000000 None 300000000"

definition demo_end :: world where
  "demo_end = \<lparr>world_session = demo_session demo_done, held = [(''a'', demo_a), (''b'', demo_b)]\<rparr>"

lemmas demo_defs = demo_request_def demo_start_def demo_job_def demo_session_def demo_a_def demo_b_def
  demo_middle_def demo_done_def demo_end_def session_on_def empty_database_def

lemma demo_enqueued:
  "reaches demo_start [Enqueue 1000, Tick]
     \<lparr>world_session = demo_session (demo_job PENDING 0 0 None None 0 None 0), held = []\<rparr>"
proof -
  let ?j = "demo_job PENDING 0 0 None None 0 None 0"
  let ?t = "on_jobs (\<lambda>js. js @ [?j]) (drawn (session_on (empty_database SQLITE) 0))"
  have "enqueue_idempotent demo_request (session_on (empty_database SQLITE) 0)
      = (Inr \<lparr>er_job = ?j, er_created = True\<rparr>, ?t)"
    by (simp add: enqueue_idempotent_def insert_job_def new_job_def fk_holds_def uuid4_def utcnow_def demo_defs)
  from queue_step.enqueue [OF this, of "[]"]
  have "queue_step demo_start (Enqueue 1000) \<lparr>world_session = ?t, held = []\<rparr>"
    by (simp add: demo_defs)
  moreover have "queue_step \<lparr>world_session = ?t, held = []\<rparr> Tick
      \<lparr>world_session = demo_session ?j, held = []\<rparr>"
    by (rule queue_step.tick) (simp add: demo_defs)
  ultimately show ?thesis using reaches.intros by (metis append_Cons append_Nil)
qed

lemma demo_claims:
  "reaches \<lparr>world_session = demo_session (demo_job PENDING 0 0 None None 0 None 0), held = []\<rparr>
     [Claim ''a'' 1000 1, Expire [1000], Claim ''b'' 1000 3] demo_middle"
proof -
  let ?p = "demo_job PENDING 0 0 None None 0 None 0"
  let ?q = "demo_job PENDING 1 2 None None 300000000 (Some ''claim_lease_expired'') 300000000"
  have "claim_attempt 1000 ''a'' 0 (demo_session ?p) = (Inr (Some demo_a), demo_session demo_a)"
    by (simp add: claim_attempt_def claimable_def claimed_row_def utcnow_def on_jobs_def commit_def demo_defs)
  from queue_step.claim [OF this, of "[]"]
  have 1: "queue_step \<lparr>world_session = demo_session ?p, held = []\<rparr> (Claim ''a'' 1000 1)
      \<lparr>world_session = demo_session demo_a, held = [(''a'', demo_a)]\<rparr>" by (simp add: demo_a_def demo_job_def)
  have "recover_expired 300000000 300 (demo_session demo_a) = (Inr 1, demo_session ?q)"
    by (simp add: lease_expired_def recovered_def microseconds_def on_jobs_def commit_def demo_defs)
  from queue_step.expire [OF this refl, of "[(''a'', demo_a)]"]
  have 2: "queue_step \<lparr>world_session = demo_session demo_a, held = [(''a'', demo_a)]\<rparr> (Expire [1000])
      \<lparr>world_session = demo_session ?q, held = [(''a'', demo_a)]\<rparr>"
    by (simp add: lease_expired_def microseconds_def demo_defs)
  have "claim_attempt 1000 ''b'' 300000000 (demo_session ?q) = (Inr (Some demo_b), demo_session demo_b)"
    by (simp add: claim_attempt_def claimable_def claimed_row_def utcnow_def on_jobs_def commit_def demo_defs)
  from queue_step.claim [OF this, of "[(''a'', demo_a)]"]
  have 3: "queue_step \<lparr>world_session = demo_session ?q, held = [(''a'', demo_a)]\<rparr> (Claim ''b'' 1000 3) demo_middle"
    by (simp add: demo_b_def demo_job_def demo_middle_def)
  from reaches.further [OF reaches.further [OF reaches_step [OF 1] 2] 3] show ?thesis by simp
qed

lemma demo_finish: "reaches demo_middle [Start 1000, Tick, Finish 1000, Tick] demo_end"
proof -
  let ?r = "demo_job RUNNING 1 3 (Some ''b'') (Some 300000000) 300000000 (Some ''claim_lease_expired'') 0"
  let ?s = "(demo_session demo_b)\<lparr>work := work (demo_session ?r)\<rparr>"
  let ?t = "(demo_session ?r)\<lparr>work := work (demo_session demo_done)\<rparr>"
  let ?h = "[(''a'', demo_a), (''b'', demo_b)]"
  have "mark_running demo_b ''b'' (generation demo_b) (demo_session demo_b) = (Inr (), ?s)"
    "mark_done demo_b ''b'' (generation demo_b) 300000000 (demo_session ?r) = (Inr (), ?t)"
    by (simp_all add: mark_running_def mark_done_def owned_transition_def owned_def utcnow_def on_jobs_def demo_defs)
  then have 1: "queue_step demo_middle (Start (job_id demo_b)) \<lparr>world_session = ?s, held = ?h\<rparr>"
    and 3: "queue_step \<lparr>world_session = demo_session ?r, held = ?h\<rparr> (Finish (job_id demo_b)) \<lparr>world_session = ?t, held = ?h\<rparr>"
    unfolding demo_middle_def by (auto intro!: queue_step.start queue_step.finish)
  have 2: "queue_step \<lparr>world_session = ?s, held = ?h\<rparr> Tick \<lparr>world_session = demo_session ?r, held = ?h\<rparr>"
    and 4: "queue_step \<lparr>world_session = ?t, held = ?h\<rparr> Tick demo_end"
    unfolding demo_end_def by (auto intro!: queue_step.tick)
  from reaches.further [OF reaches.further [OF reaches.further [OF reaches_step [OF 1] 2] 3] 4]
  show ?thesis by (simp add: demo_b_def demo_job_def)
qed

lemma demo_fresh: "fresh_world demo_start"
  by (simp add: fresh_world_def table_def demo_defs)

lemmas demo_to_middle = reaches_trans [OF demo_claims demo_enqueued]
lemmas demo_to_end = reaches_trans [OF demo_finish demo_to_middle]

section \<open>Properties of the queue under several workers\<close>

text \<open>
  C3. Mutual exclusion. In every run from an empty queue, a claim of a job under a generation is
  handed out once, and two claims of a job that both still pass the ownership check that fences
  storage are the same claim.
\<close>

theorem single_owner:
  assumes "fresh_world W" and "reaches W es V"
    and "(w, j) \<in> set (held V)" and "(w', j') \<in> set (held V)" and "job_id j = job_id j'"
    and "assert_owned j w (generation j) (world_session V) = (Inr (), t)"
    and "assert_owned j' w' (generation j') (world_session V) = (Inr (), t')"
  shows "(w, j) = (w', j') \<and> distinct (map claim_id (held V))"
proof -
  have ok: "world_ok V" using assms(1,2) fresh_world_ok reaches_ok by blast
  obtain r r' where r: "r \<in> set (table V)" "owned j w (generation j) [CLAIMED, RUNNING] r"
    and r': "r' \<in> set (table V)" "owned j' w' (generation j') [CLAIMED, RUNNING] r'"
    using assms(6,7) [THEN assert_owned_InrD] unfolding table_def by blast
  have "r = r'"
    using ok r r' assms(5) distinct_map_inj [of job_id "table V" r r']
    by (auto simp: world_ok_table table_ok_def owned_def)
  then have "claim_id (w, j) = claim_id (w', j')" using r r' by (auto simp: owned_def claim_id_def)
  moreover have dist: "distinct (map claim_id (held V))" using ok by (simp add: world_ok_def)
  ultimately show ?thesis using assms(3,4) distinct_map_inj [OF dist] by blast
qed

theorem single_owner_witness:
  "(''b'', demo_b) = (''b'', demo_b) \<and> distinct (map claim_id (held demo_middle))"
proof -
  have "assert_owned demo_b ''b'' (generation demo_b) (world_session demo_middle)
      = (Inr (), world_session demo_middle)"
    by (simp add: assert_owned_def owned_def demo_defs)
  then show ?thesis
    by (intro single_owner [OF demo_fresh demo_to_middle, of "''b''" demo_b "''b''" demo_b]) (simp_all add: demo_middle_def)
qed

text \<open>
  C4. Fencing. Once a later claim of the same job has been handed out, every operation that an
  earlier claim allows raises \<open>StaleJobClaimError\<close> and leaves the state as it was.
\<close>

theorem stale_claim_fenced:
  assumes "fresh_world W" and "reaches W es V"
    and "(w, j) \<in> set (held V)" and "(w', j') \<in> set (held V)" and "job_id j = job_id j'"
    and "generation j < generation j'" and "world_session V = s"
  shows "assert_owned j w (generation j) s = (Inl (StaleJobClaimError (job_id j)), s)
    \<and> mark_running j w (generation j) s = (Inl (StaleJobClaimError (job_id j)), s)
    \<and> mark_done j w (generation j) now s = (Inl (StaleJobClaimError (job_id j)), s)
    \<and> mark_waiting_for_publication j w (generation j) at1 s = (Inl (StaleJobClaimError (job_id j)), s)
    \<and> defer_for_quota j w (generation j) reset_at now s = (Inl (StaleJobClaimError (job_id j)), s)
    \<and> mark_failed j w (generation j) err now s = (Inl (StaleJobClaimError (job_id j)), s)"
proof -
  have ok: "world_ok V" using assms(1,2) fresh_world_ok reaches_ok by blast
  have lost: "\<not> owned j w (generation j) allowed r" if "r \<in> set (jobs (work s))" for allowed r
    using not_owned_superseded [OF ok assms(4,5,6)] that assms(7) by (simp add: table_def)
  then show ?thesis
    unfolding transitions by (intro conjI assert_owned_stale not_owned_stale) blast+
qed

theorem stale_claim_fenced_witness:
  "mark_done demo_a ''a'' 1 0 (world_session demo_middle)
     = (Inl (StaleJobClaimError 1000), world_session demo_middle)"
  using stale_claim_fenced [OF demo_fresh demo_to_middle, of "''a''" demo_a "''b''" demo_b]
  by (simp add: demo_middle_def demo_a_def demo_b_def demo_job_def)

text \<open>
  C32. Bounded retries. In every run from an empty queue the attempts that a row counts are the failed
  attempts and expired leases of its job, there are never more than \<open>max_attempts\<close> of them, and
  the job is \<open>FAILED\<close> exactly when they are used up.
\<close>

theorem attempts_bounded:
  assumes "fresh_world W" and "reaches W es V" and "r \<in> set (table V)"
  shows "attempt_count r = failed_attempts (job_id r) es \<and> failed_attempts (job_id r) es \<le> max_attempts r
    \<and> (job_status r = FAILED \<longleftrightarrow> failed_attempts (job_id r) es = max_attempts r)"
proof -
  have "world_ok V" using assms(1,2) fresh_world_ok reaches_ok by blast
  then have "row_ok r" using assms(3) by (simp add: world_ok_def)
  moreover have "attempt_count r = failed_attempts (job_id r) es"
    using attempts_counted [OF assms(2,1)] assms(3) by blast
  ultimately show ?thesis by (simp add: row_ok_def)
qed

theorem attempts_bounded_witness:
  "attempt_count demo_done = 1 \<and> job_status demo_done \<noteq> FAILED"
proof -
  have "demo_done \<in> set (table demo_end)" by (simp add: table_def demo_end_def demo_session_def)
  from attempts_bounded [OF demo_fresh demo_to_end this] show ?thesis
    by (simp add: demo_done_def demo_job_def failed_attempts_def)
qed

text \<open>
  C12. Lifecycle. In every run from an empty queue job identifiers and dedupe keys are unique, and a
  row has an owner and a claim time from its claim to \<open>DONE\<close> and in no other status.
\<close>

theorem lifecycle_invariant:
  assumes "fresh_world W" and "reaches W es V"
  shows "distinct (map job_id (table V)) \<and> distinct (map dedupe_key (table V))
    \<and> (\<forall>r \<in> set (table V). (claimed_by r \<noteq> None \<longleftrightarrow> job_status r \<in> {CLAIMED, RUNNING, DONE})
         \<and> (claimed_at r \<noteq> None \<longleftrightarrow> job_status r \<in> {CLAIMED, RUNNING, DONE}))"
proof -
  have "world_ok V" using assms fresh_world_ok reaches_ok by blast
  then have "row_ok r" if "r \<in> set (table V)" for r using that by (simp add: world_ok_def)
  moreover have "job_status r \<in> {PENDING, WAITING_FOR_PUBLICATION, FAILED} \<longleftrightarrow> job_status r \<notin> {CLAIMED, RUNNING, DONE}"
    for r by (cases "job_status r") auto
  ultimately show ?thesis using \<open>world_ok V\<close> by (auto simp: world_ok_table table_ok_def row_ok_def)
qed

theorem lifecycle_invariant_witness:
  "claimed_by demo_b \<noteq> None \<and> distinct (map dedupe_key (table demo_middle))"
  using lifecycle_invariant [OF demo_fresh demo_to_middle]
  by (simp add: table_def demo_middle_def demo_session_def demo_b_def demo_job_def)

text \<open>
  A job that is \<open>DONE\<close> or \<open>FAILED\<close> stays as it is: no operation of any worker changes or removes
  its row.
\<close>

theorem finished_jobs_stay:
  assumes "fresh_world W" and "reaches W es V" and "reaches V fs U"
    and "r \<in> set (table V)" and "job_status r \<in> {DONE, FAILED}"
  shows "r \<in> set (table U)"
  using final_row_kept [OF assms(3) _ assms(4,5)] assms(1,2) fresh_world_ok reaches_ok by blast

theorem finished_jobs_stay_witness: "demo_done \<in> set (table demo_end)"
  by (rule finished_jobs_stay [OF demo_fresh demo_to_end reaches.here])
    (simp_all add: table_def demo_end_def demo_session_def demo_done_def demo_job_def)

text \<open>
  C14. Refinement. Whatever the locks do, \<open>claim_next\<close> is a run of the queue's steps that hands out
  exactly the claims it returns, also when it raises half-way; so what is proved of runs holds
  between its statements.
\<close>

theorem claim_next_refines:
  assumes "claim_next locks w now source limit lease s = (x, t)" and "keys_unique s"
  shows "\<exists>es js. reaches \<lparr>world_session = s, held = h\<rparr> es \<lparr>world_session = t, held = h @ map (Pair w) js\<rparr>
    \<and> (\<forall>r. x = Inr r \<longrightarrow> r = js)"
  using claim_next_runs [OF assms(1)] assms(2) by (simp add: keys_unique_def)

theorem claim_next_refines_witness:
  "\<exists>es js. reaches \<lparr>world_session = session_on (empty_database SQLITE) 0, held = []\<rparr> es
     \<lparr>world_session = snd (claim_next (\<lambda>i n. False) ''a'' 0 None 1 300 (session_on (empty_database SQLITE) 0)),
      held = [] @ map (Pair ''a'') js\<rparr>
   \<and> (\<forall>r. fst (claim_next (\<lambda>i n. False) ''a'' 0 None 1 300 (session_on (empty_database SQLITE) 0)) = Inr r \<longrightarrow> r = js)"
  by (rule claim_next_refines [OF surjective_pairing])
    (simp add: keys_unique_def session_on_def empty_database_def)

end
