(* ===== verification/Planning.thy ===== *)
theory Planning
  imports Models
begin

text \<open>
  \<open>ports/calendar.py\<close> and \<open>domain/ingestion/planning.py\<close>: the calendar port and the planner that
  turns a listing's calendar into bounded work. A calendar is a function of the asset class, the
  venue, the MIC and the range; it may raise. What the planner relies on is the locale
  \<open>calendar_port\<close>: every date of the range is classified once, and the class of a date does not
  depend on the range asked for. The planner's guarantees are proved inside it.
\<close>

section \<open>The calendar port\<close>

text \<open>\<open>WAITING_SESSION\<close> is \<open>SessionExpectation.WAITING_FOR_PUBLICATION\<close>, a name that \<open>JobStatus\<close> has too.\<close>

datatype SessionExpectation = EXPECTED_PUBLISHED | WAITING_SESSION | NO_SESSION

record session_check =
  check_date :: date
  expectation :: SessionExpectation

type_synonym calendar = "AssetClass \<Rightarrow> string \<Rightarrow> string option \<Rightarrow> date \<Rightarrow> date \<Rightarrow> exn + session_check list"

section \<open>The planner\<close>

record recovery_limits =
  max_lookback_days :: int
  max_sessions_per_chunk :: int

definition default_limits :: recovery_limits where
  "default_limits = \<lparr>max_lookback_days = 365, max_sessions_per_chunk = 20\<rparr>"

record recovery_chunk =
  chunk_start :: date
  chunk_end :: date
  session_dates :: "date list"

record recovery_plan =
  chunks :: "recovery_chunk list"
  waiting_for_publication :: "date list"
  skipped_no_session :: "date list"
  next_cursor :: "date option"

definition total_expected_sessions :: "recovery_plan \<Rightarrow> nat" where
  "total_expected_sessions p = sum_list (map (length \<circ> session_dates) (chunks p))"

definition plan_start :: "recovery_limits \<Rightarrow> date option \<Rightarrow> date \<Rightarrow> date" where
  "plan_start limits last_done today =
     (let earliest_allowed = today - max_lookback_days limits
      in case last_done of None \<Rightarrow> earliest_allowed | Some d \<Rightarrow> max (d + 1) earliest_allowed)"

definition dates_expected :: "SessionExpectation \<Rightarrow> session_check list \<Rightarrow> date list" where
  "dates_expected x checks = map check_date (filter (\<lambda>c. expectation c = x) checks)"

text \<open>\<open>range(0, len(xs), n)\<close> raises \<open>ValueError\<close> for step 0 and is empty for a negative step.\<close>

definition group_dates :: "int \<Rightarrow> date list \<Rightarrow> exn + date list list" where
  "group_dates n xs = (if n = 0 then Inl (ForeignError ''ValueError'')
     else if n < 0 then Inr [] else Inr (chunks_of (nat n) xs))"

definition chunk_of :: "date list \<Rightarrow> recovery_chunk" where
  "chunk_of ds = \<lparr>chunk_start = hd ds, chunk_end = last ds, session_dates = ds\<rparr>"

fun advance_cursor :: "date option \<Rightarrow> session_check list \<Rightarrow> date option" where
  "advance_cursor cursor [] = cursor"
| "advance_cursor cursor (c # checks) =
     (if expectation c \<noteq> NO_SESSION then cursor else advance_cursor (Some (check_date c)) checks)"

definition plan_checks :: "recovery_limits \<Rightarrow> date option \<Rightarrow> session_check list \<Rightarrow> exn + recovery_plan" where
  "plan_checks limits last_done checks =
     (case group_dates (max_sessions_per_chunk limits) (dates_expected EXPECTED_PUBLISHED checks) of
        Inl e \<Rightarrow> Inl e
      | Inr groups \<Rightarrow> Inr \<lparr>chunks = map chunk_of groups,
          waiting_for_publication = dates_expected WAITING_SESSION checks,
          skipped_no_session = dates_expected NO_SESSION checks,
          next_cursor = advance_cursor last_done checks\<rparr>)"

definition plan :: "calendar \<Rightarrow> recovery_limits \<Rightarrow> AssetClass \<Rightarrow> string \<Rightarrow> string option
    \<Rightarrow> date option \<Rightarrow> date \<Rightarrow> exn + recovery_plan" where
  "plan cal limits ac venue mic last_done today =
     (let start = plan_start limits last_done today
      in if today < start
         then Inr \<lparr>chunks = [], waiting_for_publication = [], skipped_no_session = [], next_cursor = last_done\<rparr>
         else case cal ac venue mic start today of
                Inl e \<Rightarrow> Inl e
              | Inr cs \<Rightarrow> plan_checks limits last_done (sort_key check_date cs))"

lemma plan_start_le: "last_done = Some d \<Longrightarrow> d < plan_start limits last_done today"
  by (simp add: plan_start_def Let_def)

definition dates_of :: "(date \<Rightarrow> SessionExpectation) \<Rightarrow> SessionExpectation \<Rightarrow> date list \<Rightarrow> date list" where
  "dates_of f x ds = filter (\<lambda>d. f d = x) ds"

lemma takeWhile_upto_last:
  "takeWhile f [a..b] \<noteq> [] \<Longrightarrow> a \<le> d \<Longrightarrow> d \<le> last (takeWhile f [a..b]) \<Longrightarrow> f (d :: int)"
proof (induction a b rule: upto.induct)
  case (1 a b)
  then have "a \<le> b" "f a" by (auto simp: upto.simps [of a b] split: if_splits)
  with "1.prems" "1.IH" show ?case
    by (cases "d = a") (auto simp: upto.simps [of a b] split: if_splits)
qed

lemma sorted_hd_le: "sorted xs \<Longrightarrow> x \<in> set xs \<Longrightarrow> hd xs \<le> x"
  by (cases xs) auto

lemma sorted_le_last: "sorted xs \<Longrightarrow> x \<in> set xs \<Longrightarrow> x \<le> last xs"
  by (induction xs) auto

section \<open>What the planner relies on\<close>

locale calendar_port =
  fixes cal :: calendar
    and classify :: "AssetClass \<Rightarrow> string \<Rightarrow> string option \<Rightarrow> date \<Rightarrow> SessionExpectation"
  assumes classifies: "cal ac venue mic a b = Inr cs \<Longrightarrow>
    mset cs = mset (map (\<lambda>d. \<lparr>check_date = d, expectation = classify ac venue mic d\<rparr>) [a..b])"
begin

lemma checks_sorted:
  assumes "cal ac venue mic a b = Inr cs"
  shows "sort_key check_date cs = map (\<lambda>d. \<lparr>check_date = d, expectation = classify ac venue mic d\<rparr>) [a..b]"
proof (rule sort_key_inj_key_eq)
  show "mset cs = mset (map (\<lambda>d. \<lparr>check_date = d, expectation = classify ac venue mic d\<rparr>) [a..b])"
    using assms by (rule classifies)
  then have "set cs = set (map (\<lambda>d. \<lparr>check_date = d, expectation = classify ac venue mic d\<rparr>) [a..b])"
    by (rule mset_eq_setD)
  then show "inj_on check_date (set cs)" by (auto simp: inj_on_def)
qed (simp add: o_def)

lemma one_check: "cal ac venue mic d d = Inr cs \<Longrightarrow> cs = [\<lparr>check_date = d, expectation = classify ac venue mic d\<rparr>]"
  using classifies [of ac venue mic d d cs] by simp

lemma dates_expected_checks:
  "dates_expected x (map (\<lambda>d. \<lparr>check_date = d, expectation = classify ac venue mic d\<rparr>) ds) = dates_of (classify ac venue mic) x ds"
  by (induction ds) (auto simp: dates_expected_def dates_of_def)

lemma advance_cursor_checks:
  "advance_cursor c (map (\<lambda>d. \<lparr>check_date = d, expectation = classify ac venue mic d\<rparr>) ds) =
     (let skip = takeWhile (\<lambda>d. classify ac venue mic d = NO_SESSION) ds in if skip = [] then c else Some (last skip))"
  by (induction ds arbitrary: c) (auto simp: Let_def)

text \<open>The plan as a function of the dates alone.\<close>

lemma plan_cases:
  assumes "plan cal limits ac venue mic last_done today = Inr p"
  obtains (idle) "today < plan_start limits last_done today" "chunks p = []" "waiting_for_publication p = []"
      "skipped_no_session p = []" "next_cursor p = last_done"
  | (work) groups where "plan_start limits last_done today \<le> today"
      "group_dates (max_sessions_per_chunk limits)
         (dates_of (classify ac venue mic) EXPECTED_PUBLISHED [plan_start limits last_done today..today]) = Inr groups"
      "chunks p = map chunk_of groups"
      "waiting_for_publication p = dates_of (classify ac venue mic) WAITING_SESSION [plan_start limits last_done today..today]"
      "skipped_no_session p = dates_of (classify ac venue mic) NO_SESSION [plan_start limits last_done today..today]"
      "next_cursor p = (let skip = takeWhile (\<lambda>d. classify ac venue mic d = NO_SESSION) [plan_start limits last_done today..today]
         in if skip = [] then last_done else Some (last skip))"
proof (cases "today < plan_start limits last_done today")
  case True
  with assms have "p = \<lparr>chunks = [], waiting_for_publication = [], skipped_no_session = [], next_cursor = last_done\<rparr>"
    by (simp add: plan_def Let_def)
  with True idle show ?thesis by simp
next
  case False
  let ?a = "plan_start limits last_done today"
  from assms False obtain cs where cs: "cal ac venue mic ?a today = Inr cs"
    "plan_checks limits last_done (sort_key check_date cs) = Inr p"
    by (auto simp: plan_def Let_def split: sum.splits)
  have sorted: "sort_key check_date cs
      = map (\<lambda>d. \<lparr>check_date = d, expectation = classify ac venue mic d\<rparr>) [?a..today]"
    by (rule checks_sorted [OF cs(1)])
  from cs(2) [unfolded sorted plan_checks_def dates_expected_checks advance_cursor_checks]
  obtain groups where g: "group_dates (max_sessions_per_chunk limits)
         (dates_of (classify ac venue mic) EXPECTED_PUBLISHED [?a..today]) = Inr groups"
    and p: "p = \<lparr>chunks = map chunk_of groups,
          waiting_for_publication = dates_of (classify ac venue mic) WAITING_SESSION [?a..today],
          skipped_no_session = dates_of (classify ac venue mic) NO_SESSION [?a..today],
          next_cursor = (let skip = takeWhile (\<lambda>d. classify ac venue mic d = NO_SESSION) [?a..today]
            in if skip = [] then last_done else Some (last skip))\<rparr>"
    by (auto split: sum.splits)
  show ?thesis by (rule work [OF _ g]) (use False p in simp_all)
qed

lemma chunk_dates:
  assumes "plan cal limits ac venue mic last_done today = Inr p" and "0 < max_sessions_per_chunk limits"
  shows "concat (map session_dates (chunks p))
      = dates_of (classify ac venue mic) EXPECTED_PUBLISHED [plan_start limits last_done today..today]"
    and "\<And>c. c \<in> set (chunks p) \<Longrightarrow> session_dates c \<noteq> []
      \<and> int (length (session_dates c)) \<le> max_sessions_per_chunk limits
      \<and> chunk_start c = hd (session_dates c) \<and> chunk_end c = last (session_dates c)"
proof -
  have sess: "session_dates \<circ> chunk_of = id" by (auto simp: chunk_of_def)
  from assms(1) show "concat (map session_dates (chunks p))
      = dates_of (classify ac venue mic) EXPECTED_PUBLISHED [plan_start limits last_done today..today]"
  proof (cases rule: plan_cases)
    case idle
    then show ?thesis by (simp add: dates_of_def)
  next
    case (work groups)
    then show ?thesis using assms(2) sess
      by (auto simp: group_dates_def concat_chunks_of split: if_splits)
  qed
  fix c assume c: "c \<in> set (chunks p)"
  from assms(1) show "session_dates c \<noteq> [] \<and> int (length (session_dates c)) \<le> max_sessions_per_chunk limits
      \<and> chunk_start c = hd (session_dates c) \<and> chunk_end c = last (session_dates c)"
  proof (cases rule: plan_cases)
    case idle
    with c show ?thesis by simp
  next
    case (work groups)
    with c assms(2) obtain g where
      "g \<in> set (chunks_of (nat (max_sessions_per_chunk limits))
          (dates_of (classify ac venue mic) EXPECTED_PUBLISHED [plan_start limits last_done today..today]))" "c = chunk_of g"
      by (auto simp: group_dates_def split: if_splits)
    with chunks_of_bounds [OF this(1)] assms(2) show ?thesis by (auto simp: chunk_of_def)
  qed
qed

lemma set_dates_of: "set (dates_of f x ds) = {d \<in> set ds. f d = x}"
  by (auto simp: dates_of_def)

lemma set_plan:
  assumes "plan cal limits ac venue mic last_done today = Inr p" and "0 < max_sessions_per_chunk limits"
  shows "set (concat (map session_dates (chunks p)))
      = {d. plan_start limits last_done today \<le> d \<and> d \<le> today \<and> classify ac venue mic d = EXPECTED_PUBLISHED}"
    and "set (waiting_for_publication p)
      = {d. plan_start limits last_done today \<le> d \<and> d \<le> today \<and> classify ac venue mic d = WAITING_SESSION}"
    and "set (skipped_no_session p)
      = {d. plan_start limits last_done today \<le> d \<and> d \<le> today \<and> classify ac venue mic d = NO_SESSION}"
proof -
  show "set (concat (map session_dates (chunks p)))
      = {d. plan_start limits last_done today \<le> d \<and> d \<le> today \<and> classify ac venue mic d = EXPECTED_PUBLISHED}"
    unfolding chunk_dates(1) [OF assms] by (auto simp: set_dates_of)
  from assms(1) show "set (waiting_for_publication p)
      = {d. plan_start limits last_done today \<le> d \<and> d \<le> today \<and> classify ac venue mic d = WAITING_SESSION}"
    by (cases rule: plan_cases) (auto simp: set_dates_of)
  from assms(1) show "set (skipped_no_session p)
      = {d. plan_start limits last_done today \<le> d \<and> d \<le> today \<and> classify ac venue mic d = NO_SESSION}"
    by (cases rule: plan_cases) (auto simp: set_dates_of)
qed

lemma chunks_sorted:
  assumes "plan cal limits ac venue mic last_done today = Inr p" and "0 < max_sessions_per_chunk limits"
  shows "sorted_wrt (<) (concat (map session_dates (chunks p)))"
  unfolding chunk_dates(1) [OF assms] dates_of_def by (intro sorted_wrt_filter) (simp add: strict_sorted_iff)

lemma chunk_sorted:
  assumes "plan cal limits ac venue mic last_done today = Inr p" and "0 < max_sessions_per_chunk limits"
    and "c \<in> set (chunks p)"
  shows "sorted (session_dates c)"
proof -
  obtain before after where "chunks p = before @ c # after" using assms(3) by (metis split_list)
  with chunks_sorted [OF assms(1,2)] show ?thesis by (simp add: sorted_wrt_append strict_sorted_imp_sorted)
qed

text \<open>A chunk holds all dates between its first and its last on which data is expected.\<close>

lemma chunk_exact:
  assumes "plan cal limits ac venue mic last_done today = Inr p" and "0 < max_sessions_per_chunk limits"
    and "c \<in> set (chunks p)"
  shows "session_dates c = dates_of (classify ac venue mic) EXPECTED_PUBLISHED [chunk_start c..chunk_end c]"
    and "{chunk_start c, chunk_end c} \<subseteq> set (session_dates c)"
    and "set (session_dates c) \<subseteq> {plan_start limits last_done today..today}"
proof -
  note b = chunk_dates(2) [OF assms]
  show ends: "{chunk_start c, chunk_end c} \<subseteq> set (session_dates c)" using b by auto
  obtain before after where "chunks p = before @ c # after" using assms(3) by (metis split_list)
  then obtain xs ys where split: "concat (map session_dates (chunks p)) = xs @ session_dates c @ ys" by simp
  have all: "set (xs @ session_dates c @ ys) = {d. plan_start limits last_done today \<le> d \<and> d \<le> today
      \<and> classify ac venue mic d = EXPECTED_PUBLISHED}"
    using set_plan(1) [OF assms(1,2)] by (simp only: split)
  then show inside: "set (session_dates c) \<subseteq> {plan_start limits last_done today..today}" by auto
  have order: "sorted_wrt (<) (xs @ session_dates c @ ys)" using chunks_sorted [OF assms(1,2)] by (simp only: split)
  have "d \<in> set (session_dates c) \<longleftrightarrow> chunk_start c \<le> d \<and> d \<le> chunk_end c \<and> classify ac venue mic d = EXPECTED_PUBLISHED" for d
  proof
    assume d: "d \<in> set (session_dates c)"
    have "sorted (session_dates c)" using order by (simp add: sorted_wrt_append strict_sorted_imp_sorted)
    with d b have "chunk_start c \<le> d \<and> d \<le> chunk_end c" by (auto simp: sorted_hd_le sorted_le_last)
    with d all show "chunk_start c \<le> d \<and> d \<le> chunk_end c \<and> classify ac venue mic d = EXPECTED_PUBLISHED" by auto
  next
    assume d: "chunk_start c \<le> d \<and> d \<le> chunk_end c \<and> classify ac venue mic d = EXPECTED_PUBLISHED"
    with ends inside have "d \<in> set (xs @ session_dates c @ ys)" unfolding all by auto
    moreover have "x < chunk_start c" if "x \<in> set xs" for x using order ends that by (auto simp: sorted_wrt_append)
    moreover have "chunk_end c < y" if "y \<in> set ys" for y using order ends that by (auto simp: sorted_wrt_append)
    ultimately show "d \<in> set (session_dates c)" using d by force
  qed
  then have "set (session_dates c) = set (dates_of (classify ac venue mic) EXPECTED_PUBLISHED [chunk_start c..chunk_end c])"
    by (auto simp: set_dates_of)
  moreover have "sorted_wrt (<) (session_dates c)" using order by (simp add: sorted_wrt_append)
  moreover have "sorted_wrt (<) (dates_of (classify ac venue mic) EXPECTED_PUBLISHED [chunk_start c..chunk_end c])"
    unfolding dates_of_def by (intro sorted_wrt_filter) (simp add: strict_sorted_iff)
  ultimately show "session_dates c = dates_of (classify ac venue mic) EXPECTED_PUBLISHED [chunk_start c..chunk_end c]"
    by (intro strict_sorted_equal) auto
qed

lemma waiting_dates:
  "plan cal limits ac venue mic last_done today = Inr p \<Longrightarrow> waiting_for_publication p
     = dates_of (classify ac venue mic) WAITING_SESSION [plan_start limits last_done today..today]"
  by (erule plan_cases) (simp_all add: dates_of_def)

lemma cursor_safe:
  assumes "plan cal limits ac venue mic last_done today = Inr p" and "next_cursor p = Some c"
    and "plan_start limits last_done today \<le> d" and "d \<le> c"
  shows "classify ac venue mic d = NO_SESSION"
  using assms(1)
proof (cases rule: plan_cases)
  case idle
  with assms(2-4) show ?thesis using plan_start_le [of last_done c limits today] by simp
next
  case (work groups)
  let ?a = "plan_start limits last_done today"
  let ?skip = "takeWhile (\<lambda>d. classify ac venue mic d = NO_SESSION) [?a..today]"
  show ?thesis
  proof (cases "?skip = []")
    case True
    with work(6) assms(2-4) show ?thesis using plan_start_le [of last_done c limits today] by (simp add: Let_def)
  next
    case False
    with work(6) assms(2) have c: "c = last ?skip" by (simp add: Let_def)
    from takeWhile_upto_last [OF False assms(3)] assms(4) c show ?thesis by simp
  qed
qed

lemma cursor_advances:
  assumes "plan cal limits ac venue mic (Some l) today = Inr p"
  shows "\<exists>c. next_cursor p = Some c \<and> l \<le> c \<and> c \<le> max l today"
  using assms
proof (cases rule: plan_cases)
  case (work groups)
  let ?a = "plan_start limits (Some l) today"
  let ?skip = "takeWhile (\<lambda>d. classify ac venue mic d = NO_SESSION) [?a..today]"
  show ?thesis
  proof (cases "?skip = []")
    case False
    then have "last ?skip \<in> set [?a..today]" using last_in_set set_takeWhileD by metis
    then show ?thesis using False work(6) plan_start_le [of "Some l" l limits today] by (simp add: Let_def)
  qed (use work(6) in \<open>simp add: Let_def\<close>)
qed simp

text \<open>Planning again from the cursor finds the same work.\<close>

lemma resume_same:
  assumes "plan cal limits ac venue mic last_done today = Inr p"
    and "plan cal limits ac venue mic (next_cursor p) today = Inr p'" and "0 < max_sessions_per_chunk limits"
  shows "concat (map session_dates (chunks p')) = concat (map session_dates (chunks p))
    \<and> set (waiting_for_publication p') = set (waiting_for_publication p)"
proof -
  let ?a = "plan_start limits last_done today" and ?b = "plan_start limits (next_cursor p) today"
  have le: "?a \<le> ?b"
  proof (cases last_done)
    case None
    then show ?thesis by (simp add: plan_start_def Let_def split: option.splits)
  next
    case (Some l)
    with cursor_advances [of limits ac venue mic l today p] assms(1) show ?thesis
      by (auto simp: plan_start_def Let_def)
  qed
  have skip: "classify ac venue mic d = NO_SESSION" if "?a \<le> d" "d < ?b" "d \<le> today" for d
  proof (cases "next_cursor p")
    case None
    with that show ?thesis by (cases last_done) (auto simp: plan_start_def Let_def split: option.splits)
  next
    case (Some c)
    have "d \<le> c"
      using that Some by (cases last_done) (auto simp: plan_start_def Let_def max_def split: if_splits)
    then show ?thesis using cursor_safe [OF assms(1) Some] that by blast
  qed
  have same: "{d. ?b \<le> d \<and> d \<le> today \<and> classify ac venue mic d = x}
      = {d. ?a \<le> d \<and> d \<le> today \<and> classify ac venue mic d = x}" if "x \<noteq> NO_SESSION" for x
    using le skip that by (auto simp: not_less) (metis le_less_linear)
  have "set (concat (map session_dates (chunks p'))) = set (concat (map session_dates (chunks p)))"
    unfolding set_plan(1) [OF assms(1,3)] set_plan(1) [OF assms(2,3)] by (rule same) simp
  then have "concat (map session_dates (chunks p')) = concat (map session_dates (chunks p))"
    using chunks_sorted [OF assms(1,3)] chunks_sorted [OF assms(2,3)] by (metis strict_sorted_equal)
  moreover have "set (waiting_for_publication p') = set (waiting_for_publication p)"
    unfolding set_plan(2) [OF assms(1,3)] set_plan(2) [OF assms(2,3)] by (rule same) simp
  ultimately show ?thesis by blast
qed

end

end
