(* ===== verification/Ports.thy ===== *)
theory Ports
  imports Planning
begin

text \<open>
  \<open>ports/historical.py\<close>, \<open>ports/quota.py\<close> and \<open>ports/discovery.py\<close>: the data that crosses the
  ports and, as locales, what the ports' documentation promises. Provider code is not part of the
  model: a port is a function, a quota port one over a state of its own. The adapter that the
  repository has is modelled in \<open>Adapters\<close>, where the locales are interpreted.
\<close>

section \<open>Historical prices\<close>

record raw_observation =
  raw_external_listing_id :: string
  raw_session_date :: date
  raw_observation_type :: ObservationType
  raw_currency :: string
  raw_close :: decimal
  raw_open :: "decimal option"
  raw_high :: "decimal option"
  raw_low :: "decimal option"
  raw_adjusted_close :: "decimal option"

text \<open>
  \<open>fetch_range\<close> returns observations of the identifier it was asked for, inside the range, at most
  one per date, with a currency code and a positive finite close.
\<close>

definition currency_code :: "string \<Rightarrow> bool" where
  "currency_code c \<longleftrightarrow> length c = 3 \<and> list_all is_upper c"

definition positive_close :: "decimal \<Rightarrow> bool" where
  "positive_close c \<longleftrightarrow> (case c of Fin r \<Rightarrow> 0 < r | _ \<Rightarrow> False)"

locale historical_port =
  fixes fetch :: "string \<Rightarrow> date \<Rightarrow> date \<Rightarrow> raw_observation list"
  assumes fetched: "r \<in> set (fetch ext a b) \<Longrightarrow> raw_external_listing_id r = ext
      \<and> a \<le> raw_session_date r \<and> raw_session_date r \<le> b \<and> currency_code (raw_currency r)
      \<and> positive_close (raw_close r)"
    and one_per_date: "distinct (map raw_session_date (fetch ext a b))"
begin

lemma fetch_bounded: "int (length (fetch ext a b)) \<le> max 0 (b - a + 1)"
proof -
  have "set (map raw_session_date (fetch ext a b)) \<subseteq> {a..b}" using fetched by fastforce
  then have "card (set (map raw_session_date (fetch ext a b))) \<le> card {a..b}" by (intro card_mono) auto
  then show ?thesis using distinct_card [OF one_per_date] by simp
qed

end

section \<open>Quota\<close>

record quota_status =
  qs_source :: string
  qs_remaining :: int
  qs_limit :: int
  qs_reset_at :: "datetime option"

definition exhausted :: "quota_status \<Rightarrow> bool" where
  "exhausted st \<longleftrightarrow> qs_remaining st \<le> 0"

text \<open>\<open>check\<close> has no side effect; either operation may raise.\<close>

record 'q quota_port =
  quota_check :: "string \<Rightarrow> 'q \<Rightarrow> exn + quota_status"
  quota_consume :: "string \<Rightarrow> int \<Rightarrow> 'q \<Rightarrow> (exn + quota_status) \<times> 'q"

text \<open>Consuming never goes below zero, refuses once the quota is reached, and leaves other sources.\<close>

locale quota_laws =
  fixes port :: "'q quota_port"
  assumes never_negative: "quota_check port source q = Inr st \<Longrightarrow> 0 \<le> qs_remaining st"
    and refuses: "quota_check port source q = Inr st \<Longrightarrow> exhausted st
      \<Longrightarrow> quota_consume port source cost q = (Inr st, q)"
    and takes: "quota_check port source q = Inr st \<Longrightarrow> \<not> exhausted st \<Longrightarrow> 0 \<le> cost
      \<Longrightarrow> \<exists>st' q'. quota_consume port source cost q = (Inr st', q') \<and> quota_check port source q' = Inr st'
            \<and> qs_remaining st' = max 0 (qs_remaining st - cost)"
    and others: "quota_consume port source cost q = (r, q') \<Longrightarrow> other \<noteq> source
      \<Longrightarrow> quota_check port other q' = quota_check port other q"
begin

text \<open>After as many units as remain, the quota is exhausted and stays so.\<close>

lemma spend:
  "quota_check port source q = Inr st \<Longrightarrow>
     \<exists>st'. quota_check port source (((\<lambda>q. snd (quota_consume port source 1 q)) ^^ n) q) = Inr st'
       \<and> qs_remaining st' = max 0 (qs_remaining st - int n)"
proof (induction n arbitrary: q st)
  case 0
  then show ?case using never_negative by force
next
  case (Suc n)
  show ?case
  proof (cases "exhausted st")
    case True
    with Suc.prems have "snd (quota_consume port source 1 q) = q" by (simp add: refuses)
    moreover have "qs_remaining st = 0" using True never_negative [OF Suc.prems] by (simp add: exhausted_def)
    ultimately show ?thesis using Suc.IH [OF Suc.prems] by (simp add: funpow_Suc_right del: funpow.simps)
  next
    case False
    with takes [OF Suc.prems, of 1] obtain st1 q1 where
      q1: "quota_consume port source 1 q = (Inr st1, q1)" "quota_check port source q1 = Inr st1"
        "qs_remaining st1 = max 0 (qs_remaining st - 1)" by auto
    from Suc.IH [OF q1(2)] q1(1,3) False show ?thesis
      by (auto simp: funpow_Suc_right exhausted_def simp del: funpow.simps)
  qed
qed

end

section \<open>Discovery\<close>

record discovery_query =
  dq_query :: string
  dq_asset_class :: "AssetClass option"
  dq_currency :: "string option"
  dq_mic :: "string option"

record discovered_identity =
  di_identity_source :: string
  di_external_id :: string
  di_name :: string
  di_asset_class :: AssetClass
  di_ticker :: string
  di_venue :: string
  di_currency :: string
  di_isin :: "string option"
  di_mic :: "string option"

end
