(* ===== verification/Adapters.thy ===== *)
theory Adapters
  imports Ports
begin

text \<open>
  \<open>adapters/fake/provider.py\<close> and \<open>adapters/registry.py\<close>: the deterministic provider, which
  interprets the calendar, the historical and the quota port, and the registry of capabilities with
  its calendar routes. The number in \<open>[0, 1]\<close> that \<open>_deterministic_price\<close> takes from SHA-256 and a
  float division is the parameter \<open>ratio\<close>; its scaling and rounding are modelled.
\<close>

section \<open>The fake provider\<close>

definition fake_source :: string where
  "fake_source = ''fake''"

definition fake_identities :: "discovered_identity list" where
  "fake_identities =
     [\<lparr>di_identity_source = fake_source, di_external_id = ''FAKE-DE0007164600-XETR'', di_name = ''SAP SE'',
       di_asset_class = EQUITY, di_ticker = ''SAP'', di_venue = ''XETR'', di_currency = ''EUR'',
       di_isin = Some ''DE0007164600'', di_mic = Some ''XETR''\<rparr>,
      \<lparr>di_identity_source = fake_source, di_external_id = ''FAKE-DE0007164600-XPAR'', di_name = ''SAP SE'',
       di_asset_class = EQUITY, di_ticker = ''SAP'', di_venue = ''XPAR'', di_currency = ''EUR'',
       di_isin = Some ''DE0007164600'', di_mic = Some ''XPAR''\<rparr>,
      \<lparr>di_identity_source = fake_source, di_external_id = ''FAKE-BTC-KRAKEN'', di_name = ''Bitcoin'',
       di_asset_class = CRYPTO, di_ticker = ''BTC'', di_venue = ''KRAKEN'', di_currency = ''EUR'',
       di_isin = None, di_mic = None\<rparr>]"

definition fake_search :: "discovery_query \<Rightarrow> discovered_identity list" where
  "fake_search q =
     (let needle = upper (strip (dq_query q));
          found = filter (\<lambda>i. contains needle (case di_isin i of None \<Rightarrow> [] | Some x \<Rightarrow> x) \<or> needle = di_ticker i)
                    fake_identities;
          by_class = (case dq_asset_class q of None \<Rightarrow> found | Some x \<Rightarrow> filter (\<lambda>i. di_asset_class i = x) found);
          by_currency = (case dq_currency q of None \<Rightarrow> by_class
            | Some x \<Rightarrow> filter (\<lambda>i. di_currency i = upper x) by_class)
      in case dq_mic q of None \<Rightarrow> by_currency | Some x \<Rightarrow> filter (\<lambda>i. di_mic i = Some x) by_currency)"

text \<open>\<open>quantize(Decimal("0.01"), ROUND_HALF_UP)\<close> of a positive value.\<close>

definition quantize_cents :: "rat \<Rightarrow> rat" where
  "quantize_cents x = of_int \<lfloor>x * 100 + 1 / 2\<rfloor> / 100"

definition deterministic_price :: "(string \<Rightarrow> rat) \<Rightarrow> string \<Rightarrow> rat \<Rightarrow> rat \<Rightarrow> rat" where
  "deterministic_price ratio seed base spread = quantize_cents (base + spread * ratio seed)"

definition fake_observation :: "(string \<Rightarrow> rat) \<Rightarrow> string \<Rightarrow> date \<Rightarrow> raw_observation" where
  "fake_observation ratio ext d =
     (let close = Fin (deterministic_price ratio (ext @ ''|'' @ isoformat d) 10 90)
      in \<lparr>raw_external_listing_id = ext, raw_session_date = d, raw_observation_type = EOD_CLOSE,
          raw_currency = ''EUR'', raw_close = close, raw_open = Some close, raw_high = Some close,
          raw_low = Some close, raw_adjusted_close = Some close\<rparr>)"

definition fake_fetch_range :: "(string \<Rightarrow> rat) \<Rightarrow> string \<Rightarrow> date \<Rightarrow> date \<Rightarrow> raw_observation list" where
  "fake_fetch_range ratio ext a b = map (fake_observation ratio ext) (filter (\<lambda>d. weekday d < 5) [a..b])"

definition fake_expectation :: "AssetClass \<Rightarrow> date \<Rightarrow> SessionExpectation" where
  "fake_expectation ac d =
     (if ac = CRYPTO then EXPECTED_PUBLISHED
      else if 5 \<le> weekday d then NO_SESSION
      else if ac = FUND \<and> weekday d = 4 then WAITING_SESSION
      else EXPECTED_PUBLISHED)"

definition fake_sessions_in_range :: calendar where
  "fake_sessions_in_range ac venue mic a b =
     Inr (map (\<lambda>d. \<lparr>check_date = d, expectation = fake_expectation ac d\<rparr>) [a..b])"

record quota_book =
  book_limit :: int
  book_consumed :: "string \<Rightarrow> int option"

definition consumed_of :: "quota_book \<Rightarrow> string \<Rightarrow> int" where
  "consumed_of book source = (case book_consumed book source of None \<Rightarrow> 0 | Some n \<Rightarrow> n)"

definition fake_check :: "string \<Rightarrow> quota_book \<Rightarrow> quota_status" where
  "fake_check source book =
     \<lparr>qs_source = source, qs_remaining = max (book_limit book - consumed_of book source) 0,
      qs_limit = book_limit book, qs_reset_at = None\<rparr>"

definition fake_consume :: "string \<Rightarrow> int \<Rightarrow> quota_book \<Rightarrow> quota_status \<times> quota_book" where
  "fake_consume source cost book =
     (if exhausted (fake_check source book) then (fake_check source book, book)
      else let book' = book\<lparr>book_consumed := (book_consumed book)(source \<mapsto> consumed_of book source + cost)\<rparr>
           in (fake_check source book', book'))"

definition fake_quota :: "quota_book quota_port" where
  "fake_quota = \<lparr>quota_check = (\<lambda>source book. Inr (fake_check source book)),
     quota_consume = (\<lambda>source cost book. case fake_consume source cost book of (st, b) \<Rightarrow> (Inr st, b))\<rparr>"

section \<open>The fake provider keeps the ports' laws\<close>

interpretation fake_calendar: calendar_port fake_sessions_in_range "\<lambda>ac venue mic d. fake_expectation ac d"
  by unfold_locales (auto simp: fake_sessions_in_range_def)

lemma fake_price_positive:
  assumes "0 \<le> ratio seed"
  shows "0 < deterministic_price ratio seed 10 90"
proof -
  have "(1::rat) \<le> (10 + 90 * ratio seed) * 100 + 1 / 2" using assms by simp
  then have "1 \<le> \<lfloor>(10 + 90 * ratio seed) * 100 + 1 / 2\<rfloor>" by (simp only: one_le_floor)
  then show ?thesis by (simp add: deterministic_price_def quantize_cents_def)
qed

lemma fake_historical:
  assumes "\<And>seed. 0 \<le> ratio seed"
  shows "historical_port (fake_fetch_range ratio)"
proof
  fix r ext a b
  assume "r \<in> set (fake_fetch_range ratio ext a b)"
  then obtain d where "a \<le> d" "d \<le> b" "r = fake_observation ratio ext d"
    by (auto simp: fake_fetch_range_def)
  then show "raw_external_listing_id r = ext \<and> a \<le> raw_session_date r \<and> raw_session_date r \<le> b
      \<and> currency_code (raw_currency r) \<and> positive_close (raw_close r)"
    using fake_price_positive assms
    by (simp add: fake_observation_def Let_def positive_close_def currency_code_def is_upper_def)
next
  fix ext a b
  have "map raw_session_date (fake_fetch_range ratio ext a b) = filter (\<lambda>d. weekday d < 5) [a..b]"
    by (simp add: fake_fetch_range_def fake_observation_def Let_def o_def)
  then show "distinct (map raw_session_date (fake_fetch_range ratio ext a b))" by simp
qed

text \<open>The price when every digest is zero; the laws hold of every ratio that is not negative.\<close>

interpretation fake_prices: historical_port "fake_fetch_range (\<lambda>seed. 0)"
  by (rule fake_historical) simp

interpretation fake_quota_laws: quota_laws fake_quota
  by unfold_locales
    (auto simp: fake_quota_def fake_check_def fake_consume_def exhausted_def consumed_of_def Let_def
      split: if_splits)

section \<open>The registry\<close>

text \<open>
  A registered object has some of the capabilities; each registry is a dictionary from source to
  the object's method of that capability. The methods themselves are type variables.
\<close>

record ('d, 'm, 'h, 'l, 'c, 'q) adapter =
  search :: "'d option"
  get_metadata :: "'m option"
  fetch_range :: "'h option"
  fetch_latest :: "'l option"
  sessions_in_range :: "'c option"
  quota_methods :: "'q option"

record ('d, 'm, 'h, 'l, 'c, 'q) registries =
  discovery_adapters :: "(string \<times> 'd) list"
  metadata_adapters :: "(string \<times> 'm) list"
  historical_adapters :: "(string \<times> 'h) list"
  latest_adapters :: "(string \<times> 'l) list"
  calendar_adapters :: "(string \<times> 'c) list"
  quota_adapters :: "(string \<times> 'q) list"

definition register_if :: "string \<Rightarrow> 'a option \<Rightarrow> (string \<times> 'a) list \<Rightarrow> (string \<times> 'a) list" where
  "register_if key m d = (case m of None \<Rightarrow> d | Some v \<Rightarrow> AList.update key v d)"

definition view_setitem :: "string \<Rightarrow> ('d, 'm, 'h, 'l, 'c, 'q) adapter
    \<Rightarrow> ('d, 'm, 'h, 'l, 'c, 'q) registries \<Rightarrow> ('d, 'm, 'h, 'l, 'c, 'q) registries" where
  "view_setitem key v R = R\<lparr>
     discovery_adapters := register_if key (search v) (discovery_adapters R),
     metadata_adapters := register_if key (get_metadata v) (metadata_adapters R),
     historical_adapters := register_if key (fetch_range v) (historical_adapters R),
     latest_adapters := register_if key (fetch_latest v) (latest_adapters R),
     calendar_adapters := register_if key (sessions_in_range v) (calendar_adapters R),
     quota_adapters := register_if key (quota_methods v) (quota_adapters R)\<rparr>"

text \<open>\<open>None\<close> is \<open>KeyError\<close>; what is found is popped from every registry.\<close>

definition registered :: "string \<Rightarrow> ('d, 'm, 'h, 'l, 'c, 'q) registries \<Rightarrow> bool" where
  "registered key R \<longleftrightarrow>
     map_of (discovery_adapters R) key \<noteq> None \<or> map_of (metadata_adapters R) key \<noteq> None
     \<or> map_of (historical_adapters R) key \<noteq> None \<or> map_of (latest_adapters R) key \<noteq> None
     \<or> map_of (calendar_adapters R) key \<noteq> None \<or> map_of (quota_adapters R) key \<noteq> None"

definition view_delitem :: "string \<Rightarrow> ('d, 'm, 'h, 'l, 'c, 'q) registries \<Rightarrow> ('d, 'm, 'h, 'l, 'c, 'q) registries option" where
  "view_delitem key R =
     (if registered key R
      then Some (R\<lparr>discovery_adapters := AList.delete key (discovery_adapters R),
        metadata_adapters := AList.delete key (metadata_adapters R),
        historical_adapters := AList.delete key (historical_adapters R),
        latest_adapters := AList.delete key (latest_adapters R),
        calendar_adapters := AList.delete key (calendar_adapters R),
        quota_adapters := AList.delete key (quota_adapters R)\<rparr>)
      else None)"

definition view_iter :: "('d, 'm, 'h, 'l, 'c, 'q) registries \<Rightarrow> string set" where
  "view_iter R = set (map fst (discovery_adapters R)) \<union> set (map fst (historical_adapters R))
     \<union> set (map fst (calendar_adapters R))"

definition view_len :: "('d, 'm, 'h, 'l, 'c, 'q) registries \<Rightarrow> nat" where
  "view_len R = card (view_iter R)"

text \<open>\<open>view[key]\<close>: the object as the first registry that has the key knows it; \<open>None\<close> is \<open>KeyError\<close>.\<close>

datatype ('d, 'h, 'c, 'q) view_entry = As_Historical 'h | As_Discovery 'd | As_Calendar 'c | As_Quota 'q

definition view_getitem :: "string \<Rightarrow> ('d, 'm, 'h, 'l, 'c, 'q) registries \<Rightarrow> ('d, 'h, 'c, 'q) view_entry option" where
  "view_getitem key R =
     (case map_of (historical_adapters R) key of Some v \<Rightarrow> Some (As_Historical v) | None \<Rightarrow>
     (case map_of (discovery_adapters R) key of Some v \<Rightarrow> Some (As_Discovery v) | None \<Rightarrow>
     (case map_of (calendar_adapters R) key of Some v \<Rightarrow> Some (As_Calendar v) | None \<Rightarrow>
     map_option As_Quota (map_of (quota_adapters R) key))))"

text \<open>
  What is set with a price history is read back, what is deleted is gone, and what is iterated is there.
  The converse fails: a source with nothing but a quota is read and not iterated, and one with nothing but
  metadata is deleted and not read; so the view is not the mapping that its base class takes it for.
\<close>

lemma view_get_set:
  assumes "fetch_range v = Some h"
  shows "view_getitem key (view_setitem key v R) = Some (As_Historical h)"
  using assms by (simp add: view_getitem_def view_setitem_def register_if_def update_conv')

lemma view_get_deleted: "view_delitem key R = Some R' \<Longrightarrow> view_getitem key R' = None"
  by (auto simp: view_delitem_def view_getitem_def delete_conv' split: if_splits)

lemma view_iter_present: "key \<in> view_iter R \<Longrightarrow> view_getitem key R \<noteq> None"
  by (auto simp: view_iter_def view_getitem_def map_of_eq_None_iff split: option.splits)

lemma view_not_a_mapping:
  assumes "view_getitem key R = None" and "search v = None" and "fetch_range v = None" and "sessions_in_range v = None"
  shows "quota_methods v = Some q \<Longrightarrow> view_getitem key (view_setitem key v R) = Some (As_Quota q)
      \<and> key \<notin> view_iter (view_setitem key v R)"
    and "quota_methods v = None \<Longrightarrow> get_metadata v = Some m \<Longrightarrow> view_getitem key (view_setitem key v R) = None
      \<and> view_delitem key (view_setitem key v R) \<noteq> None"
  using assms
  by (auto simp: view_getitem_def view_setitem_def register_if_def view_iter_def view_delitem_def registered_def update_conv'
      map_of_eq_None_iff split: option.splits)

definition get_port :: "(string \<times> 'p) list \<Rightarrow> string \<Rightarrow> string \<Rightarrow> exn + 'p" where
  "get_port registry source capability =
     (case map_of registry source of None \<Rightarrow> Inl (UnknownSourceError source capability) | Some p \<Rightarrow> Inr p)"

definition get_discovery_port :: "('d, 'm, 'h, 'l, 'c, 'q) registries \<Rightarrow> string \<Rightarrow> exn + 'd" where
  "get_discovery_port R source = get_port (discovery_adapters R) source ''discovery''"

definition get_metadata_port :: "('d, 'm, 'h, 'l, 'c, 'q) registries \<Rightarrow> string \<Rightarrow> exn + 'm" where
  "get_metadata_port R source = get_port (metadata_adapters R) source ''descriptive metadata''"

definition get_historical_price_port :: "('d, 'm, 'h, 'l, 'c, 'q) registries \<Rightarrow> string \<Rightarrow> exn + 'h" where
  "get_historical_price_port R source = get_port (historical_adapters R) source ''historical EOD''"

definition get_latest_price_port :: "('d, 'm, 'h, 'l, 'c, 'q) registries \<Rightarrow> string \<Rightarrow> exn + 'l" where
  "get_latest_price_port R source = get_port (latest_adapters R) source ''latest price''"

definition get_quota_port :: "('d, 'm, 'h, 'l, 'c, 'q) registries \<Rightarrow> string \<Rightarrow> exn + 'q" where
  "get_quota_port R source = get_port (quota_adapters R) source ''quota''"

definition get_calendar_port :: "('d, 'm, 'h, 'l, 'c, 'q) registries \<Rightarrow> string \<Rightarrow> exn + 'c" where
  "get_calendar_port R source = get_port (calendar_adapters R) source ''calendar''"

definition route_keys :: "string option \<Rightarrow> string \<Rightarrow> string list" where
  "route_keys mic venue =
     filter (\<lambda>k. k \<noteq> []) [upper (case mic of None \<Rightarrow> [] | Some m \<Rightarrow> m), upper venue, ''*'']"

fun first_route :: "(string \<times> string) list \<Rightarrow> string list \<Rightarrow> string option" where
  "first_route routes [] = None"
| "first_route routes (k # ks) = (case map_of routes k of Some source \<Rightarrow> Some source | None \<Rightarrow> first_route routes ks)"

definition get_calendar_for_listing :: "(string \<times> string) list \<Rightarrow> ('d, 'm, 'h, 'l, 'c, 'q) registries
    \<Rightarrow> string option \<Rightarrow> string \<Rightarrow> exn + 'c" where
  "get_calendar_for_listing routes R mic venue =
     (case first_route routes (route_keys mic venue) of
        Some source \<Rightarrow> get_calendar_port R source
      | None \<Rightarrow> Inl (CalendarUnavailableError (case mic of None \<Rightarrow> [] | Some m \<Rightarrow> m) venue))"

text \<open>The registries of the module: the fake provider in all but two of them, and its route.\<close>

definition fake_registries :: "'d \<Rightarrow> 'h \<Rightarrow> 'c \<Rightarrow> 'q \<Rightarrow> ('d, 'm, 'h, 'l, 'c, 'q) registries" where
  "fake_registries d h c q = \<lparr>discovery_adapters = [(fake_source, d)], metadata_adapters = [],
     historical_adapters = [(fake_source, h)], latest_adapters = [],
     calendar_adapters = [(fake_source, c)], quota_adapters = [(fake_source, q)]\<rparr>"

definition calendar_routes :: "(string \<times> string) list" where
  "calendar_routes = [(''*'', fake_source)]"

section \<open>Registering, deleting and routing\<close>

lemma map_of_register [simp]:
  "map_of (register_if key m d) = (case m of None \<Rightarrow> map_of d | Some v \<Rightarrow> (map_of d)(key \<mapsto> v))"
  by (auto simp: register_if_def update_conv' split: option.split)

lemma get_port_update: "get_port (AList.update key v d) source cap = (if source = key then Inr v else get_port d source cap)"
  by (simp add: get_port_def update_conv')

lemma route_order:
  "first_route routes (route_keys (Some m) v) = Some source \<longleftrightarrow>
     (if upper m \<noteq> [] \<and> map_of routes (upper m) \<noteq> None then map_of routes (upper m) = Some source
      else if upper v \<noteq> [] \<and> map_of routes (upper v) \<noteq> None then map_of routes (upper v) = Some source
      else map_of routes ''*'' = Some source)"
  by (auto simp: route_keys_def split: option.splits)

lemma deleted_not_registered: "view_delitem key R = Some R' \<Longrightarrow> \<not> registered key R'"
  by (auto simp: view_delitem_def registered_def delete_conv' split: if_splits)

lemma setitem_registers:
  assumes "view_setitem key v R = R'"
  shows "get_historical_price_port R' key = (case fetch_range v of Some h \<Rightarrow> Inr h | None \<Rightarrow> get_historical_price_port R key)"
    and "get_quota_port R' key = (case quota_methods v of Some q \<Rightarrow> Inr q | None \<Rightarrow> get_quota_port R key)"
    and "source \<noteq> key \<Longrightarrow> get_historical_price_port R' source = get_historical_price_port R source"
  using assms by (auto simp: view_setitem_def get_historical_price_port_def get_quota_port_def get_port_def
      split: option.splits)

end
