(* ===== verification/Validation.thy ===== *)
theory Validation
  imports Adapters
begin

text \<open>
  \<open>domain/ingestion/validation.py\<close>, \<open>error_codes.py\<close> and \<open>provider_execution.py\<close>: what the runner
  makes of an answer of a provider, and the process in which it asks for one. What the child
  process does is a parameter (\<open>child_run\<close>): when its action ends and how, and the size of the
  message that carries the result. \<open>capacity\<close> is the size of a pipe's buffer: a message that does not
  fit blocks its writer until somebody reads. The message of a failed action always fits.
\<close>

section \<open>Validation of a row\<close>

text \<open>\<open>^[A-Z]{3}$\<close> with \<open>match\<close>: the dollar sign matches also before a final line feed.\<close>

definition matches_currency :: "string \<Rightarrow> bool" where
  "matches_currency c \<longleftrightarrow> 3 \<le> length c \<and> list_all is_upper (take 3 c) \<and> drop 3 c \<in> {[], [CHR 0x0A]}"

text \<open>\<open>close <= 0 or not close.is_finite()\<close>; the comparison raises on a NaN.\<close>

fun close_unusable :: "decimal \<Rightarrow> exn + bool" where
  "close_unusable (Fin r) = Inr (r \<le> 0)"
| "close_unusable PosInf = Inr True"
| "close_unusable NegInf = Inr True"
| "close_unusable NaN = Inl InvalidOperation"

definition validate_raw_observation :: "raw_observation \<Rightarrow> string \<Rightarrow> date \<Rightarrow> date \<Rightarrow> exn + unit" where
  "validate_raw_observation raw expected_external_listing_id expected_start expected_end =
     (if raw_external_listing_id raw \<noteq> expected_external_listing_id
      then Inl (MalformedObservationError ''external_listing_id does not match the requested one.'')
      else if \<not> (expected_start \<le> raw_session_date raw \<and> raw_session_date raw \<le> expected_end)
      then Inl (MalformedObservationError ''session_date is outside the requested range.'')
      else if \<not> matches_currency (raw_currency raw)
      then Inl (MalformedObservationError ''currency is not a 3-letter ISO-4217 code.'')
      else case close_unusable (raw_close raw) of
             Inl e \<Rightarrow> Inl e
           | Inr True \<Rightarrow> Inl (MalformedObservationError ''close is not a positive, finite decimal value.'')
           | Inr False \<Rightarrow> Inr ())"

definition well_formed :: "string \<Rightarrow> date \<Rightarrow> date \<Rightarrow> raw_observation \<Rightarrow> bool" where
  "well_formed ext a b raw \<longleftrightarrow> raw_external_listing_id raw = ext \<and> a \<le> raw_session_date raw
     \<and> raw_session_date raw \<le> b \<and> matches_currency (raw_currency raw) \<and> positive_close (raw_close raw)"

lemma validate_Inr_iff: "validate_raw_observation raw ext a b = Inr () \<longleftrightarrow> well_formed ext a b raw"
  by (cases "raw_close raw")
    (auto simp: validate_raw_observation_def well_formed_def positive_close_def split: bool.splits if_splits)

text \<open>A row of which the check decides nothing: all is in order but the close, which is not a number.\<close>

definition undecided :: "string \<Rightarrow> date \<Rightarrow> date \<Rightarrow> raw_observation \<Rightarrow> bool" where
  "undecided ext a b raw \<longleftrightarrow> raw_external_listing_id raw = ext \<and> a \<le> raw_session_date raw
     \<and> raw_session_date raw \<le> b \<and> matches_currency (raw_currency raw) \<and> raw_close raw = NaN"

lemma validate_undecided_iff: "validate_raw_observation raw ext a b = Inl InvalidOperation \<longleftrightarrow> undecided ext a b raw"
  by (cases "raw_close raw") (auto simp: validate_raw_observation_def undecided_def split: if_splits bool.splits)

lemma validate_cases:
  obtains (valid) "validate_raw_observation raw ext a b = Inr ()"
  | (malformed) m where "validate_raw_observation raw ext a b = Inl (MalformedObservationError m)"
  | (crash) "validate_raw_observation raw ext a b = Inl InvalidOperation" "raw_close raw = NaN"
proof (cases "validate_raw_observation raw ext a b")
  case (Inl e)
  then have "(\<exists>m. e = MalformedObservationError m) \<or> e = InvalidOperation \<and> raw_close raw = NaN"
    by (cases "raw_close raw")
      (auto simp: validate_raw_observation_def split: if_splits bool.splits)
  with Inl malformed crash show ?thesis by blast
qed (simp add: valid)

lemma matches_currency_code: "currency_code c \<Longrightarrow> matches_currency c"
  by (simp add: currency_code_def matches_currency_def)

lemma matches_currency_iff: "matches_currency c \<longleftrightarrow> (\<exists>d. currency_code d \<and> (c = d \<or> c = d @ [CHR 0x0A]))"
proof
  assume m: "matches_currency c"
  then have "currency_code (take 3 c)" by (simp add: matches_currency_def currency_code_def)
  moreover have "c = take 3 c \<or> c = take 3 c @ [CHR 0x0A]"
  proof (cases "drop 3 c = []")
    case False
    with m have "drop 3 c = [CHR 0x0A]" by (simp add: matches_currency_def)
    then show ?thesis by (metis append_take_drop_id)
  qed simp
  ultimately show "\<exists>d. currency_code d \<and> (c = d \<or> c = d @ [CHR 0x0A])" by blast
qed (auto simp: currency_code_def matches_currency_def)

text \<open>A provider that keeps the port's promise never has a row rejected.\<close>

context historical_port
begin

lemma all_accepted: "r \<in> set (fetch ext a b) \<Longrightarrow> validate_raw_observation r ext a b = Inr ()"
  using fetched [of r ext a b] by (simp add: validate_Inr_iff well_formed_def matches_currency_code)

end

section \<open>Error codes\<close>

definition UNKNOWN_SOURCE :: string where "UNKNOWN_SOURCE = ''unknown_source''"
definition ADAPTER_ERROR :: string where "ADAPTER_ERROR = ''adapter_error''"
definition PROVIDER_TIMEOUT :: string where "PROVIDER_TIMEOUT = ''provider_timeout''"

fun adapter_error_code :: "exn \<Rightarrow> string" where
  "adapter_error_code (UnknownSourceError source capability) = UNKNOWN_SOURCE"
| "adapter_error_code ProviderTimeoutError = PROVIDER_TIMEOUT"
| "adapter_error_code _ = ADAPTER_ERROR"

lemma adapter_error_code_closed: "adapter_error_code e \<in> {UNKNOWN_SOURCE, PROVIDER_TIMEOUT, ADAPTER_ERROR}"
  by (cases e) auto

section \<open>The child process of a provider call\<close>

text \<open>
  The action returns (after a time, with the size of the pickled result), raises, or ends the
  process without a message, in which case a process that it left behind may still hold the pipe;
  or it does not end.
\<close>

datatype 'a child_run =
    Returned 'a rat nat
  | Raised rat
  | Exited rat bool
  | Never

text \<open>
  What the parent finds when \<open>join\<close> is over: the child alive (also when it waits to write), the
  message of \<open>_invoke\<close>, the end of the file, or an open pipe without a message.
\<close>

datatype 'a joined = Alive | Message bool "'a option" | End_Of_File | Open_Pipe

fun invoke :: "nat \<Rightarrow> rat \<Rightarrow> 'a child_run \<Rightarrow> 'a joined" where
  "invoke capacity timeout (Returned v t bytes) =
     (if t \<le> timeout \<and> bytes \<le> capacity then Message True (Some v) else Alive)"
| "invoke capacity timeout (Raised t) = (if t \<le> timeout then Message False None else Alive)"
| "invoke capacity timeout (Exited t inherited) =
     (if timeout < t then Alive else if inherited then Open_Pipe else End_Of_File)"
| "invoke capacity timeout Never = Alive"

text \<open>\<open>poll\<close> answers true at the end of the file, where \<open>recv\<close> raises.\<close>

fun received :: "'a joined \<Rightarrow> exn + 'a" where
  "received Alive = Inl ProviderTimeoutError"
| "received Open_Pipe = Inl ProviderProcessError"
| "received End_Of_File = Inl EOFError"
| "received (Message succeeded v) =
     (case (succeeded, v) of (True, Some x) \<Rightarrow> Inr x | _ \<Rightarrow> Inl ProviderProcessError)"

definition run_with_deadline :: "nat \<Rightarrow> rat \<Rightarrow> 'a child_run \<Rightarrow> exn + 'a" where
  "run_with_deadline capacity timeout_seconds action = received (invoke capacity timeout_seconds action)"

lemma run_with_deadline_Inr_iff:
  "run_with_deadline capacity timeout run = Inr v \<longleftrightarrow>
     (\<exists>t bytes. run = Returned v t bytes \<and> t \<le> timeout \<and> bytes \<le> capacity)"
  by (cases run) (auto simp: run_with_deadline_def split: if_splits)

lemma run_with_deadline_Inl:
  "run_with_deadline capacity timeout run = Inl e \<Longrightarrow> e \<in> {ProviderTimeoutError, ProviderProcessError, EOFError}"
  by (cases run) (auto simp: run_with_deadline_def split: if_splits)

text \<open>
  An answer arrives exactly when the action returns within the deadline and its message fits the
  pipe: the parent reads only after it has waited for the child, so an answer of any greater size
  ends in a time-out, however quickly the provider returned it. Every other end is an error whose
  code belongs to the closed set.
\<close>

theorem deadline_outcomes:
  "(run_with_deadline capacity timeout run = Inr v \<longleftrightarrow>
      (\<exists>t bytes. run = Returned v t bytes \<and> t \<le> timeout \<and> bytes \<le> capacity))
   \<and> run_with_deadline capacity timeout (Returned v t (capacity + Suc k)) = Inl ProviderTimeoutError
   \<and> (case run_with_deadline capacity timeout run of
        Inl e \<Rightarrow> adapter_error_code e \<in> {PROVIDER_TIMEOUT, ADAPTER_ERROR} | Inr w \<Rightarrow> True)"
proof (intro conjI)
  show "case run_with_deadline capacity timeout run of
      Inl e \<Rightarrow> adapter_error_code e \<in> {PROVIDER_TIMEOUT, ADAPTER_ERROR} | Inr w \<Rightarrow> True"
    using run_with_deadline_Inl [of capacity timeout run] by (auto split: sum.split)
qed (simp_all add: run_with_deadline_Inr_iff, simp add: run_with_deadline_def)

end
