(* ===== verification/Cursor.thy ===== *)
theory Cursor
  imports Models
begin

text \<open>
  \<open>domain/ingestion/cursor.py\<close>: the cursor of a job and its JSON form. The scanner is that of
  Python's \<open>json\<close> module (strict strings, its number syntax, the constants \<open>NaN\<close> and \<open>Infinity\<close>,
  the last of duplicate keys), on text of the code points below 256; an escape of a greater one is
  outside that alphabet and makes the model's scanner fail. The scanner runs on fuel: every call
  consumes a character, so the length of the text is enough. The text of an
  \<open>InvalidCursorError\<close> names the class of the exception it wraps, without its arguments.
\<close>

section \<open>Strings\<close>

definition quote_char :: char where "quote_char = CHR 0x22"
definition backslash :: char where "backslash = CHR 0x5C"

definition hex_char :: "nat \<Rightarrow> char" where
  "hex_char n = (if n mod 16 < 10 then char_of (48 + n mod 16) else char_of (87 + n mod 16))"

definition hex_val :: "char \<Rightarrow> nat option" where
  "hex_val c = (let k = code_point c in
     if 48 \<le> k \<and> k \<le> 57 then Some (k - 48)
     else if 97 \<le> k \<and> k \<le> 102 then Some (k - 87)
     else if 65 \<le> k \<and> k \<le> 70 then Some (k - 55) else None)"

definition hex4 :: "nat \<Rightarrow> string" where
  "hex4 n = [hex_char (n div 4096), hex_char (n div 256), hex_char (n div 16), hex_char n]"

fun parse_hex4 :: "string \<Rightarrow> (nat \<times> string) option" where
  "parse_hex4 (a # b # c # d # s) =
     (case (hex_val a, hex_val b, hex_val c, hex_val d) of
        (Some i, Some j, Some k, Some l) \<Rightarrow> Some (4096 * i + 256 * j + 16 * k + l, s)
      | _ \<Rightarrow> None)"
| "parse_hex4 _ = None"

lemma parse_hex4_length: "parse_hex4 s = Some (n, r) \<Longrightarrow> length r < length s"
  by (induction s rule: parse_hex4.induct) (auto split: option.splits)

text \<open>\<open>ensure_ascii\<close>: the two-character escapes, and \<open>\u00xx\<close> outside the printable ASCII characters.\<close>

definition short_escapes :: "(char \<times> char) list" where
  "short_escapes = [(quote_char, quote_char), (backslash, backslash), (CHR 0x0A, CHR ''n''),
     (CHR 0x0D, CHR ''r''), (CHR 0x09, CHR ''t''), (CHR 0x0C, CHR ''f''), (CHR 0x08, CHR ''b'')]"

definition escape_char :: "char \<Rightarrow> string" where
  "escape_char c = (case map_of short_escapes c of
       Some e \<Rightarrow> [backslash, e]
     | None \<Rightarrow> if 32 \<le> code_point c \<and> code_point c \<le> 126 then [c]
               else backslash # CHR ''u'' # hex4 (code_point c))"

definition json_string :: "string \<Rightarrow> string" where
  "json_string s = quote_char # concat (map escape_char s) @ [quote_char]"

definition unescape :: "char \<Rightarrow> char option" where
  "unescape e = map_of ((CHR ''/'', CHR ''/'') # map (\<lambda>(c, x). (x, c)) short_escapes) e"

text \<open>The rest of a string after its opening quote.\<close>

function scan_string :: "string \<Rightarrow> (string \<times> string) option" where
  "scan_string [] = None"
| "scan_string (c # s) =
     (if c = quote_char then Some ([], s)
      else if c = backslash then
        (case s of [] \<Rightarrow> None
         | e # t \<Rightarrow>
             (case unescape e of
                Some x \<Rightarrow> map_option (\<lambda>(xs, r). (x # xs, r)) (scan_string t)
              | None \<Rightarrow>
                  (case (if e = CHR ''u'' then parse_hex4 t else None) of
                     Some (n, u) \<Rightarrow>
                       if n < 256 then map_option (\<lambda>(xs, r). (char_of n # xs, r)) (scan_string u) else None
                   | None \<Rightarrow> None)))
      else if code_point c < 32 then None
      else map_option (\<lambda>(xs, r). (c # xs, r)) (scan_string s))"
  by pat_completeness auto
termination
  by (relation "measure length") (auto dest!: parse_hex4_length split: if_splits)

declare scan_string.simps(2) [simp del]

section \<open>Values\<close>

datatype json =
    JNull
  | JBool bool
  | JNumber string
  | JString string
  | JArray "json list"
  | JObject "(string \<times> json) list"

definition json_space :: "char \<Rightarrow> bool" where
  "json_space c \<longleftrightarrow> c = CHR 0x20 \<or> c = CHR 0x09 \<or> c = CHR 0x0A \<or> c = CHR 0x0D"

definition skip_space :: "string \<Rightarrow> string" where
  "skip_space = dropWhile json_space"

definition is_digit :: "char \<Rightarrow> bool" where
  "is_digit c \<longleftrightarrow> digit_val c \<noteq> None"

text \<open>\<open>(-?(?:0|[1-9][0-9]*))(\.[0-9]+)?([eE][-+]?[0-9]+)?\<close>, longest match from the left.\<close>

definition number_length :: "string \<Rightarrow> nat" where
  "number_length s =
     (let i = (if take 1 s = ''-'' then 1 else 0);
          whole = takeWhile is_digit (drop i s);
          int_len = (if whole = [] then 0 else if hd whole = CHR ''0'' then 1 else length whole)
      in if int_len = 0 then 0
         else let j = i + int_len; t = drop j s;
                  frac = (if take 1 t = ''.'' \<and> takeWhile is_digit (drop 1 t) \<noteq> []
                          then 1 + length (takeWhile is_digit (drop 1 t)) else 0);
                  u = drop frac t;
                  sign = (if take 1 (drop 1 u) = ''-'' \<or> take 1 (drop 1 u) = ''+'' then 1 else 0);
                  digits = takeWhile is_digit (drop (1 + sign) u);
                  expo = (if (take 1 u = ''e'' \<or> take 1 u = ''E'') \<and> digits \<noteq> []
                          then 1 + sign + length digits else 0)
              in j + frac + expo)"

definition literal_at :: "string \<Rightarrow> (json \<times> string) option" where
  "literal_at s =
     (if starts_with ''null'' s then Some (JNull, drop 4 s)
      else if starts_with ''true'' s then Some (JBool True, drop 4 s)
      else if starts_with ''false'' s then Some (JBool False, drop 5 s)
      else if 0 < number_length s then Some (JNumber (take (number_length s) s), drop (number_length s) s)
      else if starts_with ''NaN'' s then Some (JNumber ''NaN'', drop 3 s)
      else if starts_with ''Infinity'' s then Some (JNumber ''Infinity'', drop 8 s)
      else if starts_with ''-Infinity'' s then Some (JNumber ''-Infinity'', drop 9 s)
      else None)"

fun scan_value :: "nat \<Rightarrow> string \<Rightarrow> (json \<times> string) option"
  and scan_members :: "nat \<Rightarrow> string \<Rightarrow> ((string \<times> json) list \<times> string) option"
  and scan_elements :: "nat \<Rightarrow> string \<Rightarrow> (json list \<times> string) option" where
  "scan_value 0 s = None"
| "scan_value (Suc n) [] = None"
| "scan_value (Suc n) (c # s) =
     (if c = quote_char then map_option (\<lambda>(x, r). (JString x, r)) (scan_string s)
      else if c = CHR ''{'' then
        (if take 1 (skip_space s) = ''}'' then Some (JObject [], drop 1 (skip_space s))
         else map_option (\<lambda>(x, r). (JObject x, r)) (scan_members n (skip_space s)))
      else if c = CHR ''['' then
        (if take 1 (skip_space s) = '']'' then Some (JArray [], drop 1 (skip_space s))
         else map_option (\<lambda>(x, r). (JArray x, r)) (scan_elements n (skip_space s)))
      else literal_at (c # s))"
| "scan_members 0 s = None"
| "scan_members (Suc n) s =
     (if take 1 s \<noteq> [quote_char] then None
      else case scan_string (drop 1 s) of None \<Rightarrow> None
      | Some (k, r) \<Rightarrow>
          (if take 1 (skip_space r) \<noteq> '':'' then None
           else case scan_value n (skip_space (drop 1 (skip_space r))) of None \<Rightarrow> None
           | Some (v, t) \<Rightarrow>
               (if take 1 (skip_space t) = ''}'' then Some ([(k, v)], drop 1 (skip_space t))
                else if take 1 (skip_space t) = '','' then
                  map_option (\<lambda>(kvs, r). ((k, v) # kvs, r)) (scan_members n (skip_space (drop 1 (skip_space t))))
                else None)))"
| "scan_elements 0 s = None"
| "scan_elements (Suc n) s =
     (case scan_value n s of None \<Rightarrow> None
      | Some (v, t) \<Rightarrow>
          (if take 1 (skip_space t) = '']'' then Some ([v], drop 1 (skip_space t))
           else if take 1 (skip_space t) = '','' then
             map_option (\<lambda>(vs, r). (v # vs, r)) (scan_elements n (skip_space (drop 1 (skip_space t))))
           else None))"

definition json_loads :: "string \<Rightarrow> json option" where
  "json_loads raw = (case scan_value (Suc (length raw)) (skip_space raw) of
      Some (v, r) \<Rightarrow> if skip_space r = [] then Some v else None | None \<Rightarrow> None)"

text \<open>\<open>json.dumps\<close> of a dictionary of strings with the default separators.\<close>

definition dump_member :: "string \<times> string \<Rightarrow> string" where
  "dump_member kv = json_string (fst kv) @ '': '' @ json_string (snd kv)"

definition json_dumps :: "(string \<times> string) list \<Rightarrow> string" where
  "json_dumps kvs = ''{'' @ join '', '' (map dump_member kvs) @ ''}''"

section \<open>The cursor\<close>

record fetch_cursor =
  cur_external_listing_id :: string
  cur_credential_scope :: string
  cur_observation_type :: ObservationType
  cur_start :: date
  cur_end :: date

text \<open>\<open>sort_keys=True\<close>: the fields in alphabetical order.\<close>

definition serialize :: "fetch_cursor \<Rightarrow> string" where
  "serialize c = json_dumps
     [(''credential_scope'', cur_credential_scope c),
      (''end'', isoformat (cur_end c)),
      (''external_listing_id'', cur_external_listing_id c),
      (''observation_type'', observation_type_value (cur_observation_type c)),
      (''start'', isoformat (cur_start c))]"

definition malformed :: "string \<Rightarrow> exn + 'a" where
  "malformed what = Inl (InvalidCursorError (''Malformed job cursor: '' @ what))"

definition item :: "json \<Rightarrow> string \<Rightarrow> exn + json" where
  "item v k = (case v of
      JObject kvs \<Rightarrow> (case map_of (rev kvs) k of Some x \<Rightarrow> Inr x | None \<Rightarrow> malformed ''KeyError'')
    | _ \<Rightarrow> malformed ''TypeError'')"

definition as_date :: "json \<Rightarrow> exn + date" where
  "as_date v = (case v of
      JString s \<Rightarrow> (case fromisoformat s of Some d \<Rightarrow> Inr d | None \<Rightarrow> malformed ''ValueError'')
    | _ \<Rightarrow> malformed ''TypeError'')"

definition as_observation_type :: "json \<Rightarrow> exn + ObservationType" where
  "as_observation_type v = (case v of
      JString s \<Rightarrow> (case observation_type_of s of Some t \<Rightarrow> Inr t | None \<Rightarrow> malformed ''ValueError'')
    | _ \<Rightarrow> malformed ''ValueError'')"

text \<open>
  The code takes the identifier and the scope as whatever value the text has there. Cursors are
  written by \<open>serialize\<close> only, with strings; of another value the model says no more than that it
  is not one of its cursors.
\<close>

definition as_text :: "json \<Rightarrow> exn + string" where
  "as_text v = (case v of JString s \<Rightarrow> Inr s | _ \<Rightarrow> Inl (ForeignError ''untyped cursor field''))"

definition bind_sum :: "'e + 'a \<Rightarrow> ('a \<Rightarrow> 'e + 'b) \<Rightarrow> 'e + 'b" where
  "bind_sum x f = (case x of Inl e \<Rightarrow> Inl e | Inr y \<Rightarrow> f y)"

definition parse_cursor :: "string option \<Rightarrow> exn + fetch_cursor" where
  "parse_cursor raw = (case raw of
      None \<Rightarrow> Inl (InvalidCursorError ''The job has no serialized cursor.'')
    | Some text \<Rightarrow>
        if text = [] then Inl (InvalidCursorError ''The job has no serialized cursor.'')
        else case json_loads text of
          None \<Rightarrow> malformed ''JSONDecodeError''
        | Some payload \<Rightarrow>
            bind_sum (item payload ''external_listing_id'') (\<lambda>ext.
            bind_sum (item payload ''credential_scope'') (\<lambda>scope.
            bind_sum (bind_sum (item payload ''observation_type'') as_observation_type) (\<lambda>t.
            bind_sum (bind_sum (item payload ''start'') as_date) (\<lambda>a.
            bind_sum (bind_sum (item payload ''end'') as_date) (\<lambda>b.
            bind_sum (as_text ext) (\<lambda>e.
            bind_sum (as_text scope) (\<lambda>sc.
              Inr \<lparr>cur_external_listing_id = e, cur_credential_scope = sc,
                   cur_observation_type = t, cur_start = a, cur_end = b\<rparr>))))))))"

section \<open>Round trip\<close>

lemma hex_val_hex_char [simp]: "hex_val (hex_char n) = Some (n mod 16)"
proof -
  have "n mod 16 < 16" by simp
  then show ?thesis by (auto simp: hex_val_def hex_char_def Let_def of_char_of)
qed

lemma parse_hex4_hex4 [simp]:
  assumes "n < 256"
  shows "parse_hex4 (hex4 n @ s) = Some (n, s)"
proof -
  have "n div 4096 = 0" "n div 256 = 0" "n div 16 < 16" using assms by auto
  then show ?thesis by (simp add: hex4_def)
qed

lemma code_point_lt_256: "code_point c < 256"
  by (rule code_point_bound)

lemma short_escape_cases:
  assumes "map_of short_escapes c = Some e"
  shows "unescape e = Some c"
  using assms by (auto simp: short_escapes_def unescape_def quote_char_def backslash_def split: if_splits)

lemma long_escape_none: "unescape (CHR ''u'') = None"
  by (simp add: unescape_def short_escapes_def quote_char_def backslash_def)

lemma scan_escape_char:
  "scan_string (escape_char c @ s) = map_option (\<lambda>(xs, r). (c # xs, r)) (scan_string s)"
proof (cases "map_of short_escapes c")
  case (Some e)
  then show ?thesis
    by (simp add: escape_char_def scan_string.simps(2) short_escape_cases) (simp add: quote_char_def backslash_def)
next
  case None
  then have plain: "c \<noteq> quote_char" "c \<noteq> backslash" by (auto simp: short_escapes_def split: if_splits)
  show ?thesis
  proof (cases "32 \<le> code_point c \<and> code_point c \<le> 126")
    case True
    with None plain show ?thesis by (simp add: escape_char_def scan_string.simps(2))
  next
    case False
    with None have "escape_char c = backslash # CHR ''u'' # hex4 (code_point c)"
      by (auto simp: escape_char_def)
    then show ?thesis
      by (simp add: scan_string.simps(2) [of backslash] long_escape_none code_point_lt_256)
        (simp add: quote_char_def backslash_def)
  qed
qed

lemma scan_json_string [simp]: "scan_string (concat (map escape_char s) @ quote_char # r) = Some (s, r)"
  by (induction s) (simp_all add: scan_escape_char scan_string.simps(2))

lemma skip_space_quote [simp]: "skip_space (quote_char # s) = quote_char # s"
  "skip_space (CHR 0x20 # s) = skip_space s" "skip_space (CHR '':'' # s) = CHR '':'' # s"
  "skip_space (CHR '','' # s) = CHR '','' # s" "skip_space (CHR ''}'' # s) = CHR ''}'' # s"
  "skip_space (CHR ''{'' # s) = CHR ''{'' # s"
  by (simp_all add: skip_space_def json_space_def quote_char_def)

lemma scan_dump_member:
  "scan_members (Suc (Suc n)) (dump_member (k, v) @ r) =
     (if take 1 (skip_space r) = ''}'' then Some ([(k, JString v)], drop 1 (skip_space r))
      else if take 1 (skip_space r) = '','' then
        map_option (\<lambda>(kvs, q). ((k, JString v) # kvs, q)) (scan_members (Suc n) (skip_space (drop 1 (skip_space r))))
      else None)"
  by (simp add: dump_member_def json_string_def)

lemma dump_member_quote: "\<exists>t. dump_member kv = quote_char # t"
  by (simp add: dump_member_def json_string_def)

lemma skip_space_member [simp]: "skip_space (dump_member kv @ r) = dump_member kv @ r"
  using dump_member_quote [of kv] by auto

lemma join_Cons: "join sep (x # y # ys) = x @ sep @ join sep (y # ys)"
  by simp

lemma scan_dump_members:
  "length kvs < n \<Longrightarrow> kvs \<noteq> [] \<Longrightarrow>
     scan_members (Suc n) (join '', '' (map dump_member kvs) @ CHR ''}'' # r) = Some (map (\<lambda>(k, v). (k, JString v)) kvs, r)"
proof (induction kvs arbitrary: n)
  case (Cons kv kvs)
  obtain k v where kv: "kv = (k, v)" by force
  from Cons.prems obtain m where n: "n = Suc m" by (cases n) auto
  show ?case
  proof (cases kvs)
    case Nil
    then show ?thesis by (simp add: kv n scan_dump_member del: scan_members.simps)
  next
    case (Cons kv2 kvs2)
    have "scan_members (Suc m) (join '', '' (map dump_member kvs) @ CHR ''}'' # r)
        = Some (map (\<lambda>(k, v). (k, JString v)) kvs, r)"
      using Cons.IH [of m] Cons.prems Cons n by simp
    then show ?thesis
      unfolding Cons list.map join_Cons kv n append_assoc scan_dump_member
      by (cases kvs2) (simp_all add: kv del: scan_members.simps)
  qed
qed simp

lemma dump_member_length: "3 \<le> length (dump_member kv)"
  by (simp add: dump_member_def json_string_def)

lemma length_join_members: "length kvs \<le> length (join '', '' (map dump_member kvs))"
proof (induction kvs rule: induct_list012)
  case (2 kv)
  then show ?case using dump_member_length [of kv] by simp
next
  case (3 kv kv2 kvs)
  then show ?case using dump_member_length [of kv] by simp
qed simp

lemma json_loads_dumps:
  assumes "kvs \<noteq> []"
  shows "json_loads (json_dumps kvs) = Some (JObject (map (\<lambda>(k, v). (k, JString v)) kvs))"
proof -
  obtain kv rest where kvs: "kvs = kv # rest" using assms by (cases kvs) auto
  obtain t where t: "join '', '' (map dump_member kvs) = quote_char # t"
    using dump_member_quote [of kv] by (cases rest) (auto simp: kvs)
  have "scan_members (length (json_dumps kvs)) (join '', '' (map dump_member kvs) @ CHR ''}'' # [])
      = Some (map (\<lambda>(k, v). (k, JString v)) kvs, [])"
    using scan_dump_members [of kvs "Suc (length (join '', '' (map dump_member kvs)))" "[]"]
      length_join_members [of kvs] assms by (simp add: json_dumps_def)
  then have "scan_value (Suc (length (json_dumps kvs))) (json_dumps kvs)
      = Some (JObject (map (\<lambda>(k, v). (k, JString v)) kvs), [])"
    unfolding json_dumps_def by (simp add: t) (simp add: quote_char_def)
  then show ?thesis by (simp add: json_loads_def json_dumps_def skip_space_def json_space_def)
qed

lemma observation_type_of_value [simp]: "observation_type_of (observation_type_value t) = Some t"
  by (cases t) (simp_all add: observation_type_of_def)

lemma json_dumps_not_Nil: "json_dumps kvs \<noteq> []"
  by (simp add: json_dumps_def)

lemma parse_serialize:
  assumes "valid_date (cur_start c)" and "valid_date (cur_end c)"
  shows "parse_cursor (Some (serialize c)) = Inr c"
  by (simp add: parse_cursor_def serialize_def json_dumps_not_Nil json_loads_dumps bind_sum_def item_def
      as_text_def as_date_def as_observation_type_def fromisoformat_isoformat assms)

text \<open>What the cursor's parser raises on any text whatever.\<close>

definition cursor_error :: "exn \<Rightarrow> bool" where
  "cursor_error e \<longleftrightarrow> (case e of InvalidCursorError m \<Rightarrow> True | _ \<Rightarrow> e = ForeignError ''untyped cursor field'')"

lemma bind_sum_error:
  "bind_sum x f = Inl e \<Longrightarrow> (\<And>e. x = Inl e \<Longrightarrow> cursor_error e) \<Longrightarrow> (\<And>y e. f y = Inl e \<Longrightarrow> cursor_error e)
    \<Longrightarrow> cursor_error e"
  by (cases x) (auto simp: bind_sum_def)

lemma field_errors:
  "item v k = Inl e \<Longrightarrow> cursor_error e" "as_date v = Inl e \<Longrightarrow> cursor_error e"
  "as_observation_type v = Inl e \<Longrightarrow> cursor_error e" "as_text v = Inl e \<Longrightarrow> cursor_error e"
  "malformed w = Inl e \<Longrightarrow> cursor_error e"
  by (cases v; auto simp: item_def as_date_def as_observation_type_def as_text_def malformed_def cursor_error_def
      split: option.splits; fail)+

lemma parse_cursor_error: "parse_cursor raw = Inl e \<Longrightarrow> cursor_error e"
  unfolding parse_cursor_def
  by (auto split: option.splits if_splits intro: field_errors elim!: bind_sum_error)
    (auto simp: cursor_error_def)

text \<open>
  C31. Round trip. The cursor that a job stores is read back as it was written, for every identifier
  and scope whatever characters they have and for every valid date; and an absent or empty text
  raises \<open>InvalidCursorError\<close>.
\<close>

theorem cursor_round_trip:
  assumes "valid_date (cur_start c)" and "valid_date (cur_end c)"
  shows "parse_cursor (Some (serialize c)) = Inr c
    \<and> parse_cursor None = Inl (InvalidCursorError ''The job has no serialized cursor.'')
    \<and> parse_cursor (Some []) = Inl (InvalidCursorError ''The job has no serialized cursor.'')"
  using parse_serialize [OF assms] by (simp add: parse_cursor_def)

definition sample_cursor :: fetch_cursor where
  "sample_cursor = \<lparr>cur_external_listing_id = [CHR 0x22, CHR 0x5C, CHR 0x0A, CHR 0xE9], cur_credential_scope = ''default'',
     cur_observation_type = NAV, cur_start = 738000, cur_end = 738004\<rparr>"

theorem cursor_round_trip_witness: "parse_cursor (Some (serialize sample_cursor)) = Inr sample_cursor"
  using cursor_round_trip [of sample_cursor] by (simp add: sample_cursor_def valid_date_def)

end
