(* ===== verification/Dispatch.thy ===== *)
theory Dispatch
  imports Queue Cursor Adapters
begin

text \<open>
  \<open>domain/ingestion/dispatch.py\<close>: a recovery plan becomes one job per chunk and one for the dates
  that wait for publication. What makes a repeated dispatch harmless is the queue's contract, the
  locale \<open>dedupe_queue\<close>: a request whose key is present is answered with the job of that key and
  changes no job, and no request removes or changes a job. It is interpreted on both ways in which
  the dispatcher enqueues.
\<close>

definition job_type_fetch_range :: string where
  "job_type_fetch_range = ''fetch_range''"

definition key_prefix :: "string \<Rightarrow> string \<Rightarrow> string \<Rightarrow> ObservationType \<Rightarrow> string" where
  "key_prefix source scope ext t =
     job_type_fetch_range @ '':'' @ source @ '':'' @ scope @ '':'' @ ext @ '':'' @ observation_type_value t @ '':''"

definition fetch_key :: "string \<Rightarrow> string \<Rightarrow> string \<Rightarrow> ObservationType \<Rightarrow> date \<Rightarrow> date \<Rightarrow> string" where
  "fetch_key source scope ext t a b = key_prefix source scope ext t @ isoformat a @ '':'' @ isoformat b"

definition waiting_key :: "string \<Rightarrow> string \<Rightarrow> string \<Rightarrow> ObservationType \<Rightarrow> date \<Rightarrow> date \<Rightarrow> string" where
  "waiting_key source scope ext t a b =
     key_prefix source scope ext t @ ''waiting:'' @ isoformat a @ '':'' @ isoformat b"

record dispatch_request =
  dsp_limits :: recovery_limits
  dsp_listing_id :: uuid
  dsp_asset_class :: AssetClass
  dsp_venue :: string
  dsp_mic :: "string option"
  dsp_source :: string
  dsp_scope :: string
  dsp_external_listing_id :: string
  dsp_observation_type :: ObservationType
  dsp_last_completed :: "date option"
  dsp_today :: date
  dsp_now :: datetime
  dsp_waiting_retry_seconds :: int

record dispatch_result =
  dr_plan :: recovery_plan
  dr_enqueued :: "enqueue_result list"
  dr_waiting_job :: "enqueue_result option"

definition cursor_for :: "dispatch_request \<Rightarrow> date \<Rightarrow> date \<Rightarrow> fetch_cursor" where
  "cursor_for d a b = \<lparr>cur_external_listing_id = dsp_external_listing_id d, cur_credential_scope = dsp_scope d,
     cur_observation_type = dsp_observation_type d, cur_start = a, cur_end = b\<rparr>"

definition chunk_request :: "dispatch_request \<Rightarrow> recovery_chunk \<Rightarrow> job_request" where
  "chunk_request d c =
     \<lparr>rq_job_type = job_type_fetch_range, rq_source = dsp_source d,
      rq_dedupe_key = fetch_key (dsp_source d) (dsp_scope d) (dsp_external_listing_id d)
        (dsp_observation_type d) (chunk_start c) (chunk_end c),
      rq_listing_id = Some (dsp_listing_id d),
      rq_cursor = Some (serialize (cursor_for d (chunk_start c) (chunk_end c))),
      rq_run_at = dsp_now d, rq_max_attempts = 5\<rparr>"

definition waiting_request :: "dispatch_request \<Rightarrow> date list \<Rightarrow> job_request" where
  "waiting_request d ws =
     \<lparr>rq_job_type = job_type_fetch_range, rq_source = dsp_source d,
      rq_dedupe_key = waiting_key (dsp_source d) (dsp_scope d) (dsp_external_listing_id d)
        (dsp_observation_type d) (hd ws) (last ws),
      rq_listing_id = Some (dsp_listing_id d),
      rq_cursor = Some (serialize (cursor_for d (hd ws) (last ws))),
      rq_run_at = dsp_now d + microseconds (dsp_waiting_retry_seconds d), rq_max_attempts = 5\<rparr>"

fun enqueue_all :: "job_request list \<Rightarrow> enqueue_result list py" where
  "enqueue_all [] = ret []"
| "enqueue_all (q # qs) =
     andthen (enqueue_idempotent q) (\<lambda>r. andthen (enqueue_all qs) (\<lambda>rs. ret (r # rs)))"

definition enqueue_if_waiting :: "dispatch_request \<Rightarrow> date list \<Rightarrow> enqueue_result option py" where
  "enqueue_if_waiting d ws =
     (if ws = [] then ret None else andthen (enqueue_waiting (waiting_request d ws)) (\<lambda>r. ret (Some r)))"

definition dispatch_plan :: "dispatch_request \<Rightarrow> recovery_plan \<Rightarrow> dispatch_result py" where
  "dispatch_plan d p =
     andthen (enqueue_all (map (chunk_request d) (chunks p))) (\<lambda>rs.
     andthen (enqueue_if_waiting d (waiting_for_publication p)) (\<lambda>w.
     ret \<lparr>dr_plan = p, dr_enqueued = rs, dr_waiting_job = w\<rparr>))"

definition plan_and_enqueue :: "calendar \<Rightarrow> dispatch_request \<Rightarrow> dispatch_result py" where
  "plan_and_enqueue cal d =
     (case plan cal (dsp_limits d) (dsp_asset_class d) (dsp_venue d) (dsp_mic d)
             (dsp_last_completed d) (dsp_today d) of
        Inl e \<Rightarrow> throw e
      | Inr p \<Rightarrow> dispatch_plan d p)"

section \<open>The queue's contract\<close>

definition has_key :: "string \<Rightarrow> sess \<Rightarrow> bool" where
  "has_key k s \<longleftrightarrow> k \<in> dedupe_key ` set (jobs (work s))"

locale dedupe_queue =
  fixes enqueue :: "job_request \<Rightarrow> enqueue_result py"
  assumes keeps_unique: "enqueue q s = (r, t) \<Longrightarrow> keys_unique s \<Longrightarrow> keys_unique t"
    and keeps_keys: "enqueue q s = (r, t) \<Longrightarrow> keys_unique s \<Longrightarrow> has_key k s \<Longrightarrow> has_key k t"
    and takes_key: "enqueue q s = (Inr found, t) \<Longrightarrow> keys_unique s \<Longrightarrow> has_key (rq_dedupe_key q) t"
    and answers: "keys_unique s \<Longrightarrow> has_key (rq_dedupe_key q) s
      \<Longrightarrow> \<exists>e. enqueue q s = (Inr \<lparr>er_job = e, er_created = False\<rparr>, drawn s)"
begin

text \<open>A request that was answered once is answered again, with nothing created.\<close>

lemma again:
  assumes "enqueue q s = (Inr r, t)" and "keys_unique s"
  shows "\<exists>e. enqueue q t = (Inr \<lparr>er_job = e, er_created = False\<rparr>, drawn t)"
  using answers keeps_unique [OF assms] takes_key [OF assms] by blast

end

lemma has_key_drawn [simp]: "has_key k (drawn s) = has_key k s"
  by (simp add: has_key_def)

lemma keys_unique_drawn [simp]: "keys_unique (drawn s) = keys_unique s"
  by (simp add: keys_unique_def)

lemma has_key_await [simp]: "has_key k (await_publication j s) = has_key k s"
proof -
  have "map dedupe_key (jobs (work (await_publication j s))) = map dedupe_key (jobs (work s))"
    by (simp add: await_publication_def map_update_where)
  then show ?thesis by (metis has_key_def list.set_map)
qed

lemma keys_unique_await [simp]: "keys_unique (await_publication j s) = keys_unique s"
  by (simp add: keys_unique_def await_publication_def map_update_where)

interpretation plain_queue: dedupe_queue enqueue_idempotent
proof
  fix q s r t k
  assume run: "enqueue_idempotent q s = (r, t)"
  show "keys_unique s \<Longrightarrow> keys_unique t" by (rule enqueue_keeps_unique [OF run])
  show "keys_unique s \<Longrightarrow> has_key k s \<Longrightarrow> has_key k t"
    using set_mono_prefix [OF enqueue_keeps_rows [OF run]] by (auto simp: has_key_def)
next
  fix q s r t
  assume "enqueue_idempotent q s = (Inr r, t)"
  then show "has_key (rq_dedupe_key q) t" by (cases rule: enqueue_cases) (auto simp: has_key_def rev_image_eqI)
next
  fix q :: job_request and s
  assume "keys_unique s" "has_key (rq_dedupe_key q) s"
  then show "\<exists>e. enqueue_idempotent q s = (Inr \<lparr>er_job = e, er_created = False\<rparr>, drawn s)"
    using enqueue_existing [of _ s q] by (auto simp: has_key_def)
qed

lemma enqueue_waiting_cases:
  assumes "enqueue_waiting q s = (r, t)"
  obtains r0 u where "enqueue_idempotent q s = (r0, u)" "\<And>k. has_key k t = has_key k u" "keys_unique t = keys_unique u"
    "(\<exists>e. r0 = Inl e \<and> r = Inl e) \<or> (\<exists>x y. r0 = Inr x \<and> r = Inr y \<and> er_created y = er_created x
       \<and> (\<not> er_created x \<longrightarrow> y = x \<and> t = u))"
proof -
  obtain r0 u where u: "enqueue_idempotent q s = (r0, u)" by force
  show ?thesis
    by (rule that [OF u]) (use assms u in \<open>auto simp: enqueue_waiting_def andthen_def split: sum.splits if_splits\<close>)
qed

interpretation waiting_queue: dedupe_queue enqueue_waiting
proof
  fix q s r t k
  assume "enqueue_waiting q s = (r, t)"
  then obtain r0 u where u: "enqueue_idempotent q s = (r0, u)" "\<And>k. has_key k t = has_key k u"
    "keys_unique t = keys_unique u" by - (erule enqueue_waiting_cases, erule that, assumption+)
  show "keys_unique s \<Longrightarrow> keys_unique t" using plain_queue.keeps_unique [OF u(1)] u(3) by simp
  show "keys_unique s \<Longrightarrow> has_key k s \<Longrightarrow> has_key k t" using plain_queue.keeps_keys [OF u(1)] u(2) by simp
next
  fix q s r t
  assume "enqueue_waiting q s = (Inr r, t)" "keys_unique s"
  then show "has_key (rq_dedupe_key q) t"
    using plain_queue.takes_key by (auto elim!: enqueue_waiting_cases)
next
  fix q :: job_request and s
  assume a: "keys_unique s" "has_key (rq_dedupe_key q) s"
  from plain_queue.answers [OF a] obtain e where
    "enqueue_idempotent q s = (Inr \<lparr>er_job = e, er_created = False\<rparr>, drawn s)" ..
  then have "enqueue_waiting q s = (Inr \<lparr>er_job = e, er_created = False\<rparr>, drawn s)"
    by (simp add: enqueue_waiting_def andthen_def)
  then show "\<exists>e. enqueue_waiting q s = (Inr \<lparr>er_job = e, er_created = False\<rparr>, drawn s)" ..
qed

section \<open>Dispatching twice\<close>

lemma enqueue_all_keys:
  "enqueue_all qs s = (Inr rs, t) \<Longrightarrow> keys_unique s \<Longrightarrow>
     keys_unique t \<and> (\<forall>k. has_key k s \<longrightarrow> has_key k t) \<and> (\<forall>q \<in> set qs. has_key (rq_dedupe_key q) t)
     \<and> length rs = length qs"
proof (induction qs arbitrary: s rs)
  case (Cons q qs)
  from Cons.prems(1) obtain r u rs' where q: "enqueue_idempotent q s = (Inr r, u)"
    "enqueue_all qs u = (Inr rs', t)" "rs = r # rs'"
    by (auto simp: andthen_eq_Inr)
  have u: "keys_unique u" "has_key (rq_dedupe_key q) u" "\<And>k. has_key k s \<Longrightarrow> has_key k u"
    using plain_queue.keeps_unique [OF q(1)] plain_queue.takes_key [OF q(1)] plain_queue.keeps_keys [OF q(1)]
      Cons.prems(2) by auto
  from Cons.IH [OF q(2) u(1)] u q(3) show ?case by auto
qed simp

lemma enqueue_all_present:
  "keys_unique s \<Longrightarrow> (\<And>q. q \<in> set qs \<Longrightarrow> has_key (rq_dedupe_key q) s) \<Longrightarrow>
     \<exists>rs t. enqueue_all qs s = (Inr rs, t) \<and> list_all (\<lambda>r. \<not> er_created r) rs \<and> length rs = length qs
       \<and> work t = work s \<and> durable t = durable s"
proof (induction qs arbitrary: s)
  case (Cons q qs)
  from plain_queue.answers [OF Cons.prems(1)] Cons.prems(2) obtain e where
    e: "enqueue_idempotent q s = (Inr \<lparr>er_job = e, er_created = False\<rparr>, drawn s)" by auto
  from Cons.IH [of "drawn s"] Cons.prems obtain rs t where
    "enqueue_all qs (drawn s) = (Inr rs, t)" "list_all (\<lambda>r. \<not> er_created r) rs" "length rs = length qs"
    "work t = work s" "durable t = durable s" by auto
  with e show ?case by (simp add: andthen_def)
qed simp

text \<open>The keys that a plan asks for.\<close>

definition plan_keys :: "dispatch_request \<Rightarrow> recovery_plan \<Rightarrow> string set" where
  "plan_keys d p = (\<lambda>c. rq_dedupe_key (chunk_request d c)) ` set (chunks p)
     \<union> (if waiting_for_publication p = [] then {} else {rq_dedupe_key (waiting_request d (waiting_for_publication p))})"

lemma enqueue_if_waiting_keys:
  assumes "enqueue_if_waiting d ws s = (Inr w, t)" and "keys_unique s"
  shows "keys_unique t \<and> (\<forall>k. has_key k s \<longrightarrow> has_key k t)
    \<and> (ws \<noteq> [] \<longrightarrow> has_key (rq_dedupe_key (waiting_request d ws)) t)"
proof (cases "ws = []")
  case False
  with assms(1) obtain r where "enqueue_waiting (waiting_request d ws) s = (Inr r, t)"
    by (auto simp: enqueue_if_waiting_def andthen_eq_Inr)
  with assms(2) waiting_queue.keeps_unique waiting_queue.keeps_keys waiting_queue.takes_key show ?thesis by blast
qed (use assms in \<open>auto simp: enqueue_if_waiting_def\<close>)

lemma dispatch_plan_keys:
  assumes "dispatch_plan d p s = (Inr r, t)" and "keys_unique s"
  shows "keys_unique t \<and> (\<forall>k \<in> plan_keys d p. has_key k t)"
proof -
  from assms(1) obtain rs u w where rs: "enqueue_all (map (chunk_request d) (chunks p)) s = (Inr rs, u)"
    and w: "enqueue_if_waiting d (waiting_for_publication p) u = (Inr w, t)"
    by (auto simp: dispatch_plan_def andthen_eq_Inr)
  from enqueue_all_keys [OF rs assms(2)] enqueue_if_waiting_keys [OF w] show ?thesis
    by (auto simp: plan_keys_def)
qed

lemma dispatch_plan_present:
  assumes "keys_unique s" and "\<forall>k \<in> plan_keys d p. has_key k s"
  shows "\<exists>r t. dispatch_plan d p s = (Inr r, t) \<and> dr_plan r = p \<and> list_all (\<lambda>x. \<not> er_created x) (dr_enqueued r)
    \<and> (\<forall>w. dr_waiting_job r = Some w \<longrightarrow> \<not> er_created w) \<and> work t = work s \<and> durable t = durable s"
proof -
  have keys: "\<And>q. q \<in> set (map (chunk_request d) (chunks p)) \<Longrightarrow> has_key (rq_dedupe_key q) s"
    using assms(2) by (auto simp: plan_keys_def)
  obtain rs u where
    rs: "enqueue_all (map (chunk_request d) (chunks p)) s = (Inr rs, u)"
      "list_all (\<lambda>r. \<not> er_created r) rs" "work u = work s" "durable u = durable s"
    using enqueue_all_present [OF assms(1) keys] by blast
  show ?thesis
  proof (cases "waiting_for_publication p = []")
    case True
    with rs show ?thesis by (simp add: dispatch_plan_def andthen_def enqueue_if_waiting_def)
  next
    case False
    have "keys_unique u" "has_key (rq_dedupe_key (waiting_request d (waiting_for_publication p))) u"
      using assms rs(3) False by (auto simp: keys_unique_def has_key_def plan_keys_def)
    from waiting_queue.answers [OF this] obtain e where
      "enqueue_waiting (waiting_request d (waiting_for_publication p)) u
        = (Inr \<lparr>er_job = e, er_created = False\<rparr>, drawn u)" ..
    with False rs show ?thesis by (simp add: dispatch_plan_def andthen_def enqueue_if_waiting_def)
  qed
qed

section \<open>Keys\<close>

lemma colon_split:
  "a @ CHR '':'' # x = b @ CHR '':'' # y \<Longrightarrow> CHR '':'' \<notin> set a \<Longrightarrow> CHR '':'' \<notin> set b \<Longrightarrow> a = b \<and> x = y"
proof (induction a arbitrary: b)
  case Nil
  then show ?case by (cases b) auto
next
  case (Cons c a)
  then show ?case by (cases b) auto
qed

lemma append_right_length: "x @ u = y @ v \<Longrightarrow> length u = length v \<Longrightarrow> x = y \<and> u = v"
  by simp

lemma append_left_length: "x @ u = y @ v \<Longrightarrow> length x = length y \<Longrightarrow> x = y \<and> u = v"
  by simp

lemma dates_suffix:
  assumes "x @ isoformat a @ CHR '':'' # isoformat b = y @ isoformat c @ CHR '':'' # isoformat d"
  shows "x = y \<and> isoformat a = isoformat c \<and> isoformat b = isoformat d"
proof -
  from append_right_length [OF assms] have "x = y"
    and "isoformat a @ CHR '':'' # isoformat b = isoformat c @ CHR '':'' # isoformat d" by simp_all
  from append_left_length [OF this(2)] \<open>x = y\<close> show ?thesis by simp
qed

lemma type_suffix:
  assumes "x @ CHR '':'' # observation_type_value t = y @ CHR '':'' # observation_type_value u"
  shows "x = y \<and> t = u"
proof (cases "t = u")
  case True
  with assms show ?thesis using append_right_length [OF assms] by simp
next
  case False
  from assms have "last (x @ CHR '':'' # observation_type_value t) = last (y @ CHR '':'' # observation_type_value u)"
    by (rule arg_cong)
  with False show ?thesis by (cases t; cases u; simp)
qed

lemma type_waiting_suffix: "x @ CHR '':'' # observation_type_value t \<noteq> y @ '':waiting''"
proof
  assume "x @ CHR '':'' # observation_type_value t = y @ '':waiting''"
  then have "last (x @ CHR '':'' # observation_type_value t) = last (y @ '':waiting'')" by simp
  then show False by (cases t) auto
qed

definition colon_free :: "string \<Rightarrow> bool" where
  "colon_free s \<longleftrightarrow> CHR '':'' \<notin> set s"

lemma key_prefix_split:
  assumes "key_prefix source scope ext t @ x = key_prefix source' scope' ext' t' @ x'"
    and "colon_free source" "colon_free scope" "colon_free source'" "colon_free scope'"
  shows "source = source' \<and> scope = scope'
    \<and> ext @ CHR '':'' # observation_type_value t @ CHR '':'' # x = ext' @ CHR '':'' # observation_type_value t' @ CHR '':'' # x'"
proof -
  have "source @ CHR '':'' # (scope @ CHR '':'' # ext @ CHR '':'' # observation_type_value t @ CHR '':'' # x)
      = source' @ CHR '':'' # (scope' @ CHR '':'' # ext' @ CHR '':'' # observation_type_value t' @ CHR '':'' # x')"
    using assms(1) by (simp add: key_prefix_def)
  from colon_split [OF this] assms(2-5) have "source = source'"
    "scope @ CHR '':'' # (ext @ CHR '':'' # observation_type_value t @ CHR '':'' # x)
      = scope' @ CHR '':'' # (ext' @ CHR '':'' # observation_type_value t' @ CHR '':'' # x')"
    by (auto simp: colon_free_def)
  with colon_split [OF this(2)] assms(3,5) show ?thesis by (auto simp: colon_free_def)
qed

lemma fetch_key_inject:
  assumes "fetch_key source scope ext t a b = fetch_key source' scope' ext' t' a' b'"
    and "colon_free source" "colon_free scope" "colon_free source'" "colon_free scope'"
    and "valid_date a" "valid_date b" "valid_date a'" "valid_date b'"
  shows "(source, scope, ext, t, a, b) = (source', scope', ext', t', a', b')"
proof -
  from key_prefix_split [OF assms(1) [unfolded fetch_key_def] assms(2-5)]
  have 1: "source = source'" "scope = scope'" and
    "(ext @ CHR '':'' # observation_type_value t @ '':'') @ isoformat a @ CHR '':'' # isoformat b
      = (ext' @ CHR '':'' # observation_type_value t' @ '':'') @ isoformat a' @ CHR '':'' # isoformat b'" by simp_all
  from dates_suffix [OF this(3)] have "isoformat a = isoformat a'" "isoformat b = isoformat b'"
    "ext @ CHR '':'' # observation_type_value t = ext' @ CHR '':'' # observation_type_value t'" by auto
  with 1 type_suffix isoformat_inject assms(6-9) show ?thesis by blast
qed

lemma waiting_key_inject:
  assumes "waiting_key source scope ext t a b = waiting_key source' scope' ext' t' a' b'"
    and "colon_free source" "colon_free scope" "colon_free source'" "colon_free scope'"
    and "valid_date a" "valid_date b" "valid_date a'" "valid_date b'"
  shows "(source, scope, ext, t, a, b) = (source', scope', ext', t', a', b')"
proof -
  from key_prefix_split [OF assms(1) [unfolded waiting_key_def] assms(2-5)]
  have 1: "source = source'" "scope = scope'" and
    "(ext @ CHR '':'' # observation_type_value t @ '':waiting:'') @ isoformat a @ CHR '':'' # isoformat b
      = (ext' @ CHR '':'' # observation_type_value t' @ '':waiting:'') @ isoformat a' @ CHR '':'' # isoformat b'" by simp_all
  from dates_suffix [OF this(3)] have "isoformat a = isoformat a'" "isoformat b = isoformat b'"
    "ext @ CHR '':'' # observation_type_value t = ext' @ CHR '':'' # observation_type_value t'" by auto
  with 1 type_suffix isoformat_inject assms(6-9) show ?thesis by blast
qed

lemma fetch_not_waiting:
  assumes "colon_free source" "colon_free scope" "colon_free source'" "colon_free scope'"
  shows "fetch_key source scope ext t a b \<noteq> waiting_key source' scope' ext' t' a' b'"
proof
  assume "fetch_key source scope ext t a b = waiting_key source' scope' ext' t' a' b'"
  from key_prefix_split [OF this [unfolded fetch_key_def waiting_key_def] assms]
  have "(ext @ CHR '':'' # observation_type_value t @ '':'') @ isoformat a @ CHR '':'' # isoformat b
      = (ext' @ CHR '':'' # observation_type_value t' @ '':waiting:'') @ isoformat a' @ CHR '':'' # isoformat b'" by simp
  from dates_suffix [OF this]
  have "ext @ CHR '':'' # observation_type_value t = (ext' @ CHR '':'' # observation_type_value t') @ '':waiting''"
    by simp
  with type_waiting_suffix show False by blast
qed

section \<open>Properties\<close>

text \<open>
  Distinct work has distinct keys. Among sources and scopes without a colon the dedupe key of a
  fetch job determines the source, the scope, the external identifier, the type and both dates,
  whatever characters the identifier has; so does that of a waiting job; and no fetch job has the
  key of a waiting job.
\<close>

theorem dedupe_keys_injective:
  assumes "colon_free source" "colon_free scope" "colon_free source'" "colon_free scope'"
    and "valid_date a" "valid_date b" "valid_date a'" "valid_date b'"
  shows "(fetch_key source scope ext t a b = fetch_key source' scope' ext' t' a' b')
      = ((source, scope, ext, t, a, b) = (source', scope', ext', t', a', b'))
    \<and> (waiting_key source scope ext t a b = waiting_key source' scope' ext' t' a' b')
      = ((source, scope, ext, t, a, b) = (source', scope', ext', t', a', b'))
    \<and> fetch_key source scope ext t a b \<noteq> waiting_key source' scope' ext' t' a' b'"
  by (intro conjI iffI fetch_key_inject [OF _ assms] waiting_key_inject [OF _ assms] fetch_not_waiting [OF assms(1-4)])
    simp_all

theorem dedupe_keys_injective_witness:
  "fetch_key ''fake'' ''default'' ''BTC:USD'' NAV 738000 738001
     \<noteq> waiting_key ''fake'' ''default'' ''BTC'' EOD_CLOSE 738000 738001"
  using dedupe_keys_injective [of "''fake''" "''default''" "''fake''" "''default''" 738000 738001 738000 738001]
  by (simp add: colon_free_def valid_date_def)

text \<open>
  Dispatching again is harmless. After a dispatch that returned, dispatching the same request on
  the same calendar, also after other sessions have claimed, run or added jobs, creates no job and
  leaves both the session's and the committed tables as they were.
\<close>

theorem dispatch_twice:
  assumes "plan_and_enqueue cal d s = (Inr r, t)" and "keys_unique s"
    and "keys_unique u" and "\<forall>k. has_key k t \<longrightarrow> has_key k u"
  shows "\<exists>r' v. plan_and_enqueue cal d u = (Inr r', v) \<and> dr_plan r' = dr_plan r
    \<and> list_all (\<lambda>x. \<not> er_created x) (dr_enqueued r') \<and> (\<forall>w. dr_waiting_job r' = Some w \<longrightarrow> \<not> er_created w)
    \<and> work v = work u \<and> durable v = durable u"
proof -
  from assms(1) obtain p where
    p: "plan cal (dsp_limits d) (dsp_asset_class d) (dsp_venue d) (dsp_mic d) (dsp_last_completed d) (dsp_today d) = Inr p"
      "dispatch_plan d p s = (Inr r, t)"
    by (auto simp: plan_and_enqueue_def split: sum.splits)
  have "dr_plan r = p" using p(2) by (auto simp: dispatch_plan_def andthen_eq_Inr)
  moreover have "\<forall>k \<in> plan_keys d p. has_key k u"
    using dispatch_plan_keys [OF p(2) assms(2)] assms(4) by blast
  from dispatch_plan_present [OF assms(3) this] p(1) have "\<exists>r' v. plan_and_enqueue cal d u = (Inr r', v) \<and> dr_plan r' = p
      \<and> list_all (\<lambda>x. \<not> er_created x) (dr_enqueued r') \<and> (\<forall>w. dr_waiting_job r' = Some w \<longrightarrow> \<not> er_created w)
      \<and> work v = work u \<and> durable v = durable u"
    by (simp add: plan_and_enqueue_def)
  ultimately show ?thesis by simp
qed

definition sample_dispatch :: dispatch_request where
  "sample_dispatch = \<lparr>dsp_limits = \<lparr>max_lookback_days = 0, max_sessions_per_chunk = 2\<rparr>, dsp_listing_id = 1,
     dsp_asset_class = CRYPTO, dsp_venue = ''KRAKEN'', dsp_mic = None, dsp_source = ''fake'', dsp_scope = ''default'',
     dsp_external_listing_id = ''X'', dsp_observation_type = EOD_CLOSE, dsp_last_completed = None,
     dsp_today = 738000, dsp_now = 0, dsp_waiting_retry_seconds = 3600\<rparr>"

definition sample_plan :: recovery_plan where
  "sample_plan = \<lparr>chunks = [\<lparr>chunk_start = 738000, chunk_end = 738000, session_dates = [738000]\<rparr>],
     waiting_for_publication = [], skipped_no_session = [], next_cursor = None\<rparr>"

lemma sample_planned:
  "plan fake_sessions_in_range (dsp_limits sample_dispatch) (dsp_asset_class sample_dispatch)
     (dsp_venue sample_dispatch) (dsp_mic sample_dispatch) (dsp_last_completed sample_dispatch)
     (dsp_today sample_dispatch) = Inr sample_plan"
proof -
  have "chunks_of (Suc (Suc 0)) [738000 :: int] = [[738000]]" by (simp add: chunks_of.simps [of _ "[_]"])
  then show ?thesis
    by (simp add: sample_dispatch_def sample_plan_def plan_def plan_start_def plan_checks_def group_dates_def
        dates_expected_def chunk_of_def fake_sessions_in_range_def fake_expectation_def Let_def numeral_2_eq_2)
qed

definition sample_outcome :: "dispatch_result \<times> sess" where
  "sample_outcome = (let s = session_on (empty_database SQLITE) 0;
       j = new_job (chunk_request sample_dispatch (hd (chunks sample_plan))) s
     in (\<lparr>dr_plan = sample_plan, dr_enqueued = [\<lparr>er_job = j, er_created = True\<rparr>], dr_waiting_job = None\<rparr>,
         on_jobs (\<lambda>js. js @ [j]) (drawn s)))"

lemma sample_dispatched:
  "plan_and_enqueue fake_sessions_in_range sample_dispatch (session_on (empty_database SQLITE) 0)
     = (Inr (fst sample_outcome), snd sample_outcome)"
  by (simp add: plan_and_enqueue_def sample_planned)
    (simp add: sample_outcome_def Let_def dispatch_plan_def sample_plan_def andthen_def enqueue_idempotent_def
      insert_job_def fk_holds_def session_on_def empty_database_def enqueue_if_waiting_def)

theorem dispatch_twice_witness:
  "\<exists>r v. plan_and_enqueue fake_sessions_in_range sample_dispatch (snd sample_outcome) = (Inr r, v)
     \<and> dr_plan r = sample_plan \<and> work v = work (snd sample_outcome)"
proof -
  have "keys_unique (session_on (empty_database SQLITE) 0)" "keys_unique (snd sample_outcome)"
    "dr_plan (fst sample_outcome) = sample_plan"
    by (simp_all add: keys_unique_def sample_outcome_def Let_def session_on_def empty_database_def)
  from dispatch_twice [OF sample_dispatched this(1,2)] this(3) show ?thesis by auto
qed

section \<open>What a dispatch leaves in the queue\<close>

definition fetch_key_of :: "dispatch_request \<Rightarrow> date \<Rightarrow> date \<Rightarrow> string" where
  "fetch_key_of d b e = fetch_key (dsp_source d) (dsp_scope d) (dsp_external_listing_id d) (dsp_observation_type d) b e"

definition waiting_key_of :: "dispatch_request \<Rightarrow> date \<Rightarrow> date \<Rightarrow> string" where
  "waiting_key_of d b e = waiting_key (dsp_source d) (dsp_scope d) (dsp_external_listing_id d) (dsp_observation_type d) b e"

text \<open>A job that has not been tried yet, for the source and the listing, from whose cursor a worker reads the dates.\<close>

definition asks_for :: "dispatch_request \<Rightarrow> date \<Rightarrow> date \<Rightarrow> job \<Rightarrow> bool" where
  "asks_for d b e j \<longleftrightarrow> job_type j = job_type_fetch_range \<and> job_source j = dsp_source d
     \<and> job_listing_id j = Some (dsp_listing_id d) \<and> parse_cursor (job_cursor j) = Inr (cursor_for d b e)
     \<and> attempt_count j = 0 \<and> max_attempts j = 5 \<and> claimed_by j = None"

lemma chunk_asked:
  "valid_date (chunk_start c) \<Longrightarrow> valid_date (chunk_end c)
     \<Longrightarrow> asks_for d (chunk_start c) (chunk_end c) (new_job (chunk_request d c) s)"
  by (simp add: asks_for_def new_job_def chunk_request_def parse_serialize cursor_for_def)

lemma waiting_asked:
  "valid_date (hd ws) \<Longrightarrow> valid_date (last ws)
     \<Longrightarrow> asks_for d (hd ws) (last ws) ((new_job (waiting_request d ws) s)\<lparr>job_status := st, job_updated_at := clock\<rparr>)"
  by (simp add: asks_for_def new_job_def waiting_request_def parse_serialize cursor_for_def)

lemma enqueue_all_rows:
  "enqueue_all qs s = (Inr rs, t) \<Longrightarrow>
     \<exists>new. jobs (work t) = jobs (work s) @ new \<and> (\<forall>j \<in> set new. \<exists>q \<in> set qs. \<exists>u. j = new_job q u)
       \<and> (\<forall>q \<in> set qs. has_key (rq_dedupe_key q) t)"
proof (induction qs arbitrary: s rs)
  case (Cons q qs)
  from Cons.prems obtain r u rs' where q: "enqueue_idempotent q s = (Inr r, u)" "enqueue_all qs u = (Inr rs', t)"
    by (auto simp: andthen_eq_Inr)
  from Cons.IH [OF q(2)] obtain new where new: "jobs (work t) = jobs (work u) @ new"
    "\<forall>j \<in> set new. \<exists>q \<in> set qs. \<exists>u. j = new_job q u" "\<forall>q \<in> set qs. has_key (rq_dedupe_key q) t" by blast
  have "has_key (rq_dedupe_key q) u" using q(1) by (cases rule: enqueue_cases) (auto simp: has_key_def rev_image_eqI)
  then have "has_key (rq_dedupe_key q) t" by (auto simp: has_key_def new(1))
  moreover have "jobs (work u) = jobs (work s) \<or> jobs (work u) = jobs (work s) @ [new_job q s]"
    using q(1) by (cases rule: enqueue_cases) auto
  ultimately show ?case using new by auto
qed simp

lemma enqueue_waiting_rows:
  assumes "enqueue_waiting q s = (Inr r, t)"
  shows "has_key (rq_dedupe_key q) t \<and> (jobs (work t) = jobs (work s) \<or>
    (\<exists>clock. jobs (work t) = jobs (work s) @ [(new_job q s)\<lparr>job_status := WAITING_FOR_PUBLICATION, job_updated_at := clock\<rparr>]))"
proof -
  obtain r0 u where u: "enqueue_idempotent q s = (r0, u)" by force
  from u show ?thesis
  proof (cases rule: enqueue_cases)
    case added
    have "update_where (\<lambda>r. job_id r = job_id (new_job q s)) f (jobs (work s)) = jobs (work s)" for f
      using added(3) by (intro update_where_none) (force simp: new_job_def)
    with assms added u show ?thesis
      by (auto simp: enqueue_waiting_def andthen_def await_publication_def update_where_def has_key_def new_job_def)
  next
    case (found e)
    with assms u show ?thesis by (auto simp: enqueue_waiting_def andthen_def has_key_def rev_image_eqI)
  next
    case refused
    with assms u show ?thesis by (simp add: enqueue_waiting_def andthen_def)
  qed
qed

lemma dispatch_plan_rows:
  assumes "dispatch_plan d p s = (Inr r, t)"
  shows "\<exists>new. jobs (work t) = jobs (work s) @ new \<and> (\<forall>k \<in> plan_keys d p. has_key k t)
    \<and> (\<forall>j \<in> set new. (\<exists>c \<in> set (chunks p). \<exists>u. j = new_job (chunk_request d c) u)
         \<or> waiting_for_publication p \<noteq> [] \<and> (\<exists>u clock. j = (new_job (waiting_request d (waiting_for_publication p)) u)
              \<lparr>job_status := WAITING_FOR_PUBLICATION, job_updated_at := clock\<rparr>))"
proof -
  let ?ws = "waiting_for_publication p"
  from assms obtain rs u w where rs: "enqueue_all (map (chunk_request d) (chunks p)) s = (Inr rs, u)"
    and w: "enqueue_if_waiting d ?ws u = (Inr w, t)"
    by (auto simp: dispatch_plan_def andthen_eq_Inr)
  from enqueue_all_rows [OF rs] obtain new where new: "jobs (work u) = jobs (work s) @ new"
    "\<forall>j \<in> set new. \<exists>c \<in> set (chunks p). \<exists>u. j = new_job (chunk_request d c) u"
    "\<forall>c \<in> set (chunks p). has_key (rq_dedupe_key (chunk_request d c)) u" by auto
  show ?thesis
  proof (cases "?ws = []")
    case True
    with w have "t = u" by (simp add: enqueue_if_waiting_def)
    with True new show ?thesis by (auto simp: plan_keys_def)
  next
    case False
    with w obtain x where "enqueue_waiting (waiting_request d ?ws) u = (Inr x, t)"
      by (auto simp: enqueue_if_waiting_def andthen_eq_Inr)
    note waiting = enqueue_waiting_rows [OF this]
    then have "has_key k t" if "has_key k u" for k using that by (auto simp: has_key_def)
    with new(3) waiting have "\<forall>k \<in> plan_keys d p. has_key k t" by (auto simp: plan_keys_def)
    moreover from waiting have "\<exists>more. jobs (work t) = jobs (work s) @ new @ more \<and> (\<forall>j \<in> set more.
        \<exists>u clock. j = (new_job (waiting_request d ?ws) u)\<lparr>job_status := WAITING_FOR_PUBLICATION, job_updated_at := clock\<rparr>)"
      unfolding new(1) by (elim conjE disjE exE) (simp_all, blast)
    then obtain more where "jobs (work t) = jobs (work s) @ new @ more" "\<forall>j \<in> set more.
        \<exists>u clock. j = (new_job (waiting_request d ?ws) u)\<lparr>job_status := WAITING_FOR_PUBLICATION, job_updated_at := clock\<rparr>" by blast
    ultimately show ?thesis using False new(2) by (intro exI [of _ "new @ more"]) auto
  qed
qed

text \<open>
  C19. A dispatch asks for what is missing and nothing else. After a dispatch on a calendar that keeps its
  law, the queue holds a job under the key of a range around every date of the window that should
  have been published, and one under the waiting key of a range around every date that waits for
  publication. The jobs that were there are untouched, and every one that was added asks for a range
  inside the window, which a worker reads back from its cursor: either a pending one, due now, that
  begins and ends on dates to fetch and has no more of them than a chunk may have, or a waiting one,
  due after the retry interval, that begins and ends on dates that wait. The chunks of the plan hold
  each date to fetch exactly once, and dates without a session are in none.
\<close>

theorem dispatch_covers_window:
  assumes "calendar_port cal f" and "plan_and_enqueue cal d s = (Inr r, t)"
    and "0 < max_sessions_per_chunk (dsp_limits d)" and "valid_date (dsp_today d - max_lookback_days (dsp_limits d))"
    and "valid_date (dsp_today d)" and "a = plan_start (dsp_limits d) (dsp_last_completed d) (dsp_today d)"
    and "class = f (dsp_asset_class d) (dsp_venue d) (dsp_mic d)"
  shows "\<exists>new. jobs (work t) = jobs (work s) @ new
    \<and> (\<forall>x \<in> {a..dsp_today d}. \<exists>b e. x \<in> {b..e}
         \<and> (case class x of EXPECTED_PUBLISHED \<Rightarrow> has_key (fetch_key_of d b e) t
            | WAITING_SESSION \<Rightarrow> has_key (waiting_key_of d b e) t | NO_SESSION \<Rightarrow> True))
    \<and> (\<forall>j \<in> set new. \<exists>b e. asks_for d b e j \<and> b \<in> {a..dsp_today d} \<and> e \<in> {a..dsp_today d}
         \<and> (if job_status j = PENDING
            then dedupe_key j = fetch_key_of d b e \<and> next_run_at j = dsp_now d
              \<and> class b = EXPECTED_PUBLISHED \<and> class e = EXPECTED_PUBLISHED
              \<and> int (length (filter (\<lambda>x. class x = EXPECTED_PUBLISHED) [b..e])) \<le> max_sessions_per_chunk (dsp_limits d)
            else job_status j = WAITING_FOR_PUBLICATION \<and> dedupe_key j = waiting_key_of d b e
              \<and> next_run_at j = dsp_now d + microseconds (dsp_waiting_retry_seconds d)
              \<and> class b = WAITING_SESSION \<and> class e = WAITING_SESSION))
    \<and> concat (map session_dates (chunks (dr_plan r))) = filter (\<lambda>x. class x = EXPECTED_PUBLISHED) [a..dsp_today d]
    \<and> waiting_for_publication (dr_plan r) = filter (\<lambda>x. class x = WAITING_SESSION) [a..dsp_today d]"
proof -
  let ?p = "dr_plan r" and ?W = "{a..dsp_today d}"
  let ?ws = "waiting_for_publication (dr_plan r)"
  from assms(2) have p: "plan cal (dsp_limits d) (dsp_asset_class d) (dsp_venue d) (dsp_mic d)
      (dsp_last_completed d) (dsp_today d) = Inr ?p" and run: "dispatch_plan d ?p s = (Inr r, t)"
    by (auto simp: plan_and_enqueue_def dispatch_plan_def andthen_eq_Inr split: sum.splits)
  note exact = calendar_port.chunk_exact [OF assms(1) p assms(3), folded assms(6,7)]
  have chunks: "concat (map session_dates (chunks ?p)) = filter (\<lambda>x. class x = EXPECTED_PUBLISHED) [a..dsp_today d]"
    unfolding calendar_port.chunk_dates(1) [OF assms(1) p assms(3)] assms(6,7) by (simp add: dates_of_def)
  have waiting: "?ws = filter (\<lambda>x. class x = WAITING_SESSION) [a..dsp_today d]"
    using calendar_port.waiting_dates [OF assms(1) p] by (simp add: assms(6,7) dates_of_def)
  have "dsp_today d - max_lookback_days (dsp_limits d) \<le> a"
    by (simp add: assms(6) plan_start_def Let_def split: option.split)
  then have valid: "valid_date x" if "x \<in> ?W" for x using that assms(4,5) by (auto simp: valid_date_def)
  have ends: "chunk_start c \<in> ?W \<and> chunk_end c \<in> ?W \<and> class (chunk_start c) = EXPECTED_PUBLISHED
      \<and> class (chunk_end c) = EXPECTED_PUBLISHED
      \<and> int (length (filter (\<lambda>x. class x = EXPECTED_PUBLISHED) [chunk_start c..chunk_end c])) \<le> max_sessions_per_chunk (dsp_limits d)"
    if c: "c \<in> set (chunks ?p)" for c
  proof -
    have dates: "filter (\<lambda>x. class x = EXPECTED_PUBLISHED) [chunk_start c..chunk_end c] = session_dates c"
      using exact(1) [OF c, unfolded dates_of_def] by (rule sym)
    have "set (session_dates c) \<subseteq> {x. class x = EXPECTED_PUBLISHED}" unfolding dates [symmetric] by auto
    with exact(2,3) [OF c] show ?thesis
      using calendar_port.chunk_dates(2) [OF assms(1) p assms(3) c] unfolding dates by blast
  qed
  have wait: "hd ?ws \<in> ?W" "last ?ws \<in> ?W" "class (hd ?ws) = WAITING_SESSION" "class (last ?ws) = WAITING_SESSION"
    if "?ws \<noteq> []"
    using hd_in_set [OF that] last_in_set [OF that] unfolding waiting by auto
  from dispatch_plan_rows [OF run] obtain new where new: "jobs (work t) = jobs (work s) @ new"
    "\<forall>k \<in> plan_keys d ?p. has_key k t" "\<forall>j \<in> set new. (\<exists>c \<in> set (chunks ?p). \<exists>u. j = new_job (chunk_request d c) u)
         \<or> ?ws \<noteq> [] \<and> (\<exists>u clock. j = (new_job (waiting_request d ?ws) u)
              \<lparr>job_status := WAITING_FOR_PUBLICATION, job_updated_at := clock\<rparr>)" by blast
  have "\<exists>b e. x \<in> {b..e} \<and> (case class x of EXPECTED_PUBLISHED \<Rightarrow> has_key (fetch_key_of d b e) t
            | WAITING_SESSION \<Rightarrow> has_key (waiting_key_of d b e) t | NO_SESSION \<Rightarrow> True)" if x: "x \<in> ?W" for x
  proof (cases "class x")
    case EXPECTED_PUBLISHED
    with x have "x \<in> set (concat (map session_dates (chunks ?p)))" unfolding chunks by simp
    then obtain c where c: "c \<in> set (chunks ?p)" "x \<in> set (session_dates c)" by auto
    then have "x \<in> {chunk_start c..chunk_end c}" using exact(1) [OF c(1)] by (auto simp: dates_of_def)
    moreover have "has_key (fetch_key_of d (chunk_start c) (chunk_end c)) t"
      using new(2) c(1) by (auto simp: plan_keys_def chunk_request_def fetch_key_of_def)
    ultimately show ?thesis using EXPECTED_PUBLISHED by auto
  next
    case WAITING_SESSION
    with x have w: "x \<in> set ?ws" unfolding waiting by simp
    have "sorted ?ws" unfolding waiting by (intro sorted_wrt_filter) simp
    with w have "x \<in> {hd ?ws..last ?ws}" by (simp add: sorted_hd_le sorted_le_last)
    moreover have "has_key (waiting_key_of d (hd ?ws) (last ?ws)) t"
      using new(2) w by (auto simp: plan_keys_def waiting_request_def waiting_key_of_def split: if_splits)
    ultimately show ?thesis using WAITING_SESSION by auto
  qed auto
  moreover have "\<exists>b e. asks_for d b e j \<and> b \<in> ?W \<and> e \<in> ?W
         \<and> (if job_status j = PENDING
            then dedupe_key j = fetch_key_of d b e \<and> next_run_at j = dsp_now d
              \<and> class b = EXPECTED_PUBLISHED \<and> class e = EXPECTED_PUBLISHED
              \<and> int (length (filter (\<lambda>x. class x = EXPECTED_PUBLISHED) [b..e])) \<le> max_sessions_per_chunk (dsp_limits d)
            else job_status j = WAITING_FOR_PUBLICATION \<and> dedupe_key j = waiting_key_of d b e
              \<and> next_run_at j = dsp_now d + microseconds (dsp_waiting_retry_seconds d)
              \<and> class b = WAITING_SESSION \<and> class e = WAITING_SESSION)" if j: "j \<in> set new" for j
  proof -
    from new(3) j consider (fetch) c u where "c \<in> set (chunks ?p)" "j = new_job (chunk_request d c) u"
      | (later) u clock where "?ws \<noteq> []" "j = (new_job (waiting_request d ?ws) u)\<lparr>job_status := WAITING_FOR_PUBLICATION, job_updated_at := clock\<rparr>"
      by blast
    then show ?thesis
    proof cases
      case fetch
      with ends [OF fetch(1)] chunk_asked [of c d u] valid show ?thesis
        by (intro exI [of _ "chunk_start c"] exI [of _ "chunk_end c"]) (simp add: new_job_def chunk_request_def fetch_key_of_def)
    next
      case later
      with wait [OF later(1)] waiting_asked [where ws = ?ws and d = d and s = u] valid show ?thesis
        by (intro exI [of _ "hd ?ws"] exI [of _ "last ?ws"]) (simp add: new_job_def waiting_request_def waiting_key_of_def)
    qed
  qed
  ultimately show ?thesis using new(1) chunks waiting by blast
qed

text \<open>An empty queue gets one job, for the one day of the window.\<close>

theorem dispatch_covers_window_witness:
  "\<exists>j. jobs (work (snd sample_outcome)) = [j] \<and> asks_for sample_dispatch 738000 738000 j
     \<and> has_key (fetch_key_of sample_dispatch 738000 738000) (snd sample_outcome)"
proof -
  have "0 < max_sessions_per_chunk (dsp_limits sample_dispatch)"
    "valid_date (dsp_today sample_dispatch - max_lookback_days (dsp_limits sample_dispatch))"
    "valid_date (dsp_today sample_dispatch)" by (simp_all add: sample_dispatch_def valid_date_def)
  note covers = dispatch_covers_window [OF fake_calendar.calendar_port_axioms sample_dispatched this refl refl]
  let ?s = "session_on (empty_database SQLITE) 0"
  define j where "j = new_job (chunk_request sample_dispatch (hd (chunks sample_plan))) ?s"
  have j: "jobs (work (snd sample_outcome)) = [j]"
    by (simp add: j_def sample_outcome_def Let_def) (simp add: session_on_def empty_database_def)
  have window: "plan_start (dsp_limits sample_dispatch) (dsp_last_completed sample_dispatch) 738000 = 738000"
    "dsp_today sample_dispatch = 738000" by (simp_all add: sample_dispatch_def plan_start_def)
  have "dedupe_key j = fetch_key_of sample_dispatch 738000 738000"
    by (simp add: j_def new_job_def chunk_request_def sample_plan_def fetch_key_of_def)
  moreover from covers j have "\<exists>b e. asks_for sample_dispatch b e j \<and> b \<in> {738000..738000} \<and> e \<in> {738000..738000}"
    by (auto simp: window session_on_def empty_database_def)
  then have "asks_for sample_dispatch 738000 738000 j" by auto
  ultimately show ?thesis using j by (auto simp: has_key_def)
qed

text \<open>
  C29. The planner's resumption point is safe. It never lies beyond a date that needs data or still
  waits for it, it never moves behind the last completed session, and planning again from it finds
  the same dates to fetch and the same dates to wait for.
\<close>

theorem planning_resumes_safely:
  assumes "calendar_port cal f" and "plan cal limits ac venue mic last_done today = Inr p"
    and "next_cursor p = Some c" and "plan cal limits ac venue mic (Some c) today = Inr p'"
    and "0 < max_sessions_per_chunk limits"
  shows "concat (map session_dates (chunks p')) = concat (map session_dates (chunks p))
    \<and> set (waiting_for_publication p') = set (waiting_for_publication p)
    \<and> filter (\<lambda>d. f ac venue mic d \<noteq> NO_SESSION) [plan_start limits last_done today..c] = []
    \<and> (case last_done of None \<Rightarrow> True | Some l \<Rightarrow> l \<le> c)"
proof -
  have "f ac venue mic d = NO_SESSION" if "d \<in> set [plan_start limits last_done today..c]" for d
    using calendar_port.cursor_safe [OF assms(1,2,3)] that by simp
  moreover have "l \<le> c" if "last_done = Some l" for l
    using calendar_port.cursor_advances [OF assms(1), of limits ac venue mic l today p] assms(2,3) that by auto
  ultimately show ?thesis
    using calendar_port.resume_same [OF assms(1,2) _ assms(5), of p'] assms(3,4)
    by (auto simp: filter_empty_conv split: option.split)
qed

definition weekend_limits :: recovery_limits where
  "weekend_limits = \<lparr>max_lookback_days = 1, max_sessions_per_chunk = 20\<rparr>"

lemma weekend_plan:
  "plan fake_sessions_in_range weekend_limits EQUITY ''XETR'' None last_done 738003 = Inr
     \<lparr>chunks = [], waiting_for_publication = [], skipped_no_session = [738002, 738003], next_cursor = Some 738003\<rparr>"
  if "last_done = None"
  unfolding that
  by (simp add: weekend_limits_def plan_def plan_start_def plan_checks_def group_dates_def dates_expected_def
      fake_sessions_in_range_def fake_expectation_def weekday_def upto_rec1 Let_def)

theorem planning_resumes_safely_witness:
  "filter (\<lambda>d. fake_expectation EQUITY d \<noteq> NO_SESSION) [plan_start weekend_limits None 738003..738003] = []"
proof -
  have "plan fake_sessions_in_range weekend_limits EQUITY ''XETR'' None (Some 738003) 738003
      = Inr \<lparr>chunks = [], waiting_for_publication = [], skipped_no_session = [], next_cursor = Some 738003\<rparr>"
    by (simp add: plan_def plan_start_def Let_def max_def weekend_limits_def)
  from planning_resumes_safely [OF fake_calendar.calendar_port_axioms weekend_plan [OF refl] _ this]
  show ?thesis by (simp add: weekend_limits_def)
qed

end
