(* ===== verification/Versioned.thy ===== *)
theory Versioned
  imports Models
begin

text \<open>
  The contract that the policy registry and the observation store share. Both keep an append-only
  log of rows with a key and a version number, both insert under the version after the greatest
  one of the key, with a unique constraint on key and version, and both take the row of the
  greatest version as the effective one. The locale states what the table promises; its lemmas
  are proved once and hold of both tables by interpretation.
\<close>

definition next_version_of :: "('r \<Rightarrow> 'k) \<Rightarrow> ('r \<Rightarrow> nat) \<Rightarrow> 'k \<Rightarrow> 'r list \<Rightarrow> nat" where
  "next_version_of key ver k rows =
     (case select_max (\<lambda>r. key r = k) ver rows of None \<Rightarrow> 1 | Some m \<Rightarrow> m + 1)"

definition effective_of :: "('r \<Rightarrow> 'k) \<Rightarrow> ('r \<Rightarrow> nat) \<Rightarrow> 'k \<Rightarrow> 'r list \<Rightarrow> 'r option" where
  "effective_of key ver k rows = first_max ver (filter (\<lambda>r. key r = k) rows)"

definition unique_versions :: "('r \<Rightarrow> 'k) \<Rightarrow> ('r \<Rightarrow> nat) \<Rightarrow> 'r list \<Rightarrow> bool" where
  "unique_versions key ver rows \<longleftrightarrow> distinct (map (\<lambda>r. (key r, ver r)) rows)"

text \<open>The versions of a key are 1, 2, ... without a gap, in the order of insertion.\<close>

definition gapless :: "('r \<Rightarrow> 'k) \<Rightarrow> ('r \<Rightarrow> nat) \<Rightarrow> 'r list \<Rightarrow> bool" where
  "gapless key ver rows \<longleftrightarrow>
     (\<forall>k. map ver (filter (\<lambda>r. key r = k) rows)
            = [1..<Suc (length (filter (\<lambda>r. key r = k) rows))])"

lemma next_version_fresh:
  "r \<in> set rows \<Longrightarrow> key r = k \<Longrightarrow> ver r < next_version_of key ver k rows"
  by (auto simp: next_version_of_def select_max_Some_iff select_max_None_iff less_Suc_eq_le
      split: option.splits)

lemma effective_SomeD:
  assumes "effective_of key ver k rows = Some r"
  shows "r \<in> set rows" and "key r = k" and "\<And>q. q \<in> set rows \<Longrightarrow> key q = k \<Longrightarrow> ver q \<le> ver r"
  using first_max_SomeD [OF assms [unfolded effective_of_def]] by auto

lemma effective_None_iff: "effective_of key ver k rows = None \<longleftrightarrow> (\<forall>r \<in> set rows. key r \<noteq> k)"
  by (auto simp: effective_of_def filter_empty_conv)

lemma effective_append_other:
  "key r \<noteq> k \<Longrightarrow> effective_of key ver k (rows @ [r]) = effective_of key ver k rows"
  by (simp add: effective_of_def)

lemma first_max_append_greater:
  "(\<And>q. q \<in> set rows \<Longrightarrow> f q < f r) \<Longrightarrow> first_max f (rows @ [r]) = Some r"
proof (induction rows)
  case (Cons a rows)
  then have "first_max f (rows @ [r]) = Some r" and "f a < f r" by auto
  then show ?case by (auto dest: leD)
qed simp

lemma effective_append_greatest:
  assumes "key r = k" and "\<And>q. q \<in> set rows \<Longrightarrow> key q = k \<Longrightarrow> ver q < ver r"
  shows "effective_of key ver k (rows @ [r]) = Some r"
proof -
  have "first_max ver (filter (\<lambda>q. key q = k) rows @ [r]) = Some r"
    by (rule first_max_append_greater) (use assms(2) in auto)
  with assms(1) show ?thesis by (simp add: effective_of_def)
qed

lemma next_version_effective:
  "next_version_of key ver k rows =
     (case effective_of key ver k rows of None \<Rightarrow> 1 | Some r \<Rightarrow> ver r + 1)"
proof (cases "effective_of key ver k rows")
  case None
  then have "select_max (\<lambda>r. key r = k) ver rows = None"
    by (simp add: effective_None_iff select_max_None_iff)
  with None show ?thesis by (simp add: next_version_of_def)
next
  case (Some r)
  note r = effective_SomeD [OF Some]
  have "select_max (\<lambda>q. key q = k) ver rows = Some (ver r)"
    using r by (auto simp: select_max_Some_iff)
  with Some show ?thesis by (simp add: next_version_of_def)
qed

text \<open>Which row is effective does not depend on the order in which a query returns the rows.\<close>

lemma effective_mset:
  assumes "unique_versions key ver rows" and "mset rows = mset rows'"
  shows "effective_of key ver k rows = effective_of key ver k rows'"
proof (cases "effective_of key ver k rows")
  case None
  with assms(2) show ?thesis by (metis effective_None_iff mset_eq_setD)
next
  case (Some r)
  note r = effective_SomeD [OF Some]
  have sets: "set rows = set rows'" using assms(2) by (rule mset_eq_setD)
  have "inj_on ver (set (filter (\<lambda>r. key r = k) rows'))"
    using assms(1) sets by (auto simp: unique_versions_def distinct_map inj_on_def)
  then have "first_max ver (filter (\<lambda>r. key r = k) rows') = Some r"
    using r sets by (intro first_max_key) auto
  with Some show ?thesis by (simp add: effective_of_def)
qed

lemma gapless_Nil [simp]: "gapless key ver []"
  by (simp add: gapless_def)

lemma gapless_next:
  assumes "gapless key ver rows"
  shows "next_version_of key ver k rows = Suc (length (filter (\<lambda>r. key r = k) rows))"
proof -
  let ?n = "length (filter (\<lambda>r. key r = k) rows)"
  from assms have vs: "map ver (filter (\<lambda>r. key r = k) rows) = [1..<Suc ?n]"
    by (simp add: gapless_def)
  show ?thesis
  proof (cases ?n)
    case 0
    then show ?thesis by (simp add: next_version_of_def select_max_def)
  next
    case (Suc m)
    have "max_opt [1..<Suc ?n] = Some ?n"
      unfolding max_opt_Some_iff using Suc by auto
    then show ?thesis by (simp add: next_version_of_def select_max_def vs del: upt_Suc)
  qed
qed

lemma gapless_append:
  assumes "gapless key ver rows" and "ver r = next_version_of key ver (key r) rows"
  shows "gapless key ver (rows @ [r])"
  using assms gapless_next [OF assms(1), of "key r"] by (simp add: gapless_def)

section \<open>The contract\<close>

locale versioned_log =
  fixes key :: "'r \<Rightarrow> 'k"
    and ver :: "'r \<Rightarrow> nat"
    and rows :: "'t \<Rightarrow> 'r list"
    and append_row :: "'r \<Rightarrow> 't \<Rightarrow> 't option"
  assumes append_row_rows: "append_row r t = Some t' \<Longrightarrow> rows t' = rows t @ [r]"
    and append_row_unique:
      "append_row r t = Some t' \<Longrightarrow> q \<in> set (rows t) \<Longrightarrow> key q = key r \<Longrightarrow> ver q \<noteq> ver r"
begin

lemma append_keeps_unique:
  assumes "append_row r t = Some t'" and "unique_versions key ver (rows t)"
  shows "unique_versions key ver (rows t')"
  using assms append_row_rows [OF assms(1)] append_row_unique [OF assms(1)]
  by (fastforce simp: unique_versions_def)

lemma append_is_effective:
  assumes "append_row r t = Some t'" and "ver r = next_version_of key ver (key r) (rows t)"
  shows "effective_of key ver (key r) (rows t') = Some r"
  unfolding append_row_rows [OF assms(1)]
  by (rule effective_append_greatest) (auto simp: assms(2) next_version_fresh)

lemma append_keeps_others:
  assumes "append_row r t = Some t'" and "k \<noteq> key r"
  shows "effective_of key ver k (rows t') = effective_of key ver k (rows t)"
  unfolding append_row_rows [OF assms(1)] using assms(2) by (intro effective_append_other) auto

lemma append_keeps_gapless:
  assumes "append_row r t = Some t'" and "ver r = next_version_of key ver (key r) (rows t)"
    and "gapless key ver (rows t)"
  shows "gapless key ver (rows t')"
  unfolding append_row_rows [OF assms(1)] using assms(2,3) by (intro gapless_append) auto

lemma append_keeps_rows: "append_row r t = Some t' \<Longrightarrow> prefix (rows t) (rows t')"
  by (simp add: append_row_rows)

end

end
