(* ===== verification/Policy.thy ===== *)
theory Policy
  imports Versioned
begin

text \<open>
  \<open>domain/governance/policy_gate.py\<close>: the versioned registry of policy decisions and the gates
  over it. The registry is an append-only log (\<open>versioned_log\<close>, interpreted below on the table);
  the gates read the effective decision of a source and a capability, and an absent decision is
  \<open>UNRESOLVED\<close>. The locale \<open>publication_policy\<close> is what the rest of the system relies on when it
  asks whether a source may be published.
\<close>

section \<open>The registry\<close>

definition decision_key :: "policy_decision \<Rightarrow> string \<times> PolicyCapability" where
  "decision_key d = (dec_source d, dec_capability d)"

text \<open>
  \<open>INSERT\<close> under the primary key and \<open>uq_source_policy_source_cap_version\<close>; \<open>None\<close> is
  \<open>IntegrityError\<close>.
\<close>

definition insert_decision :: "policy_decision \<Rightarrow> sess \<Rightarrow> sess option" where
  "insert_decision d s =
     (if \<exists>q \<in> set (decisions (work s)). dec_id q = dec_id d
           \<or> dec_source q = dec_source d \<and> dec_capability q = dec_capability d \<and> dec_version q = dec_version d
      then None else Some (on_decisions (\<lambda>ds. ds @ [d]) s))"

definition next_version :: "sess \<Rightarrow> string \<Rightarrow> PolicyCapability \<Rightarrow> nat" where
  "next_version s source capability =
     (case select_max (\<lambda>d. dec_source d = source \<and> dec_capability d = capability) dec_version
             (decisions (work s)) of
        None \<Rightarrow> 1 | Some current_max \<Rightarrow> current_max + 1)"

record decision_input =
  di_source :: string
  di_capability :: PolicyCapability
  di_status :: PolicyStatus
  di_evidence_reference :: string
  di_reviewed_by :: string
  di_reviewed_at :: "datetime option"
  di_notes :: "string option"

definition new_decision :: "decision_input \<Rightarrow> sess \<Rightarrow> policy_decision" where
  "new_decision d s =
     \<lparr>dec_id = uuid4 s, dec_source = di_source d, dec_capability = di_capability d,
      dec_version = next_version s (di_source d) (di_capability d), dec_status = di_status d,
      evidence_reference = di_evidence_reference d, reviewed_by = di_reviewed_by d,
      reviewed_at = (case di_reviewed_at d of None \<Rightarrow> utcnow s | Some t \<Rightarrow> t),
      dec_notes = di_notes d, dec_created_at = utcnow s\<rparr>"

definition record_decision :: "decision_input \<Rightarrow> policy_decision py" where
  "record_decision d s =
     (case insert_decision (new_decision d s) (drawn s) of
        None \<Rightarrow> (Inl IntegrityError, drawn s)
      | Some t \<Rightarrow> (Inr (new_decision d s), t))"

definition effective_decision :: "sess \<Rightarrow> string \<Rightarrow> PolicyCapability \<Rightarrow> policy_decision option" where
  "effective_decision s source capability =
     first_max dec_version
       (filter (\<lambda>d. dec_source d = source \<and> dec_capability d = capability) (decisions (work s)))"

definition effective_status :: "sess \<Rightarrow> string \<Rightarrow> PolicyCapability \<Rightarrow> PolicyStatus" where
  "effective_status s source capability =
     (case effective_decision s source capability of None \<Rightarrow> UNRESOLVED | Some d \<Rightarrow> dec_status d)"

text \<open>
  The session of a failed \<open>record_decision\<close> is one that its owner has to roll back
  (\<open>session_scope\<close>).

  The ORM listeners: flushing a changed or deleted decision raises before any statement.\<close>

definition flush_changed_decision :: "policy_decision \<Rightarrow> unit py" where
  "flush_changed_decision d = throw (PolicyDecisionImmutableError (dec_id d))"

definition flush_deleted_decision :: "policy_decision \<Rightarrow> unit py" where
  "flush_deleted_decision d = throw (PolicyDecisionImmutableError (dec_id d))"

section \<open>The gates\<close>

text \<open>A dictionary built by a comprehension: one entry per key, in order of first occurrence.\<close>

definition dict_keys :: "'a list \<Rightarrow> 'a list" where
  "dict_keys xs = rev (remdups (rev xs))"

definition require :: "sess \<Rightarrow> string \<Rightarrow> PolicyCapability list
    \<Rightarrow> exn + (PolicyCapability \<times> PolicyStatus) list" where
  "require s source capabilities =
     (let statuses = map (\<lambda>cap. (cap, effective_status s source cap)) (dict_keys capabilities);
          blocking = filter (\<lambda>(cap, st). st \<noteq> APPROVED) statuses
      in if blocking \<noteq> [] then Inl (PolicyNotAuthorizedError source blocking) else Inr statuses)"

text \<open>\<open>str(PolicyNotAuthorizedError)\<close>.\<close>

definition policy_error_text :: "string \<Rightarrow> (PolicyCapability \<times> PolicyStatus) list \<Rightarrow> string" where
  "policy_error_text source blocking =
     ''Source '' @ [CHR 0x27] @ source @ [CHR 0x27] @ '' not authorized: ''
       @ join '', '' (map (\<lambda>(cap, st). capability_value cap @ ''='' @ policy_status_value st) blocking)"

definition authorize_retrieval :: "sess \<Rightarrow> string \<Rightarrow> exn + unit" where
  "authorize_retrieval s source = map_sum id (\<lambda>_. ()) (require s source [RETRIEVE])"

record ingestion_authorization =
  retrieval_decision :: policy_decision
  storage_decision :: policy_decision

definition authorize_ingestion :: "sess \<Rightarrow> string \<Rightarrow> exn + ingestion_authorization" where
  "authorize_ingestion s source =
     (case require s source [RETRIEVE, STORE] of
        Inl e \<Rightarrow> Inl e
      | Inr _ \<Rightarrow>
          (case (effective_decision s source RETRIEVE, effective_decision s source STORE) of
             (Some r, Some st) \<Rightarrow> Inr \<lparr>retrieval_decision = r, storage_decision = st\<rparr>
           | _ \<Rightarrow> Inl AssertionError))"

definition is_publication_authorized :: "sess \<Rightarrow> string \<Rightarrow> bool" where
  "is_publication_authorized s source \<longleftrightarrow>
     list_all (\<lambda>cap. effective_status s source cap = APPROVED) [STORE, DISPLAY, REDISTRIBUTE]"

definition authorize_publication :: "sess \<Rightarrow> string \<Rightarrow> exn + unit" where
  "authorize_publication s source =
     map_sum id (\<lambda>_. ()) (require s source [STORE, DISPLAY, REDISTRIBUTE])"

definition requires_attribution :: "sess \<Rightarrow> string \<Rightarrow> bool" where
  "requires_attribution s source \<longleftrightarrow> effective_status s source ATTRIBUTE = APPROVED"

definition may_retain :: "sess \<Rightarrow> string \<Rightarrow> bool" where
  "may_retain s source \<longleftrightarrow> effective_status s source RETAIN = APPROVED"

section \<open>The registry is a versioned log\<close>

interpretation policy_log: versioned_log decision_key dec_version "\<lambda>s. decisions (work s)" insert_decision
  by unfold_locales (auto simp: insert_decision_def decision_key_def split: if_splits)

lemma next_version_log:
  "next_version s source cap = next_version_of decision_key dec_version (source, cap) (decisions (work s))"
  by (simp add: next_version_def next_version_of_def decision_key_def)

lemma effective_decision_log:
  "effective_decision s source cap = effective_of decision_key dec_version (source, cap) (decisions (work s))"
  by (simp add: effective_decision_def effective_of_def decision_key_def)

lemmas policy_log_eqs = next_version_log effective_decision_log

lemma new_decision_version:
  "dec_version (new_decision d s)
     = next_version_of decision_key dec_version (decision_key (new_decision d s)) (decisions (work s))"
  by (simp add: new_decision_def decision_key_def next_version_log)

lemma new_decision_fields [simp]:
  "dec_source (new_decision d s) = di_source d" "dec_capability (new_decision d s) = di_capability d"
  "dec_status (new_decision d s) = di_status d" "dec_id (new_decision d s) = uuid4 s"
  by (simp_all add: new_decision_def)

lemma decision_key_new [simp]: "decision_key (new_decision d s) = (di_source d, di_capability d)"
  by (simp add: decision_key_def)

lemma record_decision_cases:
  obtains (taken) "record_decision d s = (Inl IntegrityError, drawn s)"
      "uuid4 s \<in> set (map dec_id (decisions (work s)))"
  | (added) t where "record_decision d s = (Inr (new_decision d s), t)"
      "insert_decision (new_decision d s) (drawn s) = Some t"
      "decisions (work t) = decisions (work s) @ [new_decision d s]"
proof (cases "insert_decision (new_decision d s) (drawn s)")
  case None
  then obtain q where q: "q \<in> set (decisions (work s))" and
    "dec_id q = uuid4 s \<or> decision_key q = decision_key (new_decision d s)
       \<and> dec_version q = dec_version (new_decision d s)"
    by (auto simp: insert_decision_def decision_key_def split: if_splits)
  moreover have "dec_version q < dec_version (new_decision d s)"
    if "decision_key q = decision_key (new_decision d s)"
    unfolding new_decision_version using q that by (intro next_version_fresh) auto
  ultimately have "dec_id q = uuid4 s" by auto
  with q None taken show ?thesis by (force simp: record_decision_def)
next
  case (Some t)
  with added policy_log.append_row_rows [OF Some] show ?thesis by (simp add: record_decision_def)
qed

text \<open>
  After a decision is recorded it is the effective one of its source and capability, no other
  source or capability changes, and every earlier row is still there.
\<close>

lemma record_decision_effective:
  assumes "record_decision d s = (Inr r, t)"
  shows "effective_decision t (di_source d) (di_capability d) = Some r"
proof (cases rule: record_decision_cases [of d s])
  case (added u)
  with assms have "r = new_decision d s" "u = t" by auto
  with policy_log.append_is_effective [OF added(2)] show ?thesis
    by (simp add: effective_decision_log new_decision_version)
qed (use assms in simp)

lemma record_decision_others:
  assumes "record_decision d s = (r, t)" and "(source, cap) \<noteq> (di_source d, di_capability d)"
  shows "effective_decision t source cap = effective_decision s source cap"
  using assms by (cases rule: record_decision_cases [of d s])
    (auto simp: effective_decision_log effective_append_other)

lemma record_decision_keeps:
  assumes "record_decision d s = (r, t)"
  shows "prefix (decisions (work s)) (decisions (work t))"
  using assms by (cases rule: record_decision_cases [of d s]) auto

lemma record_decision_gapless:
  assumes "record_decision d s = (r, t)" and "gapless decision_key dec_version (decisions (work s))"
  shows "gapless decision_key dec_version (decisions (work t))"
  using assms by (cases rule: record_decision_cases [of d s])
    (auto intro!: gapless_append simp: new_decision_version)

section \<open>What the gates decide\<close>

lemma set_dict_keys [simp]: "set (dict_keys xs) = set xs"
  by (simp add: dict_keys_def)

lemma dict_keys_distinct: "distinct xs \<Longrightarrow> dict_keys xs = xs"
  by (simp add: dict_keys_def distinct_remdups_id)

lemma require_Inr_iff:
  "(\<exists>st. require s source caps = Inr st) \<longleftrightarrow> (\<forall>cap \<in> set caps. effective_status s source cap = APPROVED)"
  by (auto simp: require_def Let_def filter_empty_conv)

lemma require_Inl:
  assumes "require s source caps = Inl e"
  shows "\<exists>blocking. e = PolicyNotAuthorizedError source blocking \<and> blocking \<noteq> []
    \<and> set blocking = {(cap, effective_status s source cap) |cap. cap \<in> set caps \<and> effective_status s source cap \<noteq> APPROVED}"
  using assms by (auto simp: require_def Let_def split: if_splits)

lemma effective_status_absent:
  "(\<And>d. d \<in> set (decisions (work s)) \<Longrightarrow> dec_source d = source \<Longrightarrow> dec_capability d \<noteq> cap)
    \<Longrightarrow> effective_status s source cap = UNRESOLVED"
  by (auto simp: effective_status_def effective_decision_def filter_empty_conv split: option.splits)

lemma effective_decision_in:
  assumes "effective_decision s source cap = Some d"
  shows "d \<in> set (decisions (work s)) \<and> dec_source d = source \<and> dec_capability d = cap"
  using first_max_SomeD [OF assms [unfolded effective_decision_def]] by auto

lemma is_publication_authorized_iff:
  "is_publication_authorized s source \<longleftrightarrow> (\<exists>u. authorize_publication s source = Inr u)"
proof -
  have "(\<exists>u. authorize_publication s source = Inr u)
      \<longleftrightarrow> (\<exists>st. require s source [STORE, DISPLAY, REDISTRIBUTE] = Inr st)"
    by (cases "require s source [STORE, DISPLAY, REDISTRIBUTE]") (auto simp: authorize_publication_def)
  then show ?thesis by (simp add: require_Inr_iff is_publication_authorized_def)
qed

lemma approved_decision:
  assumes "effective_status s source cap = APPROVED"
  obtains d where "effective_decision s source cap = Some d" "dec_status d = APPROVED"
  using assms by (auto simp: effective_status_def split: option.splits)

lemma authorize_ingestion_Inr:
  assumes "authorize_ingestion s source = Inr a"
  shows "effective_decision s source RETRIEVE = Some (retrieval_decision a)
    \<and> effective_decision s source STORE = Some (storage_decision a)
    \<and> dec_status (retrieval_decision a) = APPROVED \<and> dec_status (storage_decision a) = APPROVED"
proof -
  from assms obtain st where "require s source [RETRIEVE, STORE] = Inr st"
    by (auto simp: authorize_ingestion_def split: sum.splits)
  then have "effective_status s source RETRIEVE = APPROVED" "effective_status s source STORE = APPROVED"
    using require_Inr_iff [of s source "[RETRIEVE, STORE]"] by auto
  with assms show ?thesis
    by (auto simp: authorize_ingestion_def effective_status_def split: sum.splits option.splits)
qed

lemma authorize_ingestion_Inl:
  assumes "authorize_ingestion s source = Inl e"
  shows "\<exists>blocking. e = PolicyNotAuthorizedError source blocking
    \<and> (effective_status s source RETRIEVE \<noteq> APPROVED \<or> effective_status s source STORE \<noteq> APPROVED)"
proof (cases "require s source [RETRIEVE, STORE]")
  case (Inl e')
  with assms have "e' = e" by (simp add: authorize_ingestion_def)
  with Inl require_Inl [OF Inl] require_Inr_iff [of s source "[RETRIEVE, STORE]"] show ?thesis by auto
next
  case (Inr st)
  then have "effective_status s source RETRIEVE = APPROVED" "effective_status s source STORE = APPROVED"
    using require_Inr_iff [of s source "[RETRIEVE, STORE]"] by auto
  then obtain r st' where "effective_decision s source RETRIEVE = Some r"
    "effective_decision s source STORE = Some st'"
    by (auto elim!: approved_decision)
  with Inr assms show ?thesis by (simp add: authorize_ingestion_def)
qed

lemma authorize_ingestion_ok_iff:
  "(\<exists>a. authorize_ingestion s source = Inr a) \<longleftrightarrow>
     effective_status s source RETRIEVE = APPROVED \<and> effective_status s source STORE = APPROVED"
  using authorize_ingestion_Inl [of s source] authorize_ingestion_Inr [of s source]
  by (cases "authorize_ingestion s source") (auto simp: effective_status_def)

section \<open>What other components rely on\<close>

text \<open>
  A publication policy is a question about a source that only the registry answers: no write to
  another table can change it, and a decision recorded for another source cannot either.
\<close>

locale publication_policy =
  fixes authorized :: "sess \<Rightarrow> string \<Rightarrow> bool"
  assumes registry_only: "decisions (work s) = decisions (work t) \<Longrightarrow> authorized s source = authorized t source"
    and own_source: "record_decision d s = (r, t) \<Longrightarrow> di_source d \<noteq> source \<Longrightarrow> authorized t source = authorized s source"
begin

lemma unaffected_by_observations: "authorized (on_observations f s) source = authorized s source"
  by (rule registry_only) simp

lemma unaffected_by_jobs: "authorized (on_jobs f s) source = authorized s source"
  by (rule registry_only) simp

lemma filter_unaffected:
  "decisions (work s) = decisions (work t) \<Longrightarrow> filter (authorized s) sources = filter (authorized t) sources"
  by (rule filter_cong [OF refl]) (rule registry_only)

end

lemma effective_status_cong:
  "decisions (work s) = decisions (work t) \<Longrightarrow> effective_status s = effective_status t"
  by (auto simp: fun_eq_iff effective_status_def effective_decision_def)

interpretation publication_gate: publication_policy is_publication_authorized
proof unfold_locales
  fix s t :: sess and source
  assume "decisions (work s) = decisions (work t)"
  then show "is_publication_authorized s source = is_publication_authorized t source"
    by (simp add: is_publication_authorized_def effective_status_cong [of s t])
next
  fix d s r t source
  assume "record_decision d s = (r, t)" "di_source d \<noteq> source"
  then have "effective_status t source = effective_status s source"
    using record_decision_others [of d s r t] by (auto simp: fun_eq_iff effective_status_def)
  then show "is_publication_authorized t source = is_publication_authorized s source"
    by (simp add: is_publication_authorized_def)
qed

section \<open>Properties of the registry and its gates\<close>

definition sample_decision :: "uuid \<Rightarrow> PolicyCapability \<Rightarrow> nat \<Rightarrow> PolicyStatus \<Rightarrow> policy_decision" where
  "sample_decision i cap v st = \<lparr>dec_id = i, dec_source = ''fake'', dec_capability = cap, dec_version = v,
     dec_status = st, evidence_reference = ''e'', reviewed_by = ''r'', reviewed_at = 0, dec_notes = None,
     dec_created_at = 0\<rparr>"

definition approved_decisions :: "policy_decision list" where
  "approved_decisions = [sample_decision 1 RETRIEVE 1 APPROVED, sample_decision 2 STORE 1 DENIED,
     sample_decision 3 STORE 2 APPROVED, sample_decision 4 DISPLAY 1 APPROVED,
     sample_decision 5 REDISTRIBUTE 1 APPROVED]"

definition approved_session :: sess where
  "approved_session = session_on ((empty_database SQLITE)\<lparr>decisions := approved_decisions\<rparr>) 0"

definition revoking_input :: decision_input where
  "revoking_input = \<lparr>di_source = ''fake'', di_capability = DISPLAY, di_status = DENIED,
     di_evidence_reference = ''e'', di_reviewed_by = ''r'', di_reviewed_at = None, di_notes = None\<rparr>"

lemmas approved_defs = sample_decision_def approved_decisions_def approved_session_def session_on_def
  empty_database_def revoking_input_def

definition newest_approved :: "sess \<Rightarrow> string \<Rightarrow> PolicyCapability \<Rightarrow> bool" where
  "newest_approved s source cap \<longleftrightarrow>
     (\<exists>d \<in> set (decisions (work s)). dec_source d = source \<and> dec_capability d = cap \<and> dec_status d = APPROVED
        \<and> effective_decision s source cap = Some d
        \<and> (\<forall>q \<in> set (decisions (work s)). dec_source q = source \<and> dec_capability q = cap \<longrightarrow> dec_version q \<le> dec_version d))"

lemma newest_approved_iff: "effective_status s source cap = APPROVED \<longleftrightarrow> newest_approved s source cap"
proof
  assume "effective_status s source cap = APPROVED"
  then obtain d where d: "effective_decision s source cap = Some d" "dec_status d = APPROVED"
    by (auto elim: approved_decision)
  with effective_decision_in [OF d(1)] first_max_SomeD [OF d(1) [unfolded effective_decision_def]]
  show "newest_approved s source cap" by (fastforce simp: newest_approved_def)
qed (auto simp: newest_approved_def effective_status_def)

text \<open>
  Default deny. A source may be published exactly when the newest recorded decision of each of
  \<open>STORE\<close>, \<open>DISPLAY\<close> and \<open>REDISTRIBUTE\<close> is \<open>APPROVED\<close>, the gate that raises agrees with the one that
  answers, and ingestion is authorised exactly on \<open>RETRIEVE\<close> and \<open>STORE\<close>. A missing decision refuses.
\<close>

theorem gates_need_newest_approval:
  "is_publication_authorized s source
     = (newest_approved s source STORE \<and> newest_approved s source DISPLAY \<and> newest_approved s source REDISTRIBUTE)
   \<and> (authorize_publication s source = Inr ()) = is_publication_authorized s source
   \<and> (\<exists>a. authorize_ingestion s source = Inr a)
     = (newest_approved s source RETRIEVE \<and> newest_approved s source STORE)"
  using is_publication_authorized_iff [of s source] authorize_ingestion_ok_iff [of s source]
  by (simp add: is_publication_authorized_def newest_approved_iff)

text \<open>
  The decisions an ingestion is authorised by are the effective ones of the source, recorded and
  approved; a refusal names the source and the capabilities that block it, of which there is one.
\<close>

theorem ingestion_provenance:
  assumes "authorize_ingestion s source = r"
  shows "case r of
      Inr a \<Rightarrow> effective_decision s source RETRIEVE = Some (retrieval_decision a)
        \<and> effective_decision s source STORE = Some (storage_decision a)
        \<and> {retrieval_decision a, storage_decision a} \<subseteq> set (decisions (work s))
        \<and> dec_status (retrieval_decision a) = APPROVED \<and> dec_status (storage_decision a) = APPROVED
    | Inl e \<Rightarrow> (\<exists>blocking. e = PolicyNotAuthorizedError source blocking
        \<and> (effective_status s source RETRIEVE \<noteq> APPROVED \<or> effective_status s source STORE \<noteq> APPROVED))"
proof (cases r)
  case (Inl e)
  with assms authorize_ingestion_Inl [of s source e] show ?thesis by simp
next
  case (Inr a)
  with assms have "authorize_ingestion s source = Inr a" by simp
  from authorize_ingestion_Inr [OF this] Inr show ?thesis by (auto dest: effective_decision_in)
qed

theorem ingestion_provenance_witness:
  "effective_decision approved_session ''fake'' STORE = Some (sample_decision 3 STORE 2 APPROVED)"
proof -
  have "authorize_ingestion approved_session ''fake'' = Inr \<lparr>retrieval_decision = sample_decision 1 RETRIEVE 1 APPROVED,
      storage_decision = sample_decision 3 STORE 2 APPROVED\<rparr>"
    by (simp add: authorize_ingestion_def require_def dict_keys_def effective_status_def effective_decision_def approved_defs)
  from ingestion_provenance [OF this] show ?thesis by simp
qed

text \<open>
  The newest decision rules. A decision that is recorded becomes the effective one of its source
  and capability at once, whatever was approved before; the effective decisions of every other source
  and capability stay, every earlier row stays where it was, and the versions of each source and
  capability stay gapless.
\<close>

theorem newest_decision_rules:
  assumes "record_decision d s = (Inr r, t)" and "gapless decision_key dec_version (decisions (work s))"
  shows "effective_decision t (di_source d) (di_capability d) = Some r \<and> dec_status r = di_status d
    \<and> (\<forall>source cap. (source, cap) \<noteq> (di_source d, di_capability d) \<longrightarrow>
         effective_decision t source cap = effective_decision s source cap)
    \<and> prefix (decisions (work s)) (decisions (work t))
    \<and> gapless decision_key dec_version (decisions (work t))"
proof -
  have "dec_status r = di_status d"
    using assms(1) by (cases rule: record_decision_cases [of d s]) auto
  moreover note record_decision_effective [OF assms(1)] record_decision_keeps [OF assms(1)]
    record_decision_gapless [OF assms]
  moreover have "effective_decision t source cap = effective_decision s source cap"
    if "(source, cap) \<noteq> (di_source d, di_capability d)" for source cap
    using record_decision_others [OF assms(1) that] .
  ultimately show ?thesis by blast
qed

theorem newest_decision_rules_witness:
  "\<exists>r t. record_decision revoking_input (session_on (empty_database SQLITE) 0) = (Inr r, t)
     \<and> effective_decision t ''fake'' DISPLAY = Some r"
proof -
  let ?s = "session_on (empty_database SQLITE) 0"
  have "record_decision revoking_input ?s = (Inr (new_decision revoking_input ?s), snd (record_decision revoking_input ?s))"
    by (simp add: record_decision_def insert_decision_def session_on_def empty_database_def)
  moreover have "gapless decision_key dec_version (decisions (work ?s))"
    by (simp add: session_on_def empty_database_def)
  ultimately show ?thesis using newest_decision_rules [of revoking_input ?s] by (fastforce simp: revoking_input_def)
qed

end
