(* ===== verification/Observations.thy ===== *)
theory Observations
  imports Versioned
begin

text \<open>
  \<open>domain/observations/service.py\<close> and the append-only guards of \<open>domain/observations/models.py\<close>
  and migration 0003: the store of observations.

  \<open>record\<close> reads the current revision, inserts the next one inside a savepoint and retries when the
  unique constraint refuses it, at most eight times. Other sessions may commit rows between the
  read and the insert of each attempt: \<open>rivals n rows\<close> are the rows they add when \<open>n\<close> attempts are
  left after the current one. The conversion that the \<open>Numeric(20, 8)\<close> columns make of a value is
  the parameter \<open>col\<close>: the identity for a row that the session still holds in its identity map,
  \<open>numeric_20_8\<close> for one that another session reads back from the database.
\<close>

section \<open>The table\<close>

definition natural_key :: "observation \<Rightarrow> string \<times> string \<times> string \<times> date \<times> ObservationType" where
  "natural_key o1 = (obs_source o1, credential_scope o1, external_listing_id o1, session_date o1, observation_type o1)"

text \<open>\<open>Numeric(20, 8)\<close>: eight decimal places, rounded to the nearest.\<close>

fun numeric_20_8 :: "decimal \<Rightarrow> decimal" where
  "numeric_20_8 (Fin r) = Fin (of_int \<lfloor>r * 100000000 + 1 / 2\<rfloor> / 100000000)"
| "numeric_20_8 x = x"

text \<open>
  \<open>INSERT\<close> under the primary key, \<open>uq_observations_idempotency_key\<close> and the foreign keys of the
  table; \<open>None\<close> is \<open>IntegrityError\<close>.
\<close>

definition insert_observation :: "observation \<Rightarrow> sess \<Rightarrow> sess option" where
  "insert_observation o1 s =
     (if (\<exists>q \<in> set (observations (work s)). obs_id q = obs_id o1
             \<or> natural_key q = natural_key o1 \<and> revision q = revision o1)
         \<or> \<not> fk_holds s (listing_exists s (obs_listing_id o1)
               \<and> decision_exists s (retrieval_policy_decision_id o1)
               \<and> decision_exists s (storage_policy_decision_id o1))
      then None else Some (on_observations (\<lambda>os. os @ [o1]) s))"

text \<open>
  The ORM listeners refuse to flush a changed or deleted row, and the triggers of migration 0003
  abort any other \<open>UPDATE\<close> or \<open>DELETE\<close> that reaches a row. \<open>delete_statement\<close> and
  \<open>update_statement\<close> are such statements with the condition \<open>p\<close>.
\<close>

definition flush_changed_observation :: "observation \<Rightarrow> unit py" where
  "flush_changed_observation o1 = throw (ObservationImmutableError (obs_id o1))"

definition flush_deleted_observation :: "observation \<Rightarrow> unit py" where
  "flush_deleted_observation o1 = throw (ObservationImmutableError (obs_id o1))"

definition update_statement :: "(observation \<Rightarrow> bool) \<Rightarrow> (observation \<Rightarrow> observation) \<Rightarrow> nat py" where
  "update_statement p f s =
     (if list_ex p (observations (work s)) then (Inl IntegrityError, s)
      else (Inr 0, on_observations (update_where p f) s))"

definition delete_statement :: "(observation \<Rightarrow> bool) \<Rightarrow> nat py" where
  "delete_statement p s =
     (if list_ex p (observations (work s)) then (Inl IntegrityError, s)
      else (Inr 0, on_observations (filter (\<lambda>o1. \<not> p o1)) s))"

section \<open>The store\<close>

record observation_input =
  in_listing_id :: uuid
  in_source :: string
  in_credential_scope :: string
  in_external_listing_id :: string
  in_session_date :: date
  in_observation_type :: ObservationType
  in_currency :: string
  in_close :: decimal
  in_retrieved_at :: datetime
  in_retrieval_decision :: "uuid option"
  in_storage_decision :: "uuid option"
  in_quality_status :: QualityStatus
  in_open :: "decimal option"
  in_high :: "decimal option"
  in_low :: "decimal option"
  in_adjusted_close :: "decimal option"

record record_outcome =
  ro_observation :: observation
  ro_created :: bool
  ro_is_correction :: bool

definition max_revision_attempts :: nat where
  "max_revision_attempts = 8"

definition input_key :: "observation_input \<Rightarrow> string \<times> string \<times> string \<times> date \<times> ObservationType" where
  "input_key d = (in_source d, in_credential_scope d, in_external_listing_id d, in_session_date d, in_observation_type d)"

definition current_for_key :: "sess \<Rightarrow> string \<Rightarrow> string \<Rightarrow> string \<Rightarrow> date \<Rightarrow> ObservationType \<Rightarrow> observation option" where
  "current_for_key s source scope ext day otype =
     first_max revision (filter (\<lambda>q. obs_source q = source \<and> credential_scope q = scope
       \<and> external_listing_id q = ext \<and> session_date q = day \<and> observation_type q = otype)
       (observations (work s)))"

definition current_revision :: "sess \<Rightarrow> observation_input \<Rightarrow> observation option" where
  "current_revision s d =
     first_max revision (filter (\<lambda>q. obs_source q = in_source d \<and> credential_scope q = in_credential_scope d
       \<and> external_listing_id q = in_external_listing_id d \<and> session_date q = in_session_date d
       \<and> observation_type q = in_observation_type d) (observations (work s)))"

definition same_value :: "observation \<Rightarrow> observation_input \<Rightarrow> bool" where
  "same_value q d \<longleftrightarrow>
     obs_currency q = upper (in_currency d)
     \<and> dec_eq (obs_close q) (in_close d)
     \<and> dec_opt_eq (obs_open q) (in_open d)
     \<and> dec_opt_eq (obs_high q) (in_high d)
     \<and> dec_opt_eq (obs_low q) (in_low d)
     \<and> dec_opt_eq (obs_adjusted_close q) (in_adjusted_close d)
     \<and> quality_status q = in_quality_status d"

definition candidate :: "(decimal \<Rightarrow> decimal) \<Rightarrow> observation_input \<Rightarrow> nat \<Rightarrow> sess \<Rightarrow> observation" where
  "candidate col d n s =
     \<lparr>obs_id = uuid4 s, obs_listing_id = in_listing_id d, obs_source = in_source d,
      credential_scope = in_credential_scope d, external_listing_id = in_external_listing_id d,
      session_date = in_session_date d, observation_type = in_observation_type d, revision = n,
      obs_currency = upper (in_currency d), obs_close = col (in_close d),
      obs_open = map_option col (in_open d), obs_high = map_option col (in_high d),
      obs_low = map_option col (in_low d), obs_adjusted_close = map_option col (in_adjusted_close d),
      quality_status = in_quality_status d, retrieved_at = in_retrieved_at d,
      retrieval_policy_decision_id = in_retrieval_decision d,
      storage_policy_decision_id = in_storage_decision d, obs_created_at = utcnow s\<rparr>"

text \<open>Rows that other sessions commit are there for this session and after its rollback.\<close>

definition commit_elsewhere :: "(observation list \<Rightarrow> observation list) \<Rightarrow> sess \<Rightarrow> sess" where
  "commit_elsewhere f s =
     (let new = f (observations (work s))
      in s\<lparr>work := (work s)\<lparr>observations := observations (work s) @ new\<rparr>,
           durable := (durable s)\<lparr>observations := observations (durable s) @ new\<rparr>\<rparr>)"

definition duplicate_of :: "sess \<Rightarrow> observation_input \<Rightarrow> observation option" where
  "duplicate_of s d = (case current_revision s d of None \<Rightarrow> None
     | Some c \<Rightarrow> if same_value c d then Some c else None)"

definition next_revision :: "sess \<Rightarrow> observation_input \<Rightarrow> nat" where
  "next_revision s d = (case current_revision s d of None \<Rightarrow> 1 | Some c \<Rightarrow> revision c + 1)"

fun record_attempts :: "(decimal \<Rightarrow> decimal) \<Rightarrow> (nat \<Rightarrow> observation list \<Rightarrow> observation list)
    \<Rightarrow> nat \<Rightarrow> observation_input \<Rightarrow> record_outcome py" where
  "record_attempts col rivals 0 d s = (Inl RevisionRaceExhaustedError, s)"
| "record_attempts col rivals (Suc n) d s =
     (case duplicate_of s d of
        Some c \<Rightarrow> (Inr \<lparr>ro_observation = c, ro_created = False, ro_is_correction = False\<rparr>, s)
      | None \<Rightarrow>
          (let cand = candidate col d (next_revision s d) s;
               s' = commit_elsewhere (rivals n) (drawn s)
           in case insert_observation cand s' of
                None \<Rightarrow> record_attempts col rivals n d s'
              | Some t \<Rightarrow> (Inr \<lparr>ro_observation = cand, ro_created = True,
                              ro_is_correction = current_revision s d \<noteq> None\<rparr>, t)))"

declare record_attempts.simps(2) [simp del]

definition record_observation :: "(decimal \<Rightarrow> decimal) \<Rightarrow> (nat \<Rightarrow> observation list \<Rightarrow> observation list)
    \<Rightarrow> observation_input \<Rightarrow> record_outcome py" where
  "record_observation col rivals d = record_attempts col rivals max_revision_attempts d"

definition no_rivals :: "nat \<Rightarrow> observation list \<Rightarrow> observation list" where
  "no_rivals n os = []"

definition last_completed_session :: "sess \<Rightarrow> string \<Rightarrow> string \<Rightarrow> string \<Rightarrow> ObservationType \<Rightarrow> date option" where
  "last_completed_session s source scope ext otype =
     select_max (\<lambda>q. obs_source q = source \<and> credential_scope q = scope
       \<and> external_listing_id q = ext \<and> observation_type q = otype) session_date (observations (work s))"

section \<open>The store is a versioned log\<close>

interpretation obs_log: versioned_log natural_key revision "\<lambda>s. observations (work s)" insert_observation
  by unfold_locales (auto simp: insert_observation_def split: if_splits)

lemma current_revision_log:
  "current_revision s d = effective_of natural_key revision (input_key d) (observations (work s))"
  by (simp add: current_revision_def effective_of_def natural_key_def input_key_def)

lemma current_for_key_log:
  "current_for_key s source scope ext day otype
     = effective_of natural_key revision (source, scope, ext, day, otype) (observations (work s))"
  by (simp add: current_for_key_def effective_of_def natural_key_def)

lemma next_revision_log:
  "next_revision s d = next_version_of natural_key revision (input_key d) (observations (work s))"
  by (simp add: next_revision_def next_version_effective current_revision_log)

lemma natural_key_candidate [simp]: "natural_key (candidate col d n s) = input_key d"
  by (simp add: natural_key_def input_key_def candidate_def)

lemma candidate_fields [simp]:
  "revision (candidate col d n s) = n" "obs_id (candidate col d n s) = uuid4 s"
  "obs_listing_id (candidate col d n s) = in_listing_id d"
  "retrieval_policy_decision_id (candidate col d n s) = in_retrieval_decision d"
  "storage_policy_decision_id (candidate col d n s) = in_storage_decision d"
  by (simp_all add: candidate_def)

lemma commit_elsewhere_simps [simp]:
  "observations (work (commit_elsewhere f s)) = observations (work s) @ f (observations (work s))"
  "jobs (work (commit_elsewhere f s)) = jobs (work s)"
  "decisions (work (commit_elsewhere f s)) = decisions (work s)"
  "listings (work (commit_elsewhere f s)) = listings (work s)"
  "engine (work (commit_elsewhere f s)) = engine (work s)"
  "wall (commit_elsewhere f s) = wall s" "uuid_draws (commit_elsewhere f s) = uuid_draws s"
  "uuid_supply (commit_elsewhere f s) = uuid_supply s"
  by (simp_all add: commit_elsewhere_def Let_def)

lemma commit_elsewhere_none [simp]: "commit_elsewhere (no_rivals n) s = s"
  by (simp add: commit_elsewhere_def no_rivals_def Let_def)

lemma duplicate_of_SomeD:
  "duplicate_of s d = Some c \<Longrightarrow> current_revision s d = Some c \<and> same_value c d"
  by (auto simp: duplicate_of_def split: option.splits if_splits)

section \<open>Append-only\<close>

text \<open>
  Whatever other sessions commit meanwhile, and whether or not it succeeds, recording keeps every
  row, as it was and where it was.
\<close>

lemma record_attempts_prefix:
  "record_attempts col rivals n d s = (r, t) \<Longrightarrow> prefix (observations (work s)) (observations (work t))"
proof (induction n arbitrary: s)
  case 0
  then show ?case by simp
next
  case (Suc n)
  show ?case
  proof (cases "duplicate_of s d")
    case (Some c)
    with Suc.prems show ?thesis by (simp add: record_attempts.simps(2))
  next
    case None
    let ?s = "commit_elsewhere (rivals n) (drawn s)"
    let ?cand = "candidate col d (next_revision s d) s"
    have pre: "prefix (observations (work s)) (observations (work ?s))" by simp
    show ?thesis
    proof (cases "insert_observation ?cand ?s")
      case None
      with \<open>duplicate_of s d = None\<close> Suc.prems have "record_attempts col rivals n d ?s = (r, t)"
        by (simp add: record_attempts.simps(2) Let_def)
      with Suc.IH pre show ?thesis by (metis prefix_order.trans)
    next
      case (Some u)
      with \<open>duplicate_of s d = None\<close> Suc.prems have "u = t"
        by (simp add: record_attempts.simps(2) Let_def)
      with obs_log.append_keeps_rows [OF Some] pre show ?thesis by (metis prefix_order.trans)
    qed
  qed
qed

text \<open>No statement that changes or removes rows of the table has an effect on it.\<close>

lemma update_statement_rows:
  "update_statement p f s = (r, t) \<Longrightarrow> observations (work t) = observations (work s)"
  by (auto simp: update_statement_def list_ex_iff update_where_none split: if_splits)

lemma delete_statement_rows:
  "delete_statement p s = (r, t) \<Longrightarrow> observations (work t) = observations (work s)"
  by (auto simp: delete_statement_def list_ex_iff filter_id_conv split: if_splits)

text \<open>Any sequence of the operations that reach the table.\<close>

datatype obs_op =
    Record observation_input "nat \<Rightarrow> observation list \<Rightarrow> observation list"
  | Update_Rows "observation \<Rightarrow> bool" "observation \<Rightarrow> observation"
  | Delete_Rows "observation \<Rightarrow> bool"

fun obs_step :: "(decimal \<Rightarrow> decimal) \<Rightarrow> obs_op \<Rightarrow> sess \<Rightarrow> sess" where
  "obs_step col (Record d rivals) s = snd (record_observation col rivals d s)"
| "obs_step col (Update_Rows p f) s = snd (update_statement p f s)"
| "obs_step col (Delete_Rows p) s = snd (delete_statement p s)"

lemma obs_step_prefix: "prefix (observations (work s)) (observations (work (obs_step col x s)))"
  by (cases x) (auto simp: record_observation_def intro: record_attempts_prefix [OF surjective_pairing]
      simp: update_statement_rows [OF surjective_pairing] delete_statement_rows [OF surjective_pairing])

lemma obs_steps_prefix:
  "prefix (observations (work s)) (observations (work (fold (obs_step col) xs s)))"
proof (induction xs arbitrary: s)
  case (Cons x xs)
  then show ?case using obs_step_prefix prefix_order.trans by (metis fold_simps(2))
qed simp

section \<open>Unique and gapless revisions\<close>

text \<open>
  Other sessions write under the same constraints, so the rows they add keep what the constraint
  says of the table.
\<close>

definition lawful_rivals :: "(nat \<Rightarrow> observation list \<Rightarrow> observation list) \<Rightarrow> bool" where
  "lawful_rivals rivals \<longleftrightarrow>
     (\<forall>n os. unique_versions natural_key revision os \<longrightarrow> unique_versions natural_key revision (os @ rivals n os))"

lemma lawful_no_rivals [simp]: "lawful_rivals no_rivals"
  by (simp add: lawful_rivals_def no_rivals_def)

lemma record_attempts_unique:
  assumes "lawful_rivals rivals"
  shows "record_attempts col rivals n d s = (r, t)
    \<Longrightarrow> unique_versions natural_key revision (observations (work s))
    \<Longrightarrow> unique_versions natural_key revision (observations (work t))"
proof (induction n arbitrary: s)
  case 0
  then show ?case by simp
next
  case (Suc n)
  let ?s = "commit_elsewhere (rivals n) (drawn s)"
  let ?cand = "candidate col d (next_revision s d) s"
  have u: "unique_versions natural_key revision (observations (work ?s))"
    using assms Suc.prems(2) by (simp add: lawful_rivals_def)
  show ?case
  proof (cases "duplicate_of s d")
    case (Some c)
    with Suc.prems show ?thesis by (simp add: record_attempts.simps(2))
  next
    case None
    show ?thesis
    proof (cases "insert_observation ?cand ?s")
      case None
      with \<open>duplicate_of s d = None\<close> Suc.prems have "record_attempts col rivals n d ?s = (r, t)"
        by (simp add: record_attempts.simps(2) Let_def)
      then show ?thesis using u by (rule Suc.IH)
    next
      case (Some v)
      with \<open>duplicate_of s d = None\<close> Suc.prems have "v = t"
        by (simp add: record_attempts.simps(2) Let_def)
      with obs_log.append_keeps_unique [OF Some u] show ?thesis by simp
    qed
  qed
qed

section \<open>One writer\<close>

text \<open>The insert of a fresh identifier for listings and decisions that exist cannot be refused.\<close>

definition insertable :: "observation_input \<Rightarrow> sess \<Rightarrow> bool" where
  "insertable d s \<longleftrightarrow>
     uuid4 s \<notin> set (map obs_id (observations (work s)))
     \<and> fk_holds s (listing_exists s (in_listing_id d)
         \<and> decision_exists s (in_retrieval_decision d) \<and> decision_exists s (in_storage_decision d))"

lemma insert_next_revision:
  assumes "insertable d s"
  shows "insert_observation (candidate col d (next_revision s d) s) (drawn s)
    = Some (on_observations (\<lambda>os. os @ [candidate col d (next_revision s d) s]) (drawn s))"
proof -
  have "revision q \<noteq> next_revision s d"
    if "q \<in> set (observations (work s))" "natural_key q = input_key d" for q
    using next_version_fresh [OF that(1), of natural_key, OF that(2), of revision]
    by (auto simp: next_revision_log)
  moreover have "fk_holds (drawn s) b = fk_holds s b" "listing_exists (drawn s) = listing_exists s"
    "decision_exists (drawn s) = decision_exists s" for b
    by (simp_all add: fk_holds_def listing_exists_def decision_exists_def fun_eq_iff split: option.splits)
  ultimately show ?thesis
    using assms by (auto simp: insert_observation_def insertable_def rev_image_eqI)
qed

lemma record_alone:
  assumes "insertable d s"
  shows "record_observation col no_rivals d s =
    (case duplicate_of s d of
       Some c \<Rightarrow> (Inr \<lparr>ro_observation = c, ro_created = False, ro_is_correction = False\<rparr>, s)
     | None \<Rightarrow> (Inr \<lparr>ro_observation = candidate col d (next_revision s d) s, ro_created = True,
                     ro_is_correction = current_revision s d \<noteq> None\<rparr>,
               on_observations (\<lambda>os. os @ [candidate col d (next_revision s d) s]) (drawn s)))"
  by (simp add: record_observation_def max_revision_attempts_def numeral_eq_Suc record_attempts.simps(2)
      insert_next_revision [OF assms] Let_def split: option.splits)

text \<open>
  A value that the columns keep and that equals itself: no NaN, and nothing beyond eight decimals
  when the row is read back.
\<close>

definition kept_by :: "(decimal \<Rightarrow> decimal) \<Rightarrow> observation_input \<Rightarrow> bool" where
  "kept_by col d \<longleftrightarrow>
     list_all (\<lambda>x. col x = x \<and> x \<noteq> NaN)
       (in_close d # List.map_filter id [in_open d, in_high d, in_low d, in_adjusted_close d])"

lemma kept_by_opt:
  "kept_by col d \<Longrightarrow> x \<in> {in_open d, in_high d, in_low d, in_adjusted_close d}
    \<Longrightarrow> map_option col x = x \<and> x \<noteq> Some NaN"
  by (auto simp: kept_by_def List.map_filter_def split: if_splits option.splits)

lemma same_value_candidate: "kept_by col d \<Longrightarrow> same_value (candidate col d n s) d"
  using kept_by_opt [of col d] by (auto simp: same_value_def candidate_def dec_eq_iff dec_opt_eq_iff kept_by_def)

text \<open>After a value is recorded it is the current one of its key, and recording it again changes nothing.\<close>

lemma record_current:
  assumes "insertable d s" and "kept_by col d" and "record_observation col no_rivals d s = (r, t)"
  shows "duplicate_of t d \<noteq> None"
proof (cases "duplicate_of s d")
  case (Some c)
  with assms(3) record_alone [OF assms(1)] have "t = s" by simp
  with Some show ?thesis by simp
next
  case None
  let ?cand = "candidate col d (next_revision s d) s"
  from None assms(3) record_alone [OF assms(1)]
  have t: "t = on_observations (\<lambda>os. os @ [?cand]) (drawn s)" by simp
  have "insert_observation ?cand (drawn s) = Some t"
    unfolding t by (rule insert_next_revision [OF assms(1)])
  then have "effective_of natural_key revision (input_key d) (observations (work t)) = Some ?cand"
    using obs_log.append_is_effective [of ?cand "drawn s" t] by (simp add: next_revision_log)
  then have "current_revision t d = Some ?cand" by (simp add: current_revision_log)
  with same_value_candidate [OF assms(2)] show ?thesis by (simp add: duplicate_of_def)
qed

lemma record_duplicate:
  "duplicate_of s d = Some c \<Longrightarrow> record_observation col rivals d s
     = (Inr \<lparr>ro_observation = c, ro_created = False, ro_is_correction = False\<rparr>, s)"
  by (simp add: record_observation_def max_revision_attempts_def record_attempts.simps(2) numeral_eq_Suc)

lemma record_gapless:
  assumes "insertable d s" and "record_observation col no_rivals d s = (r, t)"
    and "gapless natural_key revision (observations (work s))"
  shows "gapless natural_key revision (observations (work t))"
  using assms(2) record_alone [OF assms(1), of col] assms(3)
  by (auto simp: next_revision_log intro!: gapless_append split: option.splits)

text \<open>The recovery cursor is the greatest date recorded, so recording never moves it back.\<close>

lemma last_completed_grows:
  assumes "last_completed_session s source scope ext otype = Some d"
    and "set (observations (work s)) \<subseteq> set (observations (work t))"
  shows "\<exists>d'. last_completed_session t source scope ext otype = Some d' \<and> d \<le> d'"
proof -
  from assms(1) obtain q where q: "q \<in> set (observations (work s))" "obs_source q = source"
    "credential_scope q = scope" "external_listing_id q = ext" "observation_type q = otype"
    "session_date q = d"
    unfolding last_completed_session_def select_max_Some_iff by blast
  with assms(2) have qt: "q \<in> set (observations (work t))" by blast
  show ?thesis
  proof (cases "last_completed_session t source scope ext otype")
    case None
    with q qt show ?thesis unfolding last_completed_session_def select_max_None_iff by blast
  next
    case (Some d')
    with q qt have "d \<le> d'" unfolding last_completed_session_def select_max_Some_iff by blast
    with Some show ?thesis by blast
  qed
qed

section \<open>Properties of the store\<close>

definition sample_input :: "decimal \<Rightarrow> observation_input" where
  "sample_input c = \<lparr>in_listing_id = 1, in_source = ''fake'', in_credential_scope = ''default'',
     in_external_listing_id = ''X'', in_session_date = 738000, in_observation_type = EOD_CLOSE,
     in_currency = ''EUR'', in_close = c, in_retrieved_at = 0, in_retrieval_decision = None,
     in_storage_decision = None, in_quality_status = QS_OK, in_open = None, in_high = None, in_low = None,
     in_adjusted_close = None\<rparr>"

definition empty_store :: sess where
  "empty_store = session_on (empty_database SQLITE) 0"

lemmas store_defs = sample_input_def empty_store_def session_on_def empty_database_def

lemma sample_insertable: "insertable (sample_input c) empty_store"
  by (simp add: insertable_def fk_holds_def store_defs)

text \<open>
  C22. Append-only. No sequence of recordings, updates and deletions that reaches the table, whatever
  rows other sessions commit in between and whether or not the operations succeed, changes or
  removes a row.
\<close>

theorem history_append_only:
  "prefix (observations (work s)) (observations (work (fold (obs_step col) ops s)))"
  by (rule obs_steps_prefix)

section \<open>Writers that follow the same procedure\<close>

text \<open>
  The other writers number the revisions as this one does, so the rows they commit keep the revisions of
  every key gapless; and the identifiers that are drawn here are used by nobody else.
\<close>

definition orderly_rivals :: "(nat \<Rightarrow> observation list \<Rightarrow> observation list) \<Rightarrow> bool" where
  "orderly_rivals rivals \<longleftrightarrow>
     (\<forall>n os. gapless natural_key revision os \<longrightarrow> gapless natural_key revision (os @ rivals n os))"

definition own_ids :: "(nat \<Rightarrow> observation list \<Rightarrow> observation list) \<Rightarrow> sess \<Rightarrow> bool" where
  "own_ids rivals s \<longleftrightarrow> (\<forall>q \<in> set (observations (work s)). obs_id q \<notin> range (uuid_supply s))
     \<and> (\<forall>n os. \<forall>q \<in> set (rivals n os). obs_id q \<notin> range (uuid_supply s))"

definition refers_to_rows :: "observation_input \<Rightarrow> sess \<Rightarrow> bool" where
  "refers_to_rows d s \<longleftrightarrow> fk_holds s (listing_exists s (in_listing_id d)
     \<and> decision_exists s (in_retrieval_decision d) \<and> decision_exists s (in_storage_decision d))"

definition rows_of :: "observation_input \<Rightarrow> sess \<Rightarrow> observation list" where
  "rows_of d s = filter (\<lambda>q. natural_key q = input_key d) (observations (work s))"

lemma orderly_no_rivals [simp]: "orderly_rivals no_rivals"
  by (simp add: orderly_rivals_def no_rivals_def)

lemma own_idsD:
  assumes "own_ids rivals s" and "q \<in> set (observations (work s)) \<or> q \<in> set (rivals n os)"
  shows "obs_id q \<noteq> uuid_supply s k"
  using assms unfolding own_ids_def by blast

lemma own_ids_rival_commit: "own_ids rivals s \<Longrightarrow> own_ids rivals (commit_elsewhere (rivals n) (drawn s))"
  unfolding own_ids_def by (simp add: ball_Un)

lemma rival_commit:
  "refers_to_rows d (commit_elsewhere (rivals n) (drawn s)) = refers_to_rows d s"
  "rows_of d (commit_elsewhere (rivals n) (drawn s))
     = rows_of d s @ filter (\<lambda>q. natural_key q = input_key d) (rivals n (observations (work s)))"
  by (auto simp: refers_to_rows_def rows_of_def fk_holds_def listing_exists_def decision_exists_def
      image_Un split: option.splits)

lemma next_revision_gapless:
  "gapless natural_key revision (observations (work s)) \<Longrightarrow> next_revision s d = Suc (length (rows_of d s))"
  by (simp add: next_revision_log gapless_next rows_of_def)

text \<open>The next revision is taken exactly when a rival has added a row of the key.\<close>

lemma insert_among_rivals:
  assumes "gapless natural_key revision (observations (work s))" and "own_ids rivals s" and "refers_to_rows d s"
    and "gapless natural_key revision (observations (work s) @ rivals n (observations (work s)))"
  defines "u \<equiv> commit_elsewhere (rivals n) (drawn s)"
  shows "insert_observation (candidate col d (next_revision s d) s) u =
     (if rows_of d u = rows_of d s then Some (on_observations (\<lambda>os. os @ [candidate col d (next_revision s d) s]) u) else None)"
proof -
  let ?cand = "candidate col d (next_revision s d) s" and ?new = "rivals n (observations (work s))"
  have rows: "observations (work u) = observations (work s) @ ?new" by (simp add: u_def)
  have ids: "obs_id q \<noteq> uuid4 s" if "q \<in> set (observations (work u))" for q
    using that own_idsD [OF assms(2)] unfolding rows uuid4_def by auto
  have refs: "refers_to_rows d u" using assms(3) by (simp add: u_def rival_commit(1))
  have versions: "map revision (rows_of d u) = [1..<Suc (length (rows_of d u))]"
    using spec [OF assms(4) [unfolded gapless_def], of "input_key d"] by (simp only: rows_of_def rows)
  have grows: "rows_of d u = rows_of d s @ filter (\<lambda>q. natural_key q = input_key d) ?new"
    by (simp add: u_def rival_commit(2))
  have "(\<exists>q \<in> set (observations (work u)). natural_key q = input_key d \<and> revision q = next_revision s d)
      \<longleftrightarrow> next_revision s d \<in> set (map revision (rows_of d u))"
    by (fastforce simp: rows_of_def image_iff)
  also have "\<dots> \<longleftrightarrow> rows_of d u \<noteq> rows_of d s"
    unfolding versions next_revision_gapless [OF assms(1)]
    by (cases "filter (\<lambda>q. natural_key q = input_key d) ?new") (auto simp: grows simp del: upt_Suc)
  finally show ?thesis using ids refs by (auto simp: insert_observation_def refers_to_rows_def)
qed

text \<open>What an outcome says of the rows, when \<open>n\<close> attempts were left at the state \<open>s\<close>.\<close>

definition recorded_among :: "nat \<Rightarrow> observation_input \<Rightarrow> sess \<Rightarrow> exn + record_outcome \<Rightarrow> sess \<Rightarrow> bool" where
  "recorded_among n d s r t \<longleftrightarrow>
     (case r of
        Inl e \<Rightarrow> e = RevisionRaceExhaustedError \<and> length (rows_of d s) + n \<le> length (rows_of d t)
      | Inr out \<Rightarrow> current_revision t d = Some (ro_observation out)
          \<and> (if ro_created out
             then revision (ro_observation out) = length (rows_of d t)
               \<and> (ro_is_correction out \<longleftrightarrow> length (rows_of d t) \<noteq> 1)
               \<and> last (observations (work t)) = ro_observation out
               \<and> length (rows_of d s) < length (rows_of d t)
             else same_value (ro_observation out) d \<and> \<not> ro_is_correction out))"

lemma record_attempts_among:
  assumes "orderly_rivals rivals"
  shows "record_attempts col rivals n d s = (r, t) \<Longrightarrow> gapless natural_key revision (observations (work s))
    \<Longrightarrow> own_ids rivals s \<Longrightarrow> refers_to_rows d s
    \<Longrightarrow> gapless natural_key revision (observations (work t)) \<and> recorded_among n d s r t"
proof (induction n arbitrary: s)
  case 0
  then show ?case by (auto simp: recorded_among_def)
next
  case (Suc n)
  let ?u = "commit_elsewhere (rivals n) (drawn s)" and ?cand = "candidate col d (next_revision s d) s"
  have u: "gapless natural_key revision (observations (work ?u))"
    using assms Suc.prems(2) by (simp add: orderly_rivals_def)
  note insert = insert_among_rivals [OF Suc.prems(2-4), of n col] u [simplified]
  show ?case
  proof (cases "duplicate_of s d")
    case (Some c)
    with Suc.prems duplicate_of_SomeD [OF Some] show ?thesis
      by (auto simp: record_attempts.simps(2) recorded_among_def)
  next
    case none: None
    show ?thesis
    proof (cases "rows_of d ?u = rows_of d s")
      case True
      let ?t = "on_observations (\<lambda>os. os @ [?cand]) ?u"
      from True insert have some: "insert_observation ?cand ?u = Some ?t" by simp
      with none Suc.prems(1) have t: "t = ?t" "r = Inr \<lparr>ro_observation = ?cand, ro_created = True,
          ro_is_correction = current_revision s d \<noteq> None\<rparr>"
        by (simp_all add: record_attempts.simps(2) Let_def)
      have nxt: "next_revision s d = next_version_of natural_key revision (input_key d) (observations (work ?u))"
        using gapless_next [OF u, of "input_key d"] True next_revision_gapless [OF Suc.prems(2)] by (simp add: rows_of_def)
      have "gapless natural_key revision (observations (work t))"
        using obs_log.append_keeps_gapless [OF some _ u] nxt by (simp add: t)
      moreover have "current_revision t d = Some ?cand"
        using obs_log.append_is_effective [OF some] nxt by (simp add: t current_revision_log)
      moreover have "rows_of d t = rows_of d s @ [?cand]" using True by (simp add: rows_of_def t)
      moreover have "current_revision s d = None \<longleftrightarrow> rows_of d s = []"
        by (auto simp: current_revision_log effective_None_iff rows_of_def filter_empty_conv)
      ultimately show ?thesis
        using next_revision_gapless [OF Suc.prems(2), of d] by (simp add: recorded_among_def t)
    next
      case False
      with insert none Suc.prems(1) have run: "record_attempts col rivals n d ?u = (r, t)"
        by (simp add: record_attempts.simps(2) Let_def)
      have more: "length (rows_of d s) < length (rows_of d ?u)"
        using False unfolding rival_commit(2) by (cases "filter (\<lambda>q. natural_key q = input_key d) (rivals n (observations (work s)))") auto
      have "gapless natural_key revision (observations (work t)) \<and> recorded_among n d ?u r t"
        using Suc.IH [OF run u own_ids_rival_commit [OF Suc.prems(3)]] Suc.prems(4) by (simp add: rival_commit(1))
      with more show ?thesis by (auto simp: recorded_among_def split: sum.splits)
    qed
  qed
qed

lemma gapless_unique: "gapless key ver rows \<Longrightarrow> unique_versions key ver rows"
proof (induction rows rule: rev_induct)
  case (snoc r rows)
  let ?of = "\<lambda>rows. filter (\<lambda>q. key q = key r) rows"
  have versions: "map ver (?of rows) @ [ver r] = [1..<Suc (length (?of rows))] @ [Suc (length (?of rows))]"
    using spec [OF snoc.prems [unfolded gapless_def], of "key r"] by simp
  have "gapless key ver rows"
    unfolding gapless_def
  proof
    fix k
    show "map ver (filter (\<lambda>r. key r = k) rows) = [1..<Suc (length (filter (\<lambda>r. key r = k) rows))]"
      using spec [OF snoc.prems [unfolded gapless_def], of k] versions by (cases "key r = k") simp_all
  qed
  moreover have "ver q < ver r" if "q \<in> set rows" "key q = key r" for q
  proof -
    have "ver q \<in> set (map ver (?of rows))" using that by simp
    then have "ver q \<in> set [1..<Suc (length (?of rows))]" using versions by (simp only: append1_eq_conv)
    with versions show ?thesis by (auto simp del: upt_Suc)
  qed
  ultimately show ?case using snoc.IH by (fastforce simp: unique_versions_def)
qed (simp add: unique_versions_def)

text \<open>
  C21. Concurrent writers. As long as the other writers number their revisions as this one does, whatever
  they commit between its reads and its inserts, recording leaves the revisions of every key 1, 2, ...
  without a gap or a repetition. What it returns is then the newest revision of its key: an existing
  row of the same value, or the row it has appended, whose revision is the number of rows of the key
  and which is a correction unless it is the first. It fails only when others have recorded at least
  eight rows of its key meanwhile, one for each of its attempts.
\<close>

theorem revisions_unique_under_races:
  assumes "orderly_rivals rivals" and "own_ids rivals s" and "refers_to_rows d s"
    and "gapless natural_key revision (observations (work s))" and "record_observation col rivals d s = (r, t)"
  shows "gapless natural_key revision (observations (work t)) \<and> unique_versions natural_key revision (observations (work t))
    \<and> (case r of
         Inl e \<Rightarrow> e = RevisionRaceExhaustedError \<and> length (rows_of d s) + 8 \<le> length (rows_of d t)
       | Inr out \<Rightarrow> current_revision t d = Some (ro_observation out)
           \<and> (if ro_created out
              then revision (ro_observation out) = length (rows_of d t)
                \<and> (ro_is_correction out \<longleftrightarrow> length (rows_of d t) \<noteq> 1)
                \<and> last (observations (work t)) = ro_observation out
                \<and> length (rows_of d s) < length (rows_of d t)
              else same_value (ro_observation out) d \<and> \<not> ro_is_correction out))"
proof -
  have "gapless natural_key revision (observations (work t)) \<and> recorded_among 8 d s r t"
    by (rule record_attempts_among [OF assms(1) _ assms(4,2,3)])
      (use assms(5) in \<open>simp add: record_observation_def max_revision_attempts_def\<close>)
  then show ?thesis by (auto simp: recorded_among_def gapless_unique)
qed

text \<open>
  A row of the key with the close 5 is stored, a rival records 7 between the first read and the first
  insert: the insert is refused, and 6 becomes revision 3 at the second attempt.
\<close>

definition stored_row :: observation where
  "stored_row = (candidate id (sample_input (Fin 5)) 1 empty_store)\<lparr>obs_id := 1\<rparr>"

definition rival_row :: "nat \<Rightarrow> observation" where
  "rival_row n = (candidate id (sample_input (Fin 7)) n empty_store)\<lparr>obs_id := 2\<rparr>"

definition one_rival :: "nat \<Rightarrow> observation list \<Rightarrow> observation list" where
  "one_rival n os = (if n = 7 then [rival_row (next_version_of natural_key revision (input_key (sample_input (Fin 7))) os)] else [])"

definition raced_store :: sess where
  "raced_store = on_observations (\<lambda>os. [stored_row]) empty_store"

lemma race_rows:
  "natural_key stored_row = input_key (sample_input (Fin c))" "natural_key (rival_row n) = input_key (sample_input (Fin c))"
  "revision stored_row = 1" "revision (rival_row n) = n" "obs_id stored_row = 1" "obs_id (rival_row n) = 2"
  "obs_close stored_row = Fin 5" "obs_close (rival_row n) = Fin 7" "observations (work raced_store) = [stored_row]"
  by (simp_all add: stored_row_def rival_row_def raced_store_def natural_key_def candidate_def input_key_def sample_input_def)

lemma one_rival_orderly: "orderly_rivals one_rival"
  by (auto simp: orderly_rivals_def one_rival_def race_rows(2,4) intro!: gapless_append)
    (simp add: race_rows(2) [of _ 7])

lemma raced_record:
  "\<exists>out t. record_observation numeric_20_8 one_rival (sample_input (Fin 6)) raced_store = (Inr out, t)
     \<and> ro_created out \<and> revision (ro_observation out) = 3"
proof -
  let ?d = "sample_input (Fin 6)" and ?s = raced_store
  let ?u = "commit_elsewhere (one_rival 7) (drawn ?s)"
  let ?v = "commit_elsewhere (one_rival 6) (drawn ?u)"
  have close: "in_close ?d = Fin 6" by (simp add: sample_input_def)
  have "current_revision ?s ?d = Some stored_row"
    by (simp only: current_revision_log race_rows(9)) (simp add: effective_of_def race_rows(1) [of 6])
  then have first: "duplicate_of ?s ?d = None" "next_revision ?s ?d = 2"
    by (simp_all add: duplicate_of_def next_revision_def same_value_def race_rows close dec_eq_iff)
  have "next_version_of natural_key revision (input_key (sample_input (Fin 7))) [stored_row] = 2"
    by (simp add: next_version_of_def select_max_def race_rows(3) race_rows(1) [of 7])
  then have rows: "observations (work ?u) = [stored_row, rival_row 2]" "observations (work ?v) = [stored_row, rival_row 2]"
    by (simp_all add: one_rival_def race_rows(9))
  have "rival_row 2 \<in> set (observations (work ?u))" unfolding rows by simp
  then have lost: "insert_observation (candidate numeric_20_8 ?d 2 ?s) ?u = None"
    unfolding insert_observation_def natural_key_candidate candidate_fields using race_rows(2,4) by metis
  have "current_revision ?u ?d = Some (rival_row 2)"
    by (simp only: current_revision_log rows)
      (simp add: effective_of_def race_rows(1) [of 6] race_rows(2) [of _ 6] race_rows(3,4))
  then have second: "duplicate_of ?u ?d = None" "next_revision ?u ?d = 3"
    by (simp_all add: duplicate_of_def next_revision_def same_value_def race_rows close dec_eq_iff)
  have "uuid4 ?u = 1001"
    by (simp add: uuid4_def drawn_def commit_elsewhere_def Let_def raced_store_def on_observations_def store_defs)
  moreover have "engine (work ?v) = SQLITE" by (simp add: raced_store_def on_observations_def store_defs)
  ultimately obtain t where won: "insert_observation (candidate numeric_20_8 ?d 3 ?u) ?v = Some t"
    unfolding insert_observation_def natural_key_candidate candidate_fields rows by (simp add: race_rows fk_holds_def)
  have "record_observation numeric_20_8 one_rival ?d ?s = record_attempts numeric_20_8 one_rival (Suc 7) ?d ?s"
    by (simp add: record_observation_def max_revision_attempts_def)
  also have "\<dots> = record_attempts numeric_20_8 one_rival (Suc 6) ?d ?u"
    unfolding record_attempts.simps(2) [of _ _ 7] by (simp add: first lost Let_def)
  finally show ?thesis unfolding record_attempts.simps(2) [of _ _ 6] by (simp add: second won Let_def)
qed

theorem revisions_unique_under_races_witness:
  "\<exists>out t. record_observation numeric_20_8 one_rival (sample_input (Fin 6)) raced_store = (Inr out, t)
     \<and> revision (ro_observation out) = 3 \<and> length (rows_of (sample_input (Fin 6)) t) = 3
     \<and> gapless natural_key revision (observations (work t))"
proof -
  obtain out t where run: "record_observation numeric_20_8 one_rival (sample_input (Fin 6)) raced_store = (Inr out, t)"
    and out: "ro_created out" "revision (ro_observation out) = 3" using raced_record by blast
  have "own_ids one_rival raced_store"
    by (auto simp: own_ids_def one_rival_def race_rows) (auto simp: raced_store_def on_observations_def store_defs)
  moreover have "refers_to_rows (sample_input (Fin 6)) raced_store"
    by (simp add: refers_to_rows_def fk_holds_def raced_store_def on_observations_def store_defs)
  moreover have "gapless natural_key revision (observations (work raced_store))"
    by (simp add: race_rows(9) gapless_def race_rows(3))
  ultimately show ?thesis
    using revisions_unique_under_races [OF one_rival_orderly _ _ _ run] run out by auto
qed

section \<open>Recording again\<close>

lemma same_value_candidate_iff: "same_value (candidate col d n s) d = kept_by col d"
  by (auto simp: same_value_def candidate_def kept_by_def dec_eq_iff dec_opt_eq_iff List.map_filter_def split: option.splits)

text \<open>
  C33. Idempotence. After a recording that no other writer disturbs, with a fresh identifier and references
  that exist, recording the value again returns the same row and changes nothing, unless the first
  recording stored a value that its columns do not keep (a NaN, or digits they round away): then, and
  only then, recording it again stores it as one more correction. Either way the revisions of every
  key stay gapless.
\<close>

theorem record_is_idempotent:
  assumes "insertable d s" and "record_observation col no_rivals d s = (r, t)"
    and "gapless natural_key revision (observations (work s))"
  shows "\<exists>out. r = Inr out \<and> gapless natural_key revision (observations (work t))
    \<and> (if ro_created out \<and> \<not> kept_by col d
       then insertable d t \<longrightarrow> (\<exists>again u. record_observation col no_rivals d t = (Inr again, u)
              \<and> ro_created again \<and> ro_is_correction again \<and> revision (ro_observation again) = revision (ro_observation out) + 1
              \<and> observations (work u) = observations (work t) @ [ro_observation again])
       else record_observation col rivals d t
              = (Inr \<lparr>ro_observation = ro_observation out, ro_created = False, ro_is_correction = False\<rparr>, t))"
proof (cases "duplicate_of s d")
  case (Some c)
  with assms(2) record_alone [OF assms(1), of col] have "r = Inr \<lparr>ro_observation = c, ro_created = False,
      ro_is_correction = False\<rparr>" "t = s" by simp_all
  with record_duplicate [OF Some] assms(3) show ?thesis by simp
next
  case None
  let ?cand = "candidate col d (next_revision s d) s"
  have t: "t = on_observations (\<lambda>os. os @ [?cand]) (drawn s)"
    and r: "r = Inr \<lparr>ro_observation = ?cand, ro_created = True, ro_is_correction = current_revision s d \<noteq> None\<rparr>"
    using None assms(2) record_alone [OF assms(1), of col] by simp_all
  have "insert_observation ?cand (drawn s) = Some t" unfolding t by (rule insert_next_revision [OF assms(1)])
  from obs_log.append_is_effective [OF this] have current: "current_revision t d = Some ?cand"
    by (simp add: next_revision_log current_revision_log)
  show ?thesis
  proof (cases "kept_by col d")
    case True
    with current have "duplicate_of t d = Some ?cand" by (simp add: duplicate_of_def same_value_candidate)
    from record_duplicate [OF this] record_gapless [OF assms] True show ?thesis by (simp add: r)
  next
    case False
    with current have "duplicate_of t d = None" "next_revision t d = next_revision s d + 1"
      by (simp_all add: duplicate_of_def same_value_candidate_iff next_revision_def)
    with record_alone [of d t col] current record_gapless [OF assms] False show ?thesis by (auto simp: r)
  qed
qed

text \<open>A close of 5 is recognised again, a third is recorded again with each retry.\<close>

theorem record_is_idempotent_witness:
  "(\<exists>out t. record_observation numeric_20_8 no_rivals (sample_input (Fin 5)) empty_store = (Inr out, t)
      \<and> record_observation numeric_20_8 no_rivals (sample_input (Fin 5)) t
          = (Inr \<lparr>ro_observation = ro_observation out, ro_created = False, ro_is_correction = False\<rparr>, t))
   \<and> (\<exists>t again u. t = snd (record_observation numeric_20_8 no_rivals (sample_input (Fin (1 / 3))) empty_store)
      \<and> record_observation numeric_20_8 no_rivals (sample_input (Fin (1 / 3))) t = (Inr again, u) \<and> ro_is_correction again)"
proof
  have gapless: "gapless natural_key revision (observations (work empty_store))" by (simp add: store_defs)
  have "\<lfloor>(5::rat) * 100000000 + 1 / 2\<rfloor> = 500000000" by (simp add: floor_eq_iff)
  then have "kept_by numeric_20_8 (sample_input (Fin 5))"
    by (simp add: kept_by_def sample_input_def List.map_filter_def)
  with record_is_idempotent [OF sample_insertable surjective_pairing gapless]
  show "\<exists>out t. record_observation numeric_20_8 no_rivals (sample_input (Fin 5)) empty_store = (Inr out, t)
      \<and> record_observation numeric_20_8 no_rivals (sample_input (Fin 5)) t
          = (Inr \<lparr>ro_observation = ro_observation out, ro_created = False, ro_is_correction = False\<rparr>, t)"
    by (metis prod.collapse)
next
  let ?d = "sample_input (Fin (1 / 3))"
  let ?t = "snd (record_observation numeric_20_8 no_rivals ?d empty_store)"
  have gapless: "gapless natural_key revision (observations (work empty_store))" by (simp add: store_defs)
  have "\<lfloor>(1 / 3 :: rat) * 100000000 + 1 / 2\<rfloor> = 33333333" by (simp add: floor_eq_iff)
  then have "\<not> kept_by numeric_20_8 ?d" by (simp add: kept_by_def sample_input_def)
  moreover have "duplicate_of empty_store ?d = None" by (simp add: duplicate_of_def current_revision_def store_defs)
  then have t: "?t = on_observations (\<lambda>os. os @ [candidate numeric_20_8 ?d (next_revision empty_store ?d) empty_store]) (drawn empty_store)"
    "ro_created (projr (fst (record_observation numeric_20_8 no_rivals ?d empty_store)))"
    using record_alone [OF sample_insertable, of numeric_20_8 "Fin (1 / 3)"] by simp_all
  moreover have "insertable ?d ?t"
    unfolding t(1) by (simp add: insertable_def fk_holds_def on_observations_def drawn_def candidate_def uuid4_def store_defs)
  moreover obtain out where out: "fst (record_observation numeric_20_8 no_rivals ?d empty_store) = Inr out"
    "if ro_created out \<and> \<not> kept_by numeric_20_8 ?d
       then insertable ?d ?t \<longrightarrow> (\<exists>again u. record_observation numeric_20_8 no_rivals ?d ?t = (Inr again, u)
              \<and> ro_created again \<and> ro_is_correction again \<and> revision (ro_observation again) = revision (ro_observation out) + 1
              \<and> observations (work u) = observations (work ?t) @ [ro_observation again])
       else record_observation numeric_20_8 no_rivals ?d ?t
              = (Inr \<lparr>ro_observation = ro_observation out, ro_created = False, ro_is_correction = False\<rparr>, ?t)"
    using record_is_idempotent [OF sample_insertable surjective_pairing gapless, where rivals = no_rivals] by blast
  ultimately have "\<exists>again u. record_observation numeric_20_8 no_rivals ?d ?t = (Inr again, u) \<and> ro_is_correction again"
    by (simp only: out(1) sum.sel) (simp, blast)
  then show "\<exists>t again u. t = ?t \<and> record_observation numeric_20_8 no_rivals ?d t = (Inr again, u) \<and> ro_is_correction again"
    by blast
qed

text \<open>
  A correction is a new row. When the current row of the key has another value, a recording
  without rivals appends the next revision, which is then the current one, reports a correction and
  leaves every earlier row in place; the first value of a key gets revision 1 and is no correction.
\<close>

theorem correction_is_a_new_revision:
  assumes "insertable d s" and "duplicate_of s d = None"
  shows "\<exists>r t. record_observation col no_rivals d s = (Inr r, t) \<and> ro_created r
    \<and> observations (work t) = observations (work s) @ [ro_observation r]
    \<and> current_revision t d = Some (ro_observation r)
    \<and> (case current_revision s d of
         None \<Rightarrow> revision (ro_observation r) = 1 \<and> \<not> ro_is_correction r
       | Some c \<Rightarrow> revision (ro_observation r) = revision c + 1 \<and> ro_is_correction r)"
proof -
  let ?cand = "candidate col d (next_revision s d) s"
  let ?t = "on_observations (\<lambda>os. os @ [?cand]) (drawn s)"
  have "insert_observation ?cand (drawn s) = Some ?t" by (rule insert_next_revision [OF assms(1)])
  from obs_log.append_is_effective [OF this] have "current_revision ?t d = Some ?cand"
    by (simp add: current_revision_log next_revision_log)
  with record_alone [OF assms(1), of col] assms(2) show ?thesis
    by (auto simp: next_revision_def split: option.splits)
qed

theorem correction_is_a_new_revision_witness:
  "\<exists>r t. record_observation numeric_20_8 no_rivals (sample_input (Fin 5)) empty_store = (Inr r, t)
     \<and> revision (ro_observation r) = 1"
proof -
  have none: "current_revision empty_store (sample_input (Fin 5)) = None"
    by (simp add: current_revision_def store_defs)
  then have "duplicate_of empty_store (sample_input (Fin 5)) = None" by (simp add: duplicate_of_def)
  from correction_is_a_new_revision [OF sample_insertable this, of numeric_20_8] none show ?thesis by auto
qed

text \<open>
  Precision. A close of more than eight decimals is never recognised again once the row has been
  through its \<open>Numeric(20, 8)\<close> column: every later recording of the same value adds one more revision.
\<close>

theorem excess_precision_never_settles:
  assumes "insertable d s" and "numeric_20_8 (in_close d) \<noteq> in_close d"
    and "\<forall>q \<in> set (observations (work s)). numeric_20_8 (obs_close q) = obs_close q"
  shows "\<exists>r t. record_observation numeric_20_8 no_rivals d s = (Inr r, t) \<and> ro_created r
    \<and> length (observations (work t)) = length (observations (work s)) + 1"
proof -
  have "\<not> same_value c d" if "current_revision s d = Some c" for c
  proof -
    have "c \<in> set (observations (work s))"
      using that effective_SomeD(1) by (metis current_revision_log)
    with assms(2,3) show ?thesis by (auto simp: same_value_def dec_eq_iff)
  qed
  then have "duplicate_of s d = None" by (auto simp: duplicate_of_def split: option.splits)
  with record_alone [OF assms(1), of numeric_20_8] show ?thesis by simp
qed

theorem excess_precision_never_settles_witness:
  "\<exists>r t. record_observation numeric_20_8 no_rivals (sample_input (Fin (1 / 3))) empty_store = (Inr r, t)
     \<and> ro_created r"
proof -
  have "\<lfloor>(1 / 3 :: rat) * 100000000 + 1 / 2\<rfloor> = 33333333" by (simp add: floor_eq_iff)
  then have "numeric_20_8 (Fin (1 / 3)) \<noteq> Fin (1 / 3)" by simp
  then have "numeric_20_8 (in_close (sample_input (Fin (1 / 3)))) \<noteq> in_close (sample_input (Fin (1 / 3)))"
    by (simp add: sample_input_def)
  from excess_precision_never_settles [OF sample_insertable this] show ?thesis
    by (fastforce simp: store_defs)
qed

end
