(* ===== verification/Runner.thy ===== *)
theory Runner
  imports Validation Dispatch Policy Observations
begin

text \<open>
  \<open>domain/ingestion/runner.py\<close>: the processing of one job. The state is the session, the state of
  the quota port, what the session's \<open>Job\<close> objects show (an object that is not \<open>loaded\<close> is read
  again from its row at the next access), and the provider calls made so far. The environment
  (\<open>runner\<close>) says what the provider's child process does at each call, what other sessions do to the
  database meanwhile, which rows they add while observations are recorded, and which attempts to
  lock fail; \<open>column\<close> is the conversion of the numeric columns.
\<close>

section \<open>State and environment\<close>

record 'q rt =
  rt_sess :: sess
  rt_quota :: 'q
  rt_loaded :: "uuid \<Rightarrow> job option"
  rt_calls :: "fetch_cursor list"

type_synonym ('q, 'a) run = "(exn, 'q rt, 'a) act"

record 'q runner =
  provider :: "nat \<Rightarrow> string \<Rightarrow> date \<Rightarrow> date \<Rightarrow> raw_observation list child_run"
  quota :: "'q quota_port"
  timeout_seconds :: rat
  pipe_capacity :: nat
  meanwhile :: "nat \<Rightarrow> sess \<Rightarrow> sess"
  column :: "decimal \<Rightarrow> decimal"
  other_writers :: "nat \<Rightarrow> observation list \<Rightarrow> observation list"
  locks :: "uuid option \<Rightarrow> nat \<Rightarrow> bool"

definition in_session :: "'a py \<Rightarrow> ('q, 'a) run" where
  "in_session m rt = (case m (rt_sess rt) of (r, s) \<Rightarrow> (r, rt\<lparr>rt_sess := s\<rparr>))"

text \<open>An attribute access of the job's object.\<close>

definition the_job :: "uuid \<Rightarrow> ('q, job) run" where
  "the_job i rt =
     (case rt_loaded rt i of Some j \<Rightarrow> (Inr j, rt)
      | None \<Rightarrow> (case select_first (\<lambda>r. job_id r = i) (jobs (work (rt_sess rt))) of
          Some r \<Rightarrow> (Inr r, rt\<lparr>rt_loaded := (rt_loaded rt)(i \<mapsto> r)\<rparr>)
        | None \<Rightarrow> (Inl (ObjectDeletedError i), rt)))"

text \<open>
  \<open>_owned_transition\<close> expires the job's object after its statement, and every object of the session
  when the row was lost.
\<close>

definition transition :: "uuid \<Rightarrow> unit py \<Rightarrow> ('q, unit) run" where
  "transition i m rt =
     (case m (rt_sess rt) of
        (Inl e, s) \<Rightarrow> (Inl e, rt\<lparr>rt_sess := s, rt_loaded := (\<lambda>k. None)\<rparr>)
      | (Inr u, s) \<Rightarrow> (Inr u, rt\<lparr>rt_sess := s, rt_loaded := (rt_loaded rt)(i := None)\<rparr>))"

section \<open>Processing\<close>

record job_outcome =
  jo_status :: JobStatus
  observations_recorded :: nat
  observations_rejected :: nat
  detail :: string

definition outcome_of :: "uuid \<Rightarrow> nat \<Rightarrow> nat \<Rightarrow> string \<Rightarrow> ('q, job_outcome) run" where
  "outcome_of i recorded rejected d = andthen (the_job i) (\<lambda>j.
     ret \<lparr>jo_status = job_status j, observations_recorded = recorded, observations_rejected = rejected, detail = d\<rparr>)"

definition fail_job :: "uuid \<Rightarrow> string \<Rightarrow> nat \<Rightarrow> string \<Rightarrow> datetime \<Rightarrow> ('q, unit) run" where
  "fail_job i worker_id gen error now = andthen (the_job i) (\<lambda>j. transition i (mark_failed j worker_id gen error now))"

definition row_input :: "job \<Rightarrow> uuid \<Rightarrow> fetch_cursor \<Rightarrow> ingestion_authorization \<Rightarrow> datetime \<Rightarrow> raw_observation
    \<Rightarrow> observation_input" where
  "row_input j listing_id cursor auth now raw =
     \<lparr>in_listing_id = listing_id, in_source = job_source j, in_credential_scope = cur_credential_scope cursor,
      in_external_listing_id = raw_external_listing_id raw, in_session_date = raw_session_date raw,
      in_observation_type = raw_observation_type raw, in_currency = raw_currency raw, in_close = raw_close raw,
      in_retrieved_at = now, in_retrieval_decision = Some (dec_id (retrieval_decision auth)),
      in_storage_decision = Some (dec_id (storage_decision auth)), in_quality_status = QS_OK,
      in_open = raw_open raw, in_high = raw_high raw, in_low = raw_low raw, in_adjusted_close = raw_adjusted_close raw\<rparr>"

text \<open>The loop over the rows, on the session: the counts of recorded and rejected rows.\<close>

fun store_rows :: "'q runner \<Rightarrow> job \<Rightarrow> fetch_cursor \<Rightarrow> ingestion_authorization \<Rightarrow> datetime
    \<Rightarrow> raw_observation list \<Rightarrow> nat \<Rightarrow> nat \<Rightarrow> (nat \<times> nat) py" where
  "store_rows R j cursor auth now [] recorded rejected s = (Inr (recorded, rejected), s)"
| "store_rows R j cursor auth now (raw # raws) recorded rejected s =
     (case validate_raw_observation raw (cur_external_listing_id cursor) (cur_start cursor) (cur_end cursor) of
        Inl (MalformedObservationError m) \<Rightarrow> store_rows R j cursor auth now raws recorded (rejected + 1) s
      | Inl e \<Rightarrow> (Inl e, s)
      | Inr u \<Rightarrow> (case job_listing_id j of None \<Rightarrow> (Inl AssertionError, s)
          | Some l \<Rightarrow> (case record_observation (column R) (other_writers R) (row_input j l cursor auth now raw) s of
              (Inl e, t) \<Rightarrow> (Inl e, t)
            | (Inr out, t) \<Rightarrow> store_rows R j cursor auth now raws
                (if ro_created out then recorded + 1 else recorded) rejected t)))"

declare store_rows.simps(2) [simp del]

definition malformed_text :: "nat \<Rightarrow> nat \<Rightarrow> string" where
  "malformed_text rejected n =
     str_nat rejected @ '' malformed observations out of '' @ str_nat n @ '' received.''"

definition finish_job :: "uuid \<Rightarrow> string \<Rightarrow> nat \<Rightarrow> datetime \<Rightarrow> nat \<Rightarrow> nat \<times> nat \<Rightarrow> ('q, job_outcome) run" where
  "finish_job i worker_id gen now n counts =
     (let recorded = fst counts; rejected = snd counts
      in if 0 < rejected \<and> recorded = 0
         then andthen (fail_job i worker_id gen (malformed_text rejected n) now)
                (\<lambda>_. outcome_of i recorded rejected ''all_malformed'')
         else andthen (andthen (the_job i) (\<lambda>j. transition i (mark_done j worker_id gen now)))
                (\<lambda>_. outcome_of i recorded rejected ''done''))"

text \<open>The call of the provider, during which other sessions go on.\<close>

definition call_provider :: "'q runner \<Rightarrow> fetch_cursor \<Rightarrow> 'q rt \<Rightarrow> (exn + raw_observation list) \<times> 'q rt" where
  "call_provider R cursor rt =
     (run_with_deadline (pipe_capacity R) (timeout_seconds R)
        (provider R (length (rt_calls rt)) (cur_external_listing_id cursor) (cur_start cursor) (cur_end cursor)),
      rt\<lparr>rt_sess := meanwhile R (length (rt_calls rt)) (rt_sess rt), rt_calls := rt_calls rt @ [cursor]\<rparr>)"

definition consume_quota :: "'q runner \<Rightarrow> string \<Rightarrow> ('q, quota_status) run" where
  "consume_quota R source rt =
     (case quota_consume (quota R) source 1 (rt_quota rt) of (r, q) \<Rightarrow> (r, rt\<lparr>rt_quota := q\<rparr>))"

definition store_answer :: "'q runner \<Rightarrow> uuid \<Rightarrow> string \<Rightarrow> nat \<Rightarrow> datetime \<Rightarrow> fetch_cursor
    \<Rightarrow> ingestion_authorization \<Rightarrow> raw_observation list \<Rightarrow> ('q, job_outcome) run" where
  "store_answer R i worker_id gen now cursor auth raws =
     andthen (the_job i) (\<lambda>j.
     andthen (in_session (assert_owned j worker_id gen)) (\<lambda>_.
     andthen (consume_quota R (job_source j)) (\<lambda>_.
     andthen (in_session (store_rows R j cursor auth now raws 0 0))
       (finish_job i worker_id gen now (length raws)))))"

definition fetch_and_store :: "'q runner \<Rightarrow> uuid \<Rightarrow> string \<Rightarrow> nat \<Rightarrow> datetime \<Rightarrow> fetch_cursor
    \<Rightarrow> ingestion_authorization \<Rightarrow> ('q, job_outcome) run" where
  "fetch_and_store R i worker_id gen now cursor auth rt =
     (case call_provider R cursor rt of
        (Inl e, rt') \<Rightarrow> andthen (fail_job i worker_id gen (adapter_error_code e) now)
          (\<lambda>_. outcome_of i 0 0 ''fetch_error'') rt'
      | (Inr raws, rt') \<Rightarrow> store_answer R i worker_id gen now cursor auth raws rt')"

definition check_quota :: "'q runner \<Rightarrow> job \<Rightarrow> string \<Rightarrow> datetime \<Rightarrow> fetch_cursor
    \<Rightarrow> ingestion_authorization \<Rightarrow> ('q, job_outcome) run" where
  "check_quota R j worker_id now cursor auth rt =
     (case quota_check (quota R) (job_source j) (rt_quota rt) of
        Inl e \<Rightarrow> (Inl e, rt)
      | Inr st \<Rightarrow>
          if exhausted st
          then andthen (transition (job_id j) (defer_for_quota j worker_id (generation j) (qs_reset_at st) now))
                 (\<lambda>_. outcome_of (job_id j) 0 0 ''quota_exhausted'') rt
          else andthen (transition (job_id j) (mark_running j worker_id (generation j)))
                 (\<lambda>_. fetch_and_store R (job_id j) worker_id (generation j) now cursor auth) rt)"

definition authorize_and_parse :: "'q runner \<Rightarrow> job \<Rightarrow> string \<Rightarrow> datetime \<Rightarrow> ('q, job_outcome) run" where
  "authorize_and_parse R j worker_id now rt =
     (case authorize_ingestion (rt_sess rt) (job_source j) of
        Inl (PolicyNotAuthorizedError source blocking) \<Rightarrow>
          andthen (fail_job (job_id j) worker_id (generation j) (sanitize_message (policy_error_text source blocking) []) now)
            (\<lambda>_. outcome_of (job_id j) 0 0 ''policy_not_authorized'') rt
      | Inl e \<Rightarrow> (Inl e, rt)
      | Inr auth \<Rightarrow> (case parse_cursor (job_cursor j) of
          Inl (InvalidCursorError m) \<Rightarrow>
            andthen (fail_job (job_id j) worker_id (generation j) (sanitize_message m []) now)
              (\<lambda>_. outcome_of (job_id j) 0 0 ''invalid_cursor'') rt
        | Inl e \<Rightarrow> (Inl e, rt)
        | Inr cursor \<Rightarrow> check_quota R j worker_id now cursor auth rt))"

definition claim_pending :: "'q runner \<Rightarrow> job \<Rightarrow> string \<Rightarrow> datetime \<Rightarrow> ('q, job) run" where
  "claim_pending R j worker_id now =
     (if job_status j = PENDING
      then andthen (in_session (claim_job (locks R) j worker_id now))
             (\<lambda>c rt. (Inr c, rt\<lparr>rt_loaded := (rt_loaded rt)(job_id c \<mapsto> c)\<rparr>))
      else ret j)"

definition process :: "'q runner \<Rightarrow> uuid \<Rightarrow> string \<Rightarrow> datetime option \<Rightarrow> ('q, job_outcome) run" where
  "process R i worker_id at_time rt =
     (let now = (case at_time of None \<Rightarrow> utcnow (rt_sess rt) | Some t \<Rightarrow> t)
      in andthen (the_job i) (\<lambda>j0.
         andthen (claim_pending R j0 worker_id now) (\<lambda>j.
         authorize_and_parse R j worker_id now)) rt)"

section \<open>What leaves the store alone\<close>

definition same_store :: "'q rt \<Rightarrow> 'q rt \<Rightarrow> bool" where
  "same_store rt rt' \<longleftrightarrow> observations (work (rt_sess rt')) = observations (work (rt_sess rt))
     \<and> decisions (work (rt_sess rt')) = decisions (work (rt_sess rt))
     \<and> rt_quota rt' = rt_quota rt \<and> rt_calls rt' = rt_calls rt"

definition aside :: "('q, 'a) run \<Rightarrow> bool" where
  "aside m \<longleftrightarrow> (\<forall>rt. same_store rt (snd (m rt)))"

definition jobs_only :: "'a py \<Rightarrow> bool" where
  "jobs_only m \<longleftrightarrow> (\<forall>s. observations (work (snd (m s))) = observations (work s)
     \<and> decisions (work (snd (m s))) = decisions (work s))"

lemma same_store_refl [simp]: "same_store rt rt"
  by (simp add: same_store_def)

lemma same_store_trans: "same_store a b \<Longrightarrow> same_store b c \<Longrightarrow> same_store a c"
  by (simp add: same_store_def)

lemma same_store_loaded [simp]: "same_store a (b\<lparr>rt_loaded := f\<rparr>) = same_store a b"
  by (simp add: same_store_def)

lemma asideD: "aside m \<Longrightarrow> m rt = (x, rt') \<Longrightarrow> same_store rt rt'"
  by (metis aside_def snd_conv)

lemma aside_andthen:
  assumes "aside m" and "\<And>x. aside (f x)"
  shows "aside (andthen m f)"
  unfolding aside_def
proof
  fix rt
  obtain x rt1 where m: "m rt = (x, rt1)" by (cases "m rt")
  then have 1: "same_store rt rt1" by (rule asideD [OF assms(1)])
  show "same_store rt (snd (andthen m f rt))"
  proof (cases x)
    case (Inl e)
    with m 1 show ?thesis by (simp add: andthen_def)
  next
    case (Inr y)
    with m have "andthen m f rt = f y rt1" by (simp add: andthen_def)
    with 1 same_store_trans [OF 1 asideD [OF assms(2) surjective_pairing]] show ?thesis by simp
  qed
qed

lemma aside_ret [simp]: "aside (ret x)"
  by (simp add: aside_def)

lemma aside_the_job [simp]: "aside (the_job i)"
  by (simp add: aside_def the_job_def split: option.split)

lemma aside_transition: "jobs_only m \<Longrightarrow> aside (transition i m)"
  by (auto simp: aside_def jobs_only_def transition_def same_store_def split: prod.splits sum.splits)
    (metis snd_conv)+

lemma aside_in_session: "jobs_only m \<Longrightarrow> aside (in_session m)"
  by (auto simp: aside_def jobs_only_def in_session_def same_store_def split: prod.splits)
    (metis snd_conv)+

lemma jobs_only_owned [simp]: "jobs_only (owned_transition j w g allowed values)"
  by (simp add: jobs_only_def owned_transition_def Let_def)

lemma jobs_only_transitions [simp]:
  "jobs_only (mark_running j w g)" "jobs_only (mark_done j w g now)" "jobs_only (mark_failed j w g err now)"
  "jobs_only (defer_for_quota j w g at1 now)" "jobs_only (assert_owned j w g)"
  using jobs_only_owned by (auto simp: jobs_only_def transitions assert_owned_def split: option.splits)

lemma jobs_only_claim_job [simp]: "jobs_only (claim_job lk j w now)"
proof -
  have "jobs_only (try_claim_one lk i w now)" for i
    by (simp add: jobs_only_def try_claim_one_eq claim_attempt_def Let_def)
  then show ?thesis
    by (auto simp: jobs_only_def claim_job_def andthen_def split: prod.splits sum.splits option.splits)
      (metis snd_conv)+
qed

lemma aside_fail_job [simp]: "aside (fail_job i w g err now)"
  unfolding fail_job_def by (intro aside_andthen aside_the_job aside_transition) simp

lemma aside_outcome [simp]: "aside (outcome_of i m n d)"
  unfolding outcome_of_def by (intro aside_andthen aside_the_job aside_ret)

lemma aside_claim_pending [simp]: "aside (claim_pending R j w now)"
  unfolding claim_pending_def
  by (auto intro!: aside_andthen aside_in_session) (simp add: aside_def)

lemma aside_finish_job [simp]: "aside (finish_job i w g now n counts)"
  unfolding finish_job_def Let_def by (auto intro!: aside_andthen aside_transition)

section \<open>The object of a job and its row\<close>

text \<open>What no statement of the program changes in the row of a job.\<close>

definition same_job :: "job \<Rightarrow> job \<Rightarrow> bool" where
  "same_job j r \<longleftrightarrow> job_id j = job_id r \<and> job_source j = job_source r \<and> job_listing_id j = job_listing_id r
     \<and> job_cursor j = job_cursor r"

definition objects_ok :: "'q rt \<Rightarrow> bool" where
  "objects_ok rt \<longleftrightarrow> distinct (map job_id (jobs (work (rt_sess rt))))
     \<and> (\<forall>i j. rt_loaded rt i = Some j \<longrightarrow> job_id j = i
          \<and> (\<forall>r \<in> set (jobs (work (rt_sess rt))). job_id r = i \<longrightarrow> same_job j r))"

lemma same_job_refl [simp]: "same_job r r"
  by (simp add: same_job_def)

lemma the_job_row:
  assumes "objects_ok rt" and "r \<in> set (jobs (work (rt_sess rt)))" and "job_id r = i"
  shows "\<exists>j. the_job i rt = (Inr j, rt\<lparr>rt_loaded := (rt_loaded rt)(i \<mapsto> j)\<rparr>) \<and> same_job j r"
proof (cases "rt_loaded rt i")
  case None
  have "select_first (\<lambda>q. job_id q = i) (jobs (work (rt_sess rt))) = Some r"
    using assms select_first_key [of job_id _ r] by (simp add: objects_ok_def)
  with None show ?thesis by (simp add: the_job_def)
next
  case (Some j)
  with assms have "same_job j r" by (simp add: objects_ok_def)
  with Some show ?thesis by (simp add: the_job_def fun_upd_idem)
qed

text \<open>The row of a job, whatever became of it.\<close>

definition has_row :: "job \<Rightarrow> sess \<Rightarrow> bool" where
  "has_row r s \<longleftrightarrow> distinct (map job_id (jobs (work s))) \<and> (\<exists>q \<in> set (jobs (work s)). same_job q r)"

lemma has_rowI: "distinct (map job_id (jobs (work s))) \<Longrightarrow> r \<in> set (jobs (work s)) \<Longrightarrow> has_row r s"
  unfolding has_row_def using same_job_refl by blast

lemma has_row_update:
  assumes "has_row r s" and "jobs (work t) = update_where p f (jobs (work s))" and "\<And>q. same_job (f q) q"
  shows "has_row r t"
proof -
  obtain q where q: "q \<in> set (jobs (work s))" "same_job q r" using assms(1) by (auto simp: has_row_def)
  have "map job_id (jobs (work t)) = map job_id (jobs (work s))"
    using assms(2,3) by (simp add: map_update_where same_job_def)
  moreover have "(if p q then f q else q) \<in> set (jobs (work t))" using q(1) assms(2) by (auto simp: in_update_where)
  moreover have "same_job (if p q then f q else q) r" using q(2) assms(3) [of q] by (auto simp: same_job_def)
  ultimately show ?thesis using assms(1) unfolding has_row_def by metis
qed

lemma claim_pending_row:
  assumes "claim_pending R j w now rt = (Inr c, rt')" and "same_job j r"
    and "distinct (map job_id (jobs (work (rt_sess rt))))" and "r \<in> set (jobs (work (rt_sess rt)))"
  shows "same_job c r \<and> has_row r (rt_sess rt')"
proof (cases "job_status j = PENDING")
  case True
  with assms(1) obtain s where s: "rt_sess rt' = s" "claim_job (locks R) j w now (rt_sess rt) = (Inr c, s)"
    by (auto simp: claim_pending_def andthen_def in_session_def split: prod.splits sum.splits)
  then have "claim_attempt (job_id j) w now (rt_sess rt) = (Inr (Some c), s)"
    by (auto simp: claim_job_def andthen_def try_claim_one_eq split: prod.splits sum.splits option.splits if_splits)
  then obtain q where q: "q \<in> set (jobs (work (rt_sess rt)))" "job_id q = job_id j" "c = claimed_row w now (wall (rt_sess rt)) q"
    "jobs (work s) = update_where (\<lambda>x. x = q) (claimed_row w now (wall (rt_sess rt))) (jobs (work (rt_sess rt)))"
  proof -
    assume hyp: "\<And>q. q \<in> set (jobs (work (rt_sess rt))) \<Longrightarrow> job_id q = job_id j
        \<Longrightarrow> c = claimed_row w now (wall (rt_sess rt)) q
        \<Longrightarrow> jobs (work s) = update_where (\<lambda>x. x = q) (claimed_row w now (wall (rt_sess rt))) (jobs (work (rt_sess rt))) \<Longrightarrow> thesis"
      and c: "claim_attempt (job_id j) w now (rt_sess rt) = (Inr (Some c), s)"
    let ?js = "jobs (work (rt_sess rt))"
    have row: "rowcount (claimable (job_id j)) ?js = 1"
      using c by (auto simp: claim_attempt_def Let_def split: if_splits)
    then obtain q where q: "q \<in> set ?js" "job_id q = job_id j" "job_status q = PENDING"
      using rowcount_pos_iff [of "claimable (job_id j)" ?js] by (auto simp: claimable_def)
    with claim_attempt_pending [OF assms(3) q(1,3), of w now] c hyp show thesis by auto
  qed
  with assms(2,4) have "q = r" by (metis assms(3) distinct_map_inj same_job_def)
  have "has_row r (rt_sess rt)" using assms(3,4) by (rule has_rowI)
  from has_row_update [OF this q(4)] have "has_row r s" by (simp add: same_job_def claimed_row_def)
  with s(1) \<open>q = r\<close> q(3) show ?thesis by (simp add: same_job_def claimed_row_def)
next
  case False
  with assms has_rowI [OF assms(3,4)] show ?thesis by (simp add: claim_pending_def)
qed

section \<open>The ways through processing\<close>

lemma effective_status_same: "same_store rt rt' \<Longrightarrow> effective_status (rt_sess rt') source cap = effective_status (rt_sess rt) source cap"
  by (simp add: same_store_def effective_status_def effective_decision_def)

lemma process_cases:
  assumes "process R i w at1 rt = (x, rt')" and "objects_ok rt" and "r \<in> set (jobs (work (rt_sess rt)))"
    and "job_id r = i"
  obtains (no_claim) e where "x = Inl e" "same_store rt rt'"
  | (claimed) now j rt1 where "same_store rt rt1" "same_job j r" "has_row r (rt_sess rt1)" "authorize_and_parse R j w now rt1 = (x, rt')"
      "now = (case at1 of None \<Rightarrow> utcnow (rt_sess rt) | Some t \<Rightarrow> t)"
proof -
  let ?now = "case at1 of None \<Rightarrow> utcnow (rt_sess rt) | Some t \<Rightarrow> t"
  from the_job_row [OF assms(2-4)] obtain j0 where
    j0: "the_job i rt = (Inr j0, rt\<lparr>rt_loaded := (rt_loaded rt)(i \<mapsto> j0)\<rparr>)" "same_job j0 r" by blast
  let ?rt0 = "rt\<lparr>rt_loaded := (rt_loaded rt)(i \<mapsto> j0)\<rparr>"
  obtain y rt1 where c: "claim_pending R j0 w ?now ?rt0 = (y, rt1)" by (cases "claim_pending R j0 w ?now ?rt0")
  then have s: "same_store rt rt1" using asideD [OF aside_claim_pending c] by (simp add: same_store_def)
  show ?thesis
  proof (cases y)
    case (Inl e)
    with assms(1) j0 c have "x = Inl e" "rt' = rt1" by (simp_all add: process_def andthen_def Let_def)
    with s no_claim show ?thesis by blast
  next
    case (Inr j)
    with assms(1) j0 c have a: "authorize_and_parse R j w ?now rt1 = (x, rt')"
      by (simp add: process_def andthen_def Let_def)
    have "same_job j r \<and> has_row r (rt_sess rt1)"
      using claim_pending_row [OF c [unfolded Inr] j0(2)] assms(2,3) by (simp add: objects_ok_def)
    with claimed s a show ?thesis by blast
  qed
qed

lemma authorize_cases:
  assumes "authorize_and_parse R j w now rt = (x, rt')"
  obtains (stopped) "same_store rt rt'"
  | (fetching) auth cursor st rt1 where "authorize_ingestion (rt_sess rt) (job_source j) = Inr auth"
      "parse_cursor (job_cursor j) = Inr cursor" "quota_check (quota R) (job_source j) (rt_quota rt) = Inr st"
      "\<not> exhausted st" "transition (job_id j) (mark_running j w (generation j)) rt = (Inr (), rt1)"
      "fetch_and_store R (job_id j) w (generation j) now cursor auth rt1 = (x, rt')"
proof -
  have quiet: "same_store rt rt'" if "m rt = (x, rt')" "aside m" for m :: "('a, job_outcome) run"
    using that asideD by blast
  have failing: "aside (andthen (fail_job i w g err now) (\<lambda>_. outcome_of k m n d))" for i g err k m n d
    by (intro aside_andthen aside_fail_job aside_outcome)
  show ?thesis
  proof (cases "authorize_ingestion (rt_sess rt) (job_source j)")
    case (Inl e)
    then obtain bl where "e = PolicyNotAuthorizedError (job_source j) bl" using authorize_ingestion_Inl by blast
    with Inl assms quiet [OF _ failing] stopped show ?thesis by (simp add: authorize_and_parse_def)
  next
    case auth: (Inr auth)
    show ?thesis
    proof (cases "parse_cursor (job_cursor j)")
      case (Inl e)
      with auth assms quiet [OF _ failing] stopped show ?thesis
        by (cases e) (simp_all add: authorize_and_parse_def)
    next
      case cursor: (Inr cursor)
      with auth assms have c: "check_quota R j w now cursor auth rt = (x, rt')" by (simp add: authorize_and_parse_def)
      show ?thesis
      proof (cases "quota_check (quota R) (job_source j) (rt_quota rt)")
        case (Inl e)
        with c stopped show ?thesis by (simp add: check_quota_def)
      next
        case st: (Inr st)
        show ?thesis
        proof (cases "exhausted st")
          case True
          have "aside (andthen (transition (job_id j) (defer_for_quota j w (generation j) (qs_reset_at st) now))
              (\<lambda>_. outcome_of (job_id j) 0 0 ''quota_exhausted'') :: ('a, job_outcome) run)"
            by (intro aside_andthen aside_transition aside_outcome) simp
          with True st c quiet stopped show ?thesis by (simp add: check_quota_def)
        next
          case False
          obtain y rt1 where m: "transition (job_id j) (mark_running j w (generation j)) rt = (y, rt1)" by fastforce
          have s: "same_store rt rt1" using asideD [OF aside_transition m] by simp
          show ?thesis
          proof (cases y)
            case (Inl e)
            with m c st False have "rt' = rt1" by (simp add: check_quota_def andthen_def)
            with s stopped show ?thesis by blast
          next
            case (Inr u)
            with m c st False have "fetch_and_store R (job_id j) w (generation j) now cursor auth rt1 = (x, rt')"
              by (simp add: check_quota_def andthen_def)
            with fetching auth cursor st False m Inr show ?thesis by simp
          qed
        qed
      qed
    qed
  qed
qed

lemma calls_aside: "aside m \<Longrightarrow> m rt = (x, rt') \<Longrightarrow> rt_calls rt' = rt_calls rt"
  using asideD by (auto simp: same_store_def)

lemma store_answer_calls: "store_answer R i w g now cursor auth raws rt = (x, rt') \<Longrightarrow> rt_calls rt' = rt_calls rt"
  unfolding store_answer_def andthen_def
  by (auto simp: consume_quota_def in_session_def split: prod.splits sum.splits
      dest!: calls_aside [OF aside_the_job] calls_aside [OF aside_finish_job])

lemma fetch_and_store_calls:
  assumes "fetch_and_store R i w g now cursor auth rt = (x, rt')"
  shows "rt_calls rt' = rt_calls rt @ [cursor]"
proof -
  have "aside (andthen (fail_job i w g err now) (\<lambda>_. outcome_of k m n d) :: ('a, job_outcome) run)" for err k m n d
    by (intro aside_andthen aside_fail_job aside_outcome)
  from calls_aside [OF this] store_answer_calls [of R i w g now cursor auth] assms show ?thesis
    unfolding fetch_and_store_def call_provider_def by (force split: sum.splits)
qed

section \<open>The loop over the rows\<close>

text \<open>One row of the answer that is valid, and the rest.\<close>

lemma store_rows_valid:
  assumes "validate_raw_observation raw (cur_external_listing_id c) (cur_start c) (cur_end c) = Inr ()"
    and "job_listing_id j = Some l"
  shows "store_rows R j c auth now (raw # raws) m n s =
    (case record_observation (column R) (other_writers R) (row_input j l c auth now raw) s of
       (Inl e, t) \<Rightarrow> (Inl e, t)
     | (Inr out, t) \<Rightarrow> store_rows R j c auth now raws (if ro_created out then m + 1 else m) n t)"
  using assms by (simp add: store_rows.simps(2))

lemma store_rows_malformed:
  "validate_raw_observation raw (cur_external_listing_id c) (cur_start c) (cur_end c) = Inl (MalformedObservationError e)
    \<Longrightarrow> store_rows R j c auth now (raw # raws) m n s = store_rows R j c auth now raws m (n + 1) s"
  by (simp add: store_rows.simps(2))

lemma store_rows_crash:
  "validate_raw_observation raw (cur_external_listing_id c) (cur_start c) (cur_end c) = Inl InvalidOperation
    \<Longrightarrow> store_rows R j c auth now (raw # raws) m n s = (Inl InvalidOperation, s)"
  by (simp add: store_rows.simps(2))

text \<open>What a row of the answer becomes in the store.\<close>

definition stored_from :: "'q runner \<Rightarrow> job \<Rightarrow> fetch_cursor \<Rightarrow> ingestion_authorization \<Rightarrow> datetime
    \<Rightarrow> raw_observation \<Rightarrow> observation \<Rightarrow> bool" where
  "stored_from R j c auth now raw ob \<longleftrightarrow>
     well_formed (cur_external_listing_id c) (cur_start c) (cur_end c) raw
     \<and> natural_key ob = (job_source j, cur_credential_scope c, raw_external_listing_id raw, raw_session_date raw,
          raw_observation_type raw)
     \<and> Some (obs_listing_id ob) = job_listing_id j
     \<and> obs_currency ob = upper (raw_currency raw) \<and> obs_close ob = column R (raw_close raw)
     \<and> obs_open ob = map_option (column R) (raw_open raw) \<and> obs_high ob = map_option (column R) (raw_high raw)
     \<and> obs_low ob = map_option (column R) (raw_low raw)
     \<and> obs_adjusted_close ob = map_option (column R) (raw_adjusted_close raw)
     \<and> quality_status ob = QS_OK \<and> retrieved_at ob = now
     \<and> retrieval_policy_decision_id ob = Some (dec_id (retrieval_decision auth))
     \<and> storage_policy_decision_id ob = Some (dec_id (storage_decision auth))"

lemma candidate_stored_from:
  "well_formed (cur_external_listing_id c) (cur_start c) (cur_end c) raw \<Longrightarrow> job_listing_id j = Some l
    \<Longrightarrow> stored_from R j c auth now raw (candidate (column R) (row_input j l c auth now raw) n s)"
  by (simp add: stored_from_def row_input_def candidate_def natural_key_def)

lemma record_attempts_new:
  "record_attempts col no_rivals n d s = (x, t) \<Longrightarrow>
     observations (work t) = observations (work s) \<or>
     (\<exists>v u. observations (work t) = observations (work s) @ [candidate col d v u])"
proof (induction n arbitrary: s)
  case (Suc n)
  show ?case
  proof (cases "duplicate_of s d")
    case (Some c)
    with Suc.prems show ?thesis by (simp add: record_attempts.simps(2))
  next
    case None
    let ?cand = "candidate col d (next_revision s d) s"
    show ?thesis
    proof (cases "insert_observation ?cand (drawn s)")
      case no: None
      with None Suc.prems have "record_attempts col no_rivals n d (drawn s) = (x, t)"
        by (simp add: record_attempts.simps(2) Let_def)
      with Suc.IH show ?thesis by fastforce
    next
      case (Some u)
      with None Suc.prems have "u = t" by (simp add: record_attempts.simps(2) Let_def)
      with obs_log.append_row_rows [OF Some] show ?thesis by auto
    qed
  qed
qed simp

lemma store_rows_stored:
  assumes "other_writers R = no_rivals"
  shows "store_rows R j c auth now raws m n s = (x, t) \<Longrightarrow>
    \<exists>new. observations (work t) = observations (work s) @ new
      \<and> (\<forall>ob \<in> set new. \<exists>raw \<in> set raws. stored_from R j c auth now raw ob)"
proof (induction raws arbitrary: m n s)
  case Nil
  then show ?case by simp
next
  case (Cons raw raws)
  show ?case
  proof (cases rule: validate_cases [of raw "cur_external_listing_id c" "cur_start c" "cur_end c"])
    case valid
    then have wf: "well_formed (cur_external_listing_id c) (cur_start c) (cur_end c) raw" by (simp add: validate_Inr_iff)
    show ?thesis
    proof (cases "job_listing_id j")
      case None
      with valid Cons.prems show ?thesis by (simp add: store_rows.simps(2))
    next
      case (Some l)
      let ?d = "row_input j l c auth now raw"
      obtain y u where y: "record_observation (column R) no_rivals ?d s = (y, u)" by fastforce
      then have "observations (work u) = observations (work s) \<or>
          (\<exists>v w. observations (work u) = observations (work s) @ [candidate (column R) ?d v w])"
        unfolding record_observation_def by (rule record_attempts_new)
      then obtain new1 where new1: "observations (work u) = observations (work s) @ new1"
          "\<forall>ob \<in> set new1. stored_from R j c auth now raw ob"
        using candidate_stored_from [OF wf Some] by force
      show ?thesis
      proof (cases y)
        case (Inl e)
        with y Cons.prems store_rows_valid [OF valid Some, of R auth now raws m n s] assms have "u = t" by simp
        with new1 show ?thesis by auto
      next
        case (Inr out)
        with y Cons.prems store_rows_valid [OF valid Some, of R auth now raws m n s] assms
        have "store_rows R j c auth now raws (if ro_created out then m + 1 else m) n u = (x, t)" by simp
        from Cons.IH [OF this] obtain new2 where "observations (work t) = observations (work u) @ new2"
          "\<forall>ob \<in> set new2. \<exists>raw \<in> set raws. stored_from R j c auth now raw ob" by blast
        with new1 show ?thesis by (intro exI [of _ "new1 @ new2"]) auto
      qed
    qed
  next
    case (malformed e)
    with Cons.prems have "store_rows R j c auth now raws m (n + 1) s = (x, t)" by (simp add: store_rows_malformed)
    from Cons.IH [OF this] show ?thesis by auto
  next
    case crash
    with Cons.prems show ?thesis by (simp add: store_rows_crash)
  qed
qed

text \<open>
  Malformed rows only count, up to the first row of which the validation decides nothing: there the loop
  raises.
\<close>

lemma store_rows_until:
  "store_rows R j c auth now raws m n s =
    (let ok = well_formed (cur_external_listing_id c) (cur_start c) (cur_end c);
         before = takeWhile (\<lambda>raw. \<not> undecided (cur_external_listing_id c) (cur_start c) (cur_end c) raw) raws
     in case store_rows R j c auth now (filter ok before) m 0 s of
          (Inl e, t) \<Rightarrow> (Inl e, t)
        | (Inr counts, t) \<Rightarrow>
            if before = raws then (Inr (fst counts, n + length (filter (\<lambda>raw. \<not> ok raw) raws)), t)
            else (Inl InvalidOperation, t))"
proof (induction raws arbitrary: m n s)
  case (Cons raw raws)
  let ?v = "validate_raw_observation raw (cur_external_listing_id c) (cur_start c) (cur_end c)"
  note IH = Cons.IH [unfolded Let_def]
  show ?case
  proof (rule validate_cases [of raw "cur_external_listing_id c" "cur_start c" "cur_end c"])
    assume v: "?v = Inr ()"
    then have "well_formed (cur_external_listing_id c) (cur_start c) (cur_end c) raw"
      "\<not> undecided (cur_external_listing_id c) (cur_start c) (cur_end c) raw"
      by (simp_all flip: validate_Inr_iff validate_undecided_iff)
    with v show ?thesis
      by (cases "job_listing_id j")
        (simp_all add: Let_def store_rows.simps(2) IH split: prod.splits sum.splits del: takeWhile_eq_all_conv)
  next
    fix e assume v: "?v = Inl (MalformedObservationError e)"
    then have "\<not> well_formed (cur_external_listing_id c) (cur_start c) (cur_end c) raw"
      "\<not> undecided (cur_external_listing_id c) (cur_start c) (cur_end c) raw"
      by (simp_all flip: validate_Inr_iff validate_undecided_iff)
    with v show ?thesis by (simp add: Let_def store_rows_malformed IH split: prod.splits sum.splits del: takeWhile_eq_all_conv)
  next
    assume v: "?v = Inl InvalidOperation"
    then have "undecided (cur_external_listing_id c) (cur_start c) (cur_end c) raw" by (simp add: validate_undecided_iff)
    with v show ?thesis by (simp add: Let_def store_rows_crash)
  qed
qed simp

lemma store_rows_filter:
  assumes "\<And>raw. raw \<in> set raws \<Longrightarrow> raw_close raw \<noteq> NaN"
  shows "store_rows R j c auth now raws m n s =
    (let ok = well_formed (cur_external_listing_id c) (cur_start c) (cur_end c)
     in case store_rows R j c auth now (filter ok raws) m 0 s of
          (Inl e, t) \<Rightarrow> (Inl e, t)
        | (Inr counts, t) \<Rightarrow> (Inr (fst counts, n + length (filter (\<lambda>raw. \<not> ok raw) raws)), t))"
proof -
  have "takeWhile (\<lambda>raw. \<not> undecided (cur_external_listing_id c) (cur_start c) (cur_end c) raw) raws = raws"
    using assms by (simp add: takeWhile_eq_all_conv undecided_def)
  then show ?thesis by (subst store_rows_until) (simp only: Let_def if_True simp_thms)
qed

section \<open>Storing a whole answer alone\<close>

text \<open>Identifiers that this session will draw are not in the table, and the rows that it refers to exist.\<close>

definition fresh_ids :: "sess \<Rightarrow> bool" where
  "fresh_ids s \<longleftrightarrow> inj (uuid_supply s)
     \<and> (\<forall>k. uuid_draws s \<le> k \<longrightarrow> uuid_supply s k \<notin> set (map obs_id (observations (work s))))"

definition refers :: "uuid \<Rightarrow> ingestion_authorization \<Rightarrow> sess \<Rightarrow> bool" where
  "refers l auth s \<longleftrightarrow> fk_holds s (listing_exists s l
     \<and> decision_exists s (Some (dec_id (retrieval_decision auth)))
     \<and> decision_exists s (Some (dec_id (storage_decision auth))))"

lemma insertable_row:
  "fresh_ids s \<Longrightarrow> refers l auth s \<Longrightarrow> insertable (row_input j l c auth now raw) s"
  by (simp add: insertable_def fresh_ids_def refers_def row_input_def uuid4_def)

lemma record_row:
  assumes "fresh_ids s" and "refers l auth s" and "d = row_input j l c auth now raw"
  obtains (known) q where "duplicate_of s d = Some q"
      "record_observation col no_rivals d s = (Inr \<lparr>ro_observation = q, ro_created = False, ro_is_correction = False\<rparr>, s)"
  | (new) t where "duplicate_of s d = None"
      "t = on_observations (\<lambda>os. os @ [candidate col d (next_revision s d) s]) (drawn s)"
      "record_observation col no_rivals d s = (Inr \<lparr>ro_observation = candidate col d (next_revision s d) s,
         ro_created = True, ro_is_correction = current_revision s d \<noteq> None\<rparr>, t)"
      "fresh_ids t" "refers l auth t" "jobs (work t) = jobs (work s)"
proof (cases "duplicate_of s d")
  case (Some q)
  with record_duplicate known show ?thesis by blast
next
  case None
  let ?t = "on_observations (\<lambda>os. os @ [candidate col d (next_revision s d) s]) (drawn s)"
  have "record_observation col no_rivals d s = (Inr \<lparr>ro_observation = candidate col d (next_revision s d) s,
      ro_created = True, ro_is_correction = current_revision s d \<noteq> None\<rparr>, ?t)"
    using record_alone [OF insertable_row [OF assms(1,2)], of col j c now raw] None assms(3) by simp
  moreover have "fresh_ids ?t"
    using assms(1) by (auto simp: fresh_ids_def uuid4_def dest: injD)
  moreover have "refers l auth ?t"
    using assms(2) by (simp add: refers_def fk_holds_def listing_exists_def decision_exists_def)
  ultimately show ?thesis using new None by simp
qed

text \<open>A row of another key does not change what is current for a key.\<close>

lemma duplicate_other_key:
  assumes "input_key d' \<noteq> input_key d" and "record_observation col no_rivals d s = (r, t)" and "insertable d s"
  shows "duplicate_of t d' = duplicate_of s d'"
proof -
  have "filter (\<lambda>q. natural_key q = input_key d') (observations (work t))
      = filter (\<lambda>q. natural_key q = input_key d') (observations (work s))"
    using record_alone [OF assms(3), of col] assms(1,2) by (auto split: option.splits)
  then have "current_revision t d' = current_revision s d'"
    by (simp add: current_revision_log effective_of_def)
  then show ?thesis by (simp add: duplicate_of_def)
qed

lemma row_input_key:
  "input_key (row_input j l c auth now raw) = (job_source j, cur_credential_scope c, raw_external_listing_id raw,
     raw_session_date raw, raw_observation_type raw)"
  by (simp add: input_key_def row_input_def)

text \<open>
  An answer of valid rows, at most one per date, is stored whole: afterwards every row whose values
  the columns keep is the current one of its key.
\<close>

lemma store_rows_all:
  assumes "other_writers R = no_rivals" and "job_listing_id j = Some l"
  shows "fresh_ids s \<Longrightarrow> refers l auth s
    \<Longrightarrow> (\<And>raw. raw \<in> set raws \<Longrightarrow> well_formed (cur_external_listing_id c) (cur_start c) (cur_end c) raw)
    \<Longrightarrow> distinct (map raw_session_date raws)
    \<Longrightarrow> \<exists>k t. store_rows R j c auth now raws m n s = (Inr (m + k, n), t) \<and> k \<le> length raws
         \<and> jobs (work t) = jobs (work s) \<and> fresh_ids t \<and> refers l auth t
         \<and> (\<forall>raw \<in> set raws. kept_by (column R) (row_input j l c auth now raw) \<longrightarrow>
              duplicate_of t (row_input j l c auth now raw) \<noteq> None)
         \<and> (\<forall>d. (\<forall>raw \<in> set raws. input_key d \<noteq> input_key (row_input j l c auth now raw)) \<longrightarrow>
              duplicate_of t d = duplicate_of s d)"
proof (induction raws arbitrary: m s)
  case (Cons raw raws)
  let ?d = "row_input j l c auth now raw"
  obtain out u where u: "record_observation (column R) no_rivals ?d s = (Inr out, u)" "fresh_ids u" "refers l auth u"
    "jobs (work u) = jobs (work s)"
  proof (rule record_row [OF Cons.prems(1,2) refl, where col = "column R" and j = j and c = c and now = now and raw = raw])
    fix q
    assume "record_observation (column R) no_rivals ?d s
      = (Inr \<lparr>ro_observation = q, ro_created = False, ro_is_correction = False\<rparr>, s)"
    with Cons.prems(1,2) that show thesis by blast
  qed (rule that)
  have ins: "insertable ?d s" using insertable_row [OF Cons.prems(1,2)] .
  have other: "input_key (row_input j l c auth now raw') \<noteq> input_key ?d" if "raw' \<in> set raws" for raw'
  proof -
    have "raw_session_date raw \<notin> raw_session_date ` set raws" using Cons.prems(4) by simp
    with that have "raw_session_date raw' \<noteq> raw_session_date raw" by (metis imageI)
    then show ?thesis by (simp add: row_input_key)
  qed
  obtain k t where t: "store_rows R j c auth now raws (if ro_created out then m + 1 else m) n u
      = (Inr ((if ro_created out then m + 1 else m) + k, n), t)" "k \<le> length raws" "jobs (work t) = jobs (work u)"
      "fresh_ids t" "refers l auth t"
      "\<And>raw'. raw' \<in> set raws \<Longrightarrow> kept_by (column R) (row_input j l c auth now raw') \<Longrightarrow>
         duplicate_of t (row_input j l c auth now raw') \<noteq> None"
      "\<And>d. (\<And>raw'. raw' \<in> set raws \<Longrightarrow> input_key d \<noteq> input_key (row_input j l c auth now raw')) \<Longrightarrow>
         duplicate_of t d = duplicate_of u d"
    using Cons.IH [OF u(2,3), of "if ro_created out then m + 1 else m"] Cons.prems(3,4) by fastforce
  have "validate_raw_observation raw (cur_external_listing_id c) (cur_start c) (cur_end c) = Inr ()"
    using Cons.prems(3) by (simp add: validate_Inr_iff)
  from store_rows_valid [OF this assms(2), of R auth now raws m n s]
  have "store_rows R j c auth now (raw # raws) m n s = (Inr ((if ro_created out then m + 1 else m) + k, n), t)"
    using u(1) t(1) assms(1) by simp
  moreover have "duplicate_of t ?d \<noteq> None" if "kept_by (column R) ?d"
    using record_current [OF ins that u(1)] t(7) [of ?d] other by fastforce
  moreover have "duplicate_of t d = duplicate_of s d"
    if "\<forall>raw' \<in> set (raw # raws). input_key d \<noteq> input_key (row_input j l c auth now raw')" for d
    using that t(7) [of d] duplicate_other_key [OF _ u(1) ins, of d] by simp
  ultimately show ?case
    using t(2-6) u(4) by (intro exI [of _ "if ro_created out then k + 1 else k"] exI [of _ t]) auto
qed simp

text \<open>Values, and not when or by which decision they were fetched, make a duplicate.\<close>

lemma duplicate_of_row:
  "duplicate_of s (row_input j l c auth now raw) = duplicate_of s (row_input j l c auth' now' raw)"
  by (simp add: duplicate_of_def current_revision_def same_value_def row_input_def split: option.split)

lemma store_rows_known:
  assumes "job_listing_id j = Some l"
  shows "(\<And>raw. raw \<in> set raws \<Longrightarrow> well_formed (cur_external_listing_id c) (cur_start c) (cur_end c) raw
      \<and> duplicate_of s (row_input j l c auth now raw) \<noteq> None)
    \<Longrightarrow> store_rows R j c auth now raws m n s = (Inr (m, n), s)"
proof (induction raws)
  case (Cons raw raws)
  then obtain q where "duplicate_of s (row_input j l c auth now raw) = Some q" by fastforce
  moreover have "validate_raw_observation raw (cur_external_listing_id c) (cur_start c) (cur_end c) = Inr ()"
    using Cons.prems by (simp add: validate_Inr_iff)
  ultimately show ?case
    using Cons by (simp add: store_rows_valid [OF _ assms] record_duplicate)
qed simp

end
