(* ===== verification/Settings.thy ===== *)
theory Settings
  imports Credentials
begin

text \<open>
  \<open>config/settings.py\<close>: the settings and what their validation accepts. Pydantic converts the
  environment's texts to the types of the fields; the model starts from the typed values, where a
  \<open>float\<close> is a rational number.
\<close>

datatype Environment = LOCAL | TEST | PRODUCTION

record ConsumerCredentialConfig =
  cc_consumer_id :: string
  cc_env_var :: string
  cc_scopes :: "string list"

record settings =
  environment :: Environment
  service_name :: string
  database_url :: string
  enabled_sources :: "string list"
  scheduler_batch_size :: int
  job_lease_seconds :: int
  waiting_publication_retry_seconds :: int
  provider_timeout_seconds :: rat
  stalled_job_threshold_seconds :: int
  consumer_credentials :: "ConsumerCredentialConfig list"

definition holdria_config :: ConsumerCredentialConfig where
  "holdria_config = \<lparr>cc_consumer_id = ''holdria'', cc_env_var = ''MARKET_RELAY_CONSUMER_HOLDRIA_API_KEY'',
     cc_scopes = [''catalog:read'', ''observations:read'', ''operations:read'']\<rparr>"

definition ops_config :: ConsumerCredentialConfig where
  "ops_config = \<lparr>cc_consumer_id = ''ops'', cc_env_var = ''MARKET_RELAY_CONSUMER_OPS_API_KEY'',
     cc_scopes = [''operations:metrics'']\<rparr>"

definition default_settings :: settings where
  "default_settings = \<lparr>environment = LOCAL, service_name = ''market-relay'',
     database_url = ''sqlite:///./market_relay.db'', enabled_sources = [''fake''], scheduler_batch_size = 50,
     job_lease_seconds = 300, waiting_publication_retry_seconds = 3600, provider_timeout_seconds = 30,
     stalled_job_threshold_seconds = 3600, consumer_credentials = [holdria_config, ops_config]\<rparr>"

definition database_url_ok :: "string \<Rightarrow> bool" where
  "database_url_ok url \<longleftrightarrow>
     list_ex (\<lambda>p. starts_with p url) [''sqlite://'', ''postgresql://'', ''postgresql+psycopg://'']"

definition enabled_sources_ok :: "string list \<Rightarrow> bool" where
  "enabled_sources_ok sources \<longleftrightarrow> \<not> (''fake'' \<notin> set sources \<and> length sources = 0)"

definition fields_ok :: "settings \<Rightarrow> bool" where
  "fields_ok st \<longleftrightarrow>
     0 < scheduler_batch_size st \<and> scheduler_batch_size st \<le> 1000
     \<and> 0 < job_lease_seconds st \<and> job_lease_seconds st \<le> 86400
     \<and> 0 < waiting_publication_retry_seconds st \<and> waiting_publication_retry_seconds st \<le> 86400
     \<and> 0 < provider_timeout_seconds st \<and> provider_timeout_seconds st \<le> 300
     \<and> 0 < stalled_job_threshold_seconds st
     \<and> database_url_ok (database_url st) \<and> enabled_sources_ok (enabled_sources st)"

definition deadline_within_lease :: "settings \<Rightarrow> bool" where
  "deadline_within_lease st \<longleftrightarrow> \<not> provider_timeout_seconds st \<ge> of_int (job_lease_seconds st)"

text \<open>\<open>None\<close> is pydantic's \<open>ValidationError\<close>.\<close>

definition validate_settings :: "settings \<Rightarrow> settings option" where
  "validate_settings st = (if fields_ok st \<and> deadline_within_lease st then Some st else None)"

definition is_sqlite :: "settings \<Rightarrow> bool" where
  "is_sqlite st \<longleftrightarrow> starts_with ''sqlite://'' (database_url st)"

text \<open>One call of a provider ends before a claim made when it began can be recovered.\<close>

lemma validated_deadline:
  "validate_settings st = Some st' \<Longrightarrow> st' = st \<and> 0 < provider_timeout_seconds st
    \<and> provider_timeout_seconds st < of_int (job_lease_seconds st) \<and> 0 < scheduler_batch_size st"
  by (auto simp: validate_settings_def fields_ok_def deadline_within_lease_def not_le split: if_splits)

lemma default_settings_valid: "validate_settings default_settings = Some default_settings"
  by (simp add: validate_settings_def fields_ok_def deadline_within_lease_def default_settings_def
      database_url_ok_def starts_with_def enabled_sources_ok_def)

end
