(* ===== verification/Catalog.thy ===== *)
theory Catalog
  imports Models
begin

text \<open>
  \<open>domain/catalog/service.py\<close> on the tables of \<open>domain/catalog/models.py\<close>: registering instruments,
  listings and identities under the constraints of the tables, and the search. A query without
  \<open>ORDER BY\<close> returns its rows in the order of the table. The session of a failed operation is one
  that its owner has to roll back, as in \<open>Policy\<close>.
\<close>

section \<open>Tables\<close>

definition on_catalog :: "(instrument list \<Rightarrow> instrument list) \<Rightarrow> (listing list \<Rightarrow> listing list)
    \<Rightarrow> (external_identity list \<Rightarrow> external_identity list) \<Rightarrow> sess \<Rightarrow> sess" where
  "on_catalog f g h s = s\<lparr>work := (work s)\<lparr>instruments := f (instruments (work s)), listings := g (listings (work s)),
     identities := h (identities (work s))\<rparr>\<rparr>"

text \<open>\<open>INSERT\<close> under the keys, the \<open>CHECK\<close> and the foreign key of each table; a missing ISIN is equal to none.\<close>

definition insert_instrument :: "instrument \<Rightarrow> sess \<Rightarrow> sess option" where
  "insert_instrument i s =
     (if \<exists>q \<in> set (instruments (work s)). ins_id q = ins_id i \<or> ins_isin i \<noteq> None \<and> ins_isin q = ins_isin i
      then None else Some (on_catalog (\<lambda>is. is @ [i]) id id s))"

definition listing_key :: "listing \<Rightarrow> uuid \<times> string \<times> string \<times> string" where
  "listing_key l = (lst_instrument_id l, lst_venue l, lst_ticker l, lst_currency l)"

definition insert_listing :: "listing \<Rightarrow> sess \<Rightarrow> sess option" where
  "insert_listing l s =
     (if (\<exists>q \<in> set (listings (work s)). lst_id q = lst_id l \<or> listing_key q = listing_key l)
         \<or> \<not> fk_holds s (lst_instrument_id l \<in> ins_id ` set (instruments (work s)))
      then None else Some (on_catalog id (\<lambda>ls. ls @ [l]) id s))"

definition identity_key :: "external_identity \<Rightarrow> string \<times> string \<times> date" where
  "identity_key x = (xid_source x, xid_external_id x, xid_valid_from x)"

definition valid_period :: "external_identity \<Rightarrow> bool" where
  "valid_period x \<longleftrightarrow> (case xid_valid_to x of None \<Rightarrow> True | Some d \<Rightarrow> xid_valid_from x \<le> d)"

definition insert_identity :: "external_identity \<Rightarrow> sess \<Rightarrow> sess option" where
  "insert_identity x s =
     (if (\<exists>q \<in> set (identities (work s)). xid_id q = xid_id x \<or> identity_key q = identity_key x)
         \<or> \<not> valid_period x \<or> \<not> fk_holds s (xid_listing_id x \<in> lst_id ` set (listings (work s)))
      then None else Some (on_catalog id id (\<lambda>xs. xs @ [x]) s))"

definition flush_insert :: "('r \<Rightarrow> sess \<Rightarrow> sess option) \<Rightarrow> 'r \<Rightarrow> 'r py" where
  "flush_insert ins r s = (case ins r (drawn s) of None \<Rightarrow> (Inl IntegrityError, drawn s) | Some t \<Rightarrow> (Inr r, t))"

section \<open>Registration\<close>

definition register_instrument :: "AssetClass \<Rightarrow> string \<Rightarrow> string option \<Rightarrow> string option \<Rightarrow> instrument py" where
  "register_instrument ac name isin figi s =
     flush_insert insert_instrument
       \<lparr>ins_id = uuid4 s, asset_class = ac, ins_name = name, ins_isin = isin, ins_figi = figi,
        ins_created_at = utcnow s, ins_updated_at = utcnow s\<rparr> s"

definition add_listing :: "instrument \<Rightarrow> string \<Rightarrow> string \<Rightarrow> string \<Rightarrow> string option \<Rightarrow> listing py" where
  "add_listing i venue ticker currency mic s =
     flush_insert insert_listing
       \<lparr>lst_id = uuid4 s, lst_instrument_id = ins_id i, lst_mic = mic, lst_venue = venue, lst_ticker = ticker,
        lst_currency = upper currency, lst_created_at = utcnow s, lst_updated_at = utcnow s\<rparr> s"

definition link_external_identity :: "listing \<Rightarrow> string \<Rightarrow> string \<Rightarrow> date \<Rightarrow> date option \<Rightarrow> external_identity py" where
  "link_external_identity l source ext valid_from valid_to s =
     flush_insert insert_identity
       \<lparr>xid_id = uuid4 s, xid_listing_id = lst_id l, xid_source = source, xid_external_id = ext,
        xid_valid_from = valid_from, xid_valid_to = valid_to, xid_created_at = utcnow s, xid_updated_at = utcnow s\<rparr> s"

section \<open>Search\<close>

record listing_search_criteria =
  by_isin :: "string option"
  by_figi :: "string option"
  by_ticker :: "string option"
  by_mic :: "string option"
  by_venue :: "string option"
  by_currency :: "string option"
  by_asset_class :: "AssetClass option"

definition any_listing :: listing_search_criteria where
  "any_listing = \<lparr>by_isin = None, by_figi = None, by_ticker = None, by_mic = None, by_venue = None, by_currency = None,
     by_asset_class = None\<rparr>"

definition given :: "'a option \<Rightarrow> ('a \<Rightarrow> bool) \<Rightarrow> bool" where
  "given c p \<longleftrightarrow> (case c of None \<Rightarrow> True | Some v \<Rightarrow> p v)"

definition satisfies :: "listing_search_criteria \<Rightarrow> instrument \<Rightarrow> listing \<Rightarrow> bool" where
  "satisfies c i l \<longleftrightarrow>
     given (by_isin c) (\<lambda>v. ins_isin i = Some v) \<and> given (by_figi c) (\<lambda>v. ins_figi i = Some v)
     \<and> given (by_asset_class c) (\<lambda>v. asset_class i = v) \<and> given (by_ticker c) (\<lambda>v. lst_ticker l = v)
     \<and> given (by_mic c) (\<lambda>v. lst_mic l = Some v) \<and> given (by_venue c) (\<lambda>v. lst_venue l = v)
     \<and> given (by_currency c) (\<lambda>v. lst_currency l = upper v)"

text \<open>The join with \<open>instruments\<close>, whose identifiers are unique.\<close>

definition instrument_of :: "sess \<Rightarrow> listing \<Rightarrow> instrument option" where
  "instrument_of s l = select_first (\<lambda>i. ins_id i = lst_instrument_id l) (instruments (work s))"

definition matches_criteria :: "sess \<Rightarrow> listing_search_criteria \<Rightarrow> listing \<Rightarrow> bool" where
  "matches_criteria s c l \<longleftrightarrow> (case instrument_of s l of None \<Rightarrow> False | Some i \<Rightarrow> satisfies c i l)"

definition find_listings :: "sess \<Rightarrow> listing_search_criteria \<Rightarrow> listing list" where
  "find_listings s c = filter (matches_criteria s c) (listings (work s))"

definition resolve_single_listing :: "sess \<Rightarrow> listing_search_criteria \<Rightarrow> exn + listing" where
  "resolve_single_listing s c =
     (let candidates = find_listings s c
      in if length candidates \<noteq> 1 then Inl (AmbiguousMatchError (map lst_id candidates)) else Inr (candidates ! 0))"

definition get_instrument :: "uuid \<Rightarrow> sess \<Rightarrow> instrument option" where
  "get_instrument i s = select_first (\<lambda>q. ins_id q = i) (instruments (work s))"

definition get_listing :: "uuid \<Rightarrow> sess \<Rightarrow> listing option" where
  "get_listing i s = select_first (\<lambda>l. lst_id l = i) (listings (work s))"

section \<open>The tables stay well-formed\<close>

definition referenced :: "sess \<Rightarrow> bool" where
  "referenced s \<longleftrightarrow> (\<forall>l \<in> set (listings (work s)). lst_instrument_id l \<in> ins_id ` set (instruments (work s)))
     \<and> (\<forall>x \<in> set (identities (work s)). xid_listing_id x \<in> lst_id ` set (listings (work s)))"

definition keys_ok :: "sess \<Rightarrow> bool" where
  "keys_ok s \<longleftrightarrow> distinct (map ins_id (instruments (work s)))
     \<and> distinct (map ins_isin (filter (\<lambda>i. ins_isin i \<noteq> None) (instruments (work s))))
     \<and> distinct (map lst_id (listings (work s))) \<and> distinct (map listing_key (listings (work s)))
     \<and> distinct (map xid_id (identities (work s))) \<and> distinct (map identity_key (identities (work s)))"

definition catalog_ok :: "sess \<Rightarrow> bool" where
  "catalog_ok s \<longleftrightarrow> keys_ok s \<and> fk_holds s (referenced s)
     \<and> list_all (\<lambda>l. upper (lst_currency l) = lst_currency l) (listings (work s)) \<and> list_all valid_period (identities (work s))"

lemma on_catalog_tables [simp]:
  "instruments (work (on_catalog f g h s)) = f (instruments (work s))" "listings (work (on_catalog f g h s)) = g (listings (work s))"
  "identities (work (on_catalog f g h s)) = h (identities (work s))" "engine (work (on_catalog f g h s)) = engine (work s)"
  by (simp_all add: on_catalog_def)

lemma catalog_ok_drawn [simp]: "catalog_ok (drawn s) = catalog_ok s"
  by (simp add: catalog_ok_def keys_ok_def referenced_def fk_holds_def)

lemma fk_holds_mono: "fk_holds s a \<Longrightarrow> engine (work t) = engine (work s) \<Longrightarrow> (a \<Longrightarrow> b) \<Longrightarrow> fk_holds t b"
  by (auto simp: fk_holds_def)

lemma unused_key: "\<forall>q \<in> set xs. k q \<noteq> v \<Longrightarrow> v \<notin> set (map k xs)"
  by auto

lemma insert_instrument_ok:
  assumes "catalog_ok s" and "insert_instrument i s = Some t"
  shows "catalog_ok t"
proof -
  from assms(2) have t: "t = on_catalog (\<lambda>is. is @ [i]) id id s"
    and q: "\<forall>q \<in> set (instruments (work s)). ins_id q \<noteq> ins_id i" "ins_isin i \<noteq> None \<Longrightarrow> \<forall>q \<in> set (instruments (work s)). ins_isin q \<noteq> ins_isin i"
    by (auto simp: insert_instrument_def split: if_splits)
  have "ins_isin i \<noteq> None \<Longrightarrow> ins_isin i \<notin> set (map ins_isin (filter (\<lambda>i. ins_isin i \<noteq> None) (instruments (work s))))"
    using q(2) by (intro unused_key) simp
  then have "keys_ok t" using assms(1) unused_key [OF q(1)] by (simp add: catalog_ok_def keys_ok_def t)
  moreover have "fk_holds t (referenced t)"
    using assms(1) unfolding catalog_ok_def by (elim conjE fk_holds_mono) (auto simp: referenced_def t)
  ultimately show ?thesis using assms(1) by (simp add: catalog_ok_def t)
qed

lemma insert_listing_ok:
  assumes "catalog_ok s" and "upper (lst_currency l) = lst_currency l" and "insert_listing l s = Some t"
  shows "catalog_ok t"
proof -
  from assms(3) have t: "t = on_catalog id (\<lambda>ls. ls @ [l]) id s"
    and q: "\<forall>q \<in> set (listings (work s)). lst_id q \<noteq> lst_id l" "\<forall>q \<in> set (listings (work s)). listing_key q \<noteq> listing_key l"
    and fk: "fk_holds s (lst_instrument_id l \<in> ins_id ` set (instruments (work s)))"
    by (auto simp: insert_listing_def split: if_splits)
  have "keys_ok t" using assms(1) unused_key [OF q(1)] unused_key [OF q(2)] by (simp add: catalog_ok_def keys_ok_def t)
  moreover have "fk_holds s (referenced s \<and> lst_instrument_id l \<in> ins_id ` set (instruments (work s)))"
    using assms(1) fk by (auto simp: catalog_ok_def fk_holds_def)
  then have "fk_holds t (referenced t)" by (rule fk_holds_mono) (auto simp: referenced_def t)
  ultimately show ?thesis using assms(1,2) by (simp add: catalog_ok_def t)
qed

lemma insert_identity_ok:
  assumes "catalog_ok s" and "insert_identity x s = Some t"
  shows "catalog_ok t"
proof -
  from assms(2) have t: "t = on_catalog id id (\<lambda>xs. xs @ [x]) s" and v: "valid_period x"
    and q: "\<forall>q \<in> set (identities (work s)). xid_id q \<noteq> xid_id x" "\<forall>q \<in> set (identities (work s)). identity_key q \<noteq> identity_key x"
    and fk: "fk_holds s (xid_listing_id x \<in> lst_id ` set (listings (work s)))"
    by (auto simp: insert_identity_def split: if_splits)
  have "keys_ok t" using assms(1) unused_key [OF q(1)] unused_key [OF q(2)] by (simp add: catalog_ok_def keys_ok_def t)
  moreover have "fk_holds s (referenced s \<and> xid_listing_id x \<in> lst_id ` set (listings (work s)))"
    using assms(1) fk by (auto simp: catalog_ok_def fk_holds_def)
  then have "fk_holds t (referenced t)" by (rule fk_holds_mono) (auto simp: referenced_def t)
  ultimately show ?thesis using assms(1) v by (simp add: catalog_ok_def t)
qed

lemma flush_insert_ok:
  assumes "\<And>u. ins r (drawn s) = Some u \<Longrightarrow> catalog_ok u" and "catalog_ok s" and "flush_insert ins r s = (x, t)"
  shows "catalog_ok t"
  using assms by (auto simp: flush_insert_def split: option.splits)

text \<open>The operations of the service that write, in any sequence.\<close>

datatype catalog_operation =
    Register AssetClass string "string option" "string option"
  | Add instrument string string string "string option"
  | Link listing string string date "date option"

fun run_operation :: "catalog_operation \<Rightarrow> sess \<Rightarrow> sess" where
  "run_operation (Register ac name isin figi) s = snd (register_instrument ac name isin figi s)"
| "run_operation (Add i venue ticker currency mic) s = snd (add_listing i venue ticker currency mic s)"
| "run_operation (Link l source ext valid_from valid_to) s = snd (link_external_identity l source ext valid_from valid_to s)"

lemma run_operation_ok: "catalog_ok s \<Longrightarrow> catalog_ok (run_operation op1 s)"
proof (cases op1)
  case (Register ac name isin figi)
  assume "catalog_ok s"
  with Register show ?thesis
    by (auto simp: register_instrument_def intro!: flush_insert_ok [OF _ _ surjective_pairing] elim: insert_instrument_ok [rotated])
next
  case (Add i venue ticker currency mic)
  assume "catalog_ok s"
  with Add show ?thesis
    by (auto simp: add_listing_def intro!: flush_insert_ok [OF _ _ surjective_pairing] elim: insert_listing_ok [rotated 2])
next
  case (Link l source ext valid_from valid_to)
  assume "catalog_ok s"
  with Link show ?thesis
    by (auto simp: link_external_identity_def intro!: flush_insert_ok [OF _ _ surjective_pairing] elim: insert_identity_ok [rotated])
qed

text \<open>
  C26. The catalog stays well-formed. Whatever sequence of registrations is run, also with unknown
  objects or values that the tables refuse: identifiers, ISINs, an instrument's listings and a
  source's identities stay unique, currencies are upper case, no period ends before it starts, and
  where the engine enforces foreign keys no row refers to a missing one.
\<close>

theorem catalog_stays_well_formed:
  assumes "catalog_ok s"
  shows "catalog_ok (fold run_operation ops s)"
  using assms by (induction ops arbitrary: s) (simp_all add: run_operation_ok)

theorem catalog_stays_well_formed_witness:
  "catalog_ok (fold run_operation [Register CRYPTO ''Bitcoin'' None None] (session_on (empty_database POSTGRESQL) 0))"
  by (rule catalog_stays_well_formed)
    (simp add: catalog_ok_def keys_ok_def referenced_def fk_holds_def session_on_def empty_database_def)

section \<open>The search is exact\<close>

lemma any_case: "matches_criteria s (c\<lparr>by_currency := map_option upper (by_currency c)\<rparr>) = matches_criteria s c"
proof
  fix l
  have "satisfies (c\<lparr>by_currency := map_option upper (by_currency c)\<rparr>) i l = satisfies c i l" for i
    by (cases "by_currency c") (simp_all add: satisfies_def given_def)
  then show "matches_criteria s (c\<lparr>by_currency := map_option upper (by_currency c)\<rparr>) l = matches_criteria s c l"
    unfolding matches_criteria_def by presburger
qed

lemma single_iff: "distinct xs \<Longrightarrow> length xs = 1 \<longleftrightarrow> (\<exists>x. set xs = {x})"
  by (metis One_nat_def card_1_singleton_iff distinct_card)

text \<open>
  A listing is resolved only when it is the one that matches. In a well-formed catalog the result
  is \<open>l\<close> exactly when \<open>l\<close> and no other listing satisfies every given criterion with its instrument;
  otherwise \<open>AmbiguousMatchError\<close> names all candidates, none when nothing matches. A currency is
  found in any case of its letters.
\<close>

theorem resolves_exactly_one:
  assumes "catalog_ok s"
  shows "(resolve_single_listing s c = Inr l)
       = ({q \<in> set (listings (work s)). \<exists>i \<in> set (instruments (work s)). ins_id i = lst_instrument_id q \<and> satisfies c i q} = {l})
    \<and> (\<forall>e. resolve_single_listing s c = Inl e \<longrightarrow> e = AmbiguousMatchError (map lst_id (find_listings s c)))
    \<and> find_listings s (c\<lparr>by_currency := map_option upper (by_currency c)\<rparr>) = find_listings s c"
proof (intro conjI)
  have ids: "distinct (map ins_id (instruments (work s)))" "distinct (map lst_id (listings (work s)))"
    using assms by (simp_all add: catalog_ok_def keys_ok_def)
  have "matches_criteria s c q \<longleftrightarrow> (\<exists>i \<in> set (instruments (work s)). ins_id i = lst_instrument_id q \<and> satisfies c i q)" for q
  proof (cases "instrument_of s q")
    case None
    then have "\<forall>i \<in> set (instruments (work s)). ins_id i \<noteq> lst_instrument_id q"
      by (simp add: instrument_of_def select_first_None_iff)
    with None show ?thesis by (simp add: matches_criteria_def)
  next
    case (Some i)
    then have i: "i \<in> set (instruments (work s))" "ins_id i = lst_instrument_id q"
      by (auto simp: instrument_of_def dest: select_first_SomeD)
    have u: "i' = i" if "i' \<in> set (instruments (work s))" "ins_id i' = lst_instrument_id q" for i'
      using that i by (intro distinct_map_inj [OF ids(1)]) simp_all
    have "matches_criteria s c q = satisfies c i q" by (simp add: matches_criteria_def Some)
    also have "\<dots> \<longleftrightarrow> (\<exists>i \<in> set (instruments (work s)). ins_id i = lst_instrument_id q \<and> satisfies c i q)"
      using i(1) i(2) by (blast dest: u)
    finally show ?thesis .
  qed
  then have set: "set (find_listings s c) = {q \<in> set (listings (work s)). \<exists>i \<in> set (instruments (work s)). ins_id i = lst_instrument_id q \<and> satisfies c i q}"
    by (auto simp: find_listings_def)
  have "distinct (find_listings s c)" using ids(2) by (simp add: find_listings_def distinct_map)
  from single_iff [OF this] show "(resolve_single_listing s c = Inr l)
       = ({q \<in> set (listings (work s)). \<exists>i \<in> set (instruments (work s)). ins_id i = lst_instrument_id q \<and> satisfies c i q} = {l})"
    unfolding set [symmetric] by (auto simp: resolve_single_listing_def Let_def length_Suc_conv split: if_splits)
  show "\<forall>e. resolve_single_listing s c = Inl e \<longrightarrow> e = AmbiguousMatchError (map lst_id (find_listings s c))"
    by (simp add: resolve_single_listing_def Let_def)
  show "find_listings s (c\<lparr>by_currency := map_option upper (by_currency c)\<rparr>) = find_listings s c"
    unfolding find_listings_def by (simp only: any_case)
qed

theorem resolves_exactly_one_witness:
  "resolve_single_listing (session_on (empty_database SQLITE) 0) any_listing
     \<noteq> Inr \<lparr>lst_id = 1, lst_instrument_id = 2, lst_mic = None, lst_venue = ''X'', lst_ticker = ''T'', lst_currency = ''EUR'',
          lst_created_at = 0, lst_updated_at = 0\<rparr>"
proof -
  let ?s = "session_on (empty_database SQLITE) 0"
  have "catalog_ok ?s"
    by (simp add: catalog_ok_def keys_ok_def referenced_def fk_holds_def session_on_def empty_database_def)
  from resolves_exactly_one [OF this, of any_listing] show ?thesis by (simp add: session_on_def empty_database_def)
qed

end
