(* ===== verification/Scheduler.thy ===== *)
theory Scheduler
  imports Runner Settings Catalog
begin

text \<open>
  \<open>domain/ingestion/scheduler_service.py\<close> and \<open>scheduler_runs.py\<close>: one cycle of the scheduler. The
  refresh phase works on the session alone; the processing phase on the state of the runner
  (\<open>'q rt\<close>). A \<open>deployment\<close> holds what lies around a cycle: the registries and calendar routes, the
  size of the pipe to the provider's process, what other sessions do, which lock attempts fail, and
  when the query for a source's identities fails as a whole. SQL leaves the order of identities with
  equal \<open>(listing_id, valid_from)\<close> open; here it is that of the table.
\<close>

type_synonym provider_code = "nat \<Rightarrow> string \<Rightarrow> date \<Rightarrow> date \<Rightarrow> raw_observation list child_run"

record 'q deployment =
  adapters :: "(unit, unit, provider_code, unit, calendar, 'q quota_port) registries"
  routes :: "(string \<times> string) list"
  pipe_size :: nat
  concurrently :: "nat \<Rightarrow> sess \<Rightarrow> sess"
  numeric_column :: "decimal \<Rightarrow> decimal"
  rival_rows :: "nat \<Rightarrow> observation list \<Rightarrow> observation list"
  lock_failures :: "uuid option \<Rightarrow> nat \<Rightarrow> bool"
  query_fails :: "string \<Rightarrow> sess \<Rightarrow> exn option"

definition default_credential_scope :: string where
  "default_credential_scope = ''default''"

definition observation_type_for :: "AssetClass \<Rightarrow> ObservationType" where
  "observation_type_for ac = (if ac = FUND then NAV else EOD_CLOSE)"

record refresh_outcome =
  listings_considered :: nat
  jobs_enqueued :: nat
  refresh_errors :: "string list"

record process_outcome =
  jobs_claimed :: nat
  jobs_done :: nat
  jobs_waiting :: nat
  jobs_deferred_quota :: nat
  jobs_failed_terminal :: nat
  jobs_retrying :: nat

record scheduler_cycle_result =
  refreshed_part :: refresh_outcome
  processed_part :: process_outcome

section \<open>Refresh and dispatch\<close>

definition ports_of :: "'q deployment \<Rightarrow> string \<Rightarrow> exn + provider_code \<times> 'q quota_port" where
  "ports_of D source =
     (case get_historical_price_port (adapters D) source of
        Inl e \<Rightarrow> Inl e
      | Inr h \<Rightarrow> (case get_quota_port (adapters D) source of Inl e \<Rightarrow> Inl e | Inr q \<Rightarrow> Inr (h, q)))"

definition valid_identity :: "string \<Rightarrow> date \<Rightarrow> external_identity \<Rightarrow> bool" where
  "valid_identity source today x \<longleftrightarrow>
     xid_source x = source \<and> (case xid_valid_to x of None \<Rightarrow> True | Some d \<Rightarrow> today \<le> d)"

definition identity_order :: "external_identity \<Rightarrow> uuid \<times> date" where
  "identity_order x = (xid_listing_id x, xid_valid_from x)"

definition considered :: "string \<Rightarrow> date \<Rightarrow> nat \<Rightarrow> external_identity list \<Rightarrow> external_identity list" where
  "considered source today n xs = take n (sort_key identity_order (filter (valid_identity source today) xs))"

text \<open>The class of \<open>listing.instrument\<close>, which is \<open>None\<close> when the row is missing.\<close>

definition asset_class_of :: "listing \<Rightarrow> sess \<Rightarrow> exn + AssetClass" where
  "asset_class_of l s =
     (case select_first (\<lambda>i. ins_id i = lst_instrument_id l) (instruments (work s)) of
        None \<Rightarrow> Inl (ForeignError ''AttributeError'') | Some i \<Rightarrow> Inr (asset_class i))"

definition identity_request :: "settings \<Rightarrow> recovery_limits option \<Rightarrow> datetime \<Rightarrow> string \<Rightarrow> external_identity
    \<Rightarrow> listing \<Rightarrow> AssetClass \<Rightarrow> sess \<Rightarrow> dispatch_request" where
  "identity_request st limits now source x l ac s =
     \<lparr>dsp_limits = (case limits of None \<Rightarrow> default_limits | Some m \<Rightarrow> m), dsp_listing_id = lst_id l,
      dsp_asset_class = ac, dsp_venue = lst_venue l, dsp_mic = lst_mic l, dsp_source = source,
      dsp_scope = default_credential_scope, dsp_external_listing_id = xid_external_id x,
      dsp_observation_type = observation_type_for ac,
      dsp_last_completed = last_completed_session s source default_credential_scope (xid_external_id x)
        (observation_type_for ac),
      dsp_today = date_of now, dsp_now = now,
      dsp_waiting_retry_seconds = waiting_publication_retry_seconds st\<rparr>"

definition dispatch_identity :: "'q deployment \<Rightarrow> settings \<Rightarrow> recovery_limits option \<Rightarrow> datetime \<Rightarrow> string
    \<Rightarrow> external_identity \<Rightarrow> listing \<Rightarrow> dispatch_result py" where
  "dispatch_identity D st limits now source x l s =
     (case asset_class_of l s of
        Inl e \<Rightarrow> (Inl e, s)
      | Inr ac \<Rightarrow>
          (case get_calendar_for_listing (routes D) (adapters D) (lst_mic l) (lst_venue l) of
             Inl e \<Rightarrow> (Inl e, s)
           | Inr cal \<Rightarrow> plan_and_enqueue cal (identity_request st limits now source x l ac s) s))"

definition created_count :: "dispatch_result \<Rightarrow> nat" where
  "created_count r = length (filter er_created (dr_enqueued r))
     + (case dr_waiting_job r of None \<Rightarrow> 0 | Some w \<Rightarrow> if er_created w then 1 else 0)"

definition refresh_error :: "string \<Rightarrow> exn \<Rightarrow> string" where
  "refresh_error source e = source @ '': '' @ adapter_error_code e"

definition note_error :: "string \<Rightarrow> exn \<Rightarrow> refresh_outcome \<Rightarrow> refresh_outcome" where
  "note_error source e oc = oc\<lparr>refresh_errors := refresh_errors oc @ [refresh_error source e]\<rparr>"

fun refresh_identities :: "'q deployment \<Rightarrow> settings \<Rightarrow> recovery_limits option \<Rightarrow> datetime \<Rightarrow> string
    \<Rightarrow> external_identity list \<Rightarrow> refresh_outcome \<Rightarrow> sess \<Rightarrow> refresh_outcome \<times> sess" where
  "refresh_identities D st limits now source [] oc s = (oc, s)"
| "refresh_identities D st limits now source (x # xs) oc s =
     (let oc1 = oc\<lparr>listings_considered := listings_considered oc + 1\<rparr>
      in case get_listing (xid_listing_id x) s of
           None \<Rightarrow> refresh_identities D st limits now source xs oc1 s
         | Some l \<Rightarrow> (case dispatch_identity D st limits now source x l s of
             (Inl e, t) \<Rightarrow> refresh_identities D st limits now source xs (note_error source e oc1) t
           | (Inr r, t) \<Rightarrow> refresh_identities D st limits now source xs
               (oc1\<lparr>jobs_enqueued := jobs_enqueued oc1 + created_count r\<rparr>) t))"

fun refresh_sources :: "'q deployment \<Rightarrow> settings \<Rightarrow> recovery_limits option \<Rightarrow> nat \<Rightarrow> datetime
    \<Rightarrow> string list \<Rightarrow> refresh_outcome \<Rightarrow> refresh_outcome py" where
  "refresh_sources D st limits n now [] oc s = (Inr oc, s)"
| "refresh_sources D st limits n now (source # rest) oc s =
     (case ports_of D source of
        Inl e \<Rightarrow> refresh_sources D st limits n now rest (note_error source e oc) s
      | Inr ports \<Rightarrow> (case query_fails D source s of
          Some e \<Rightarrow> (Inl e, s)
        | None \<Rightarrow> (case refresh_identities D st limits now source
              (considered source (date_of now) n (identities (work s))) oc s of
            (oc1, t) \<Rightarrow> refresh_sources D st limits n now rest oc1 t)))"

definition no_refresh :: refresh_outcome where
  "no_refresh = \<lparr>listings_considered = 0, jobs_enqueued = 0, refresh_errors = []\<rparr>"

definition refresh_and_dispatch :: "'q deployment \<Rightarrow> settings \<Rightarrow> recovery_limits option \<Rightarrow> nat \<Rightarrow> datetime
    \<Rightarrow> refresh_outcome py" where
  "refresh_and_dispatch D st limits n now = refresh_sources D st limits n now (enabled_sources st) no_refresh"

section \<open>Processing the batch\<close>

definition runner_for :: "'q deployment \<Rightarrow> settings \<Rightarrow> provider_code \<times> 'q quota_port \<Rightarrow> 'q runner" where
  "runner_for D st ports = \<lparr>provider = fst ports, quota = snd ports,
     timeout_seconds = provider_timeout_seconds st, pipe_capacity = pipe_size D, meanwhile = concurrently D,
     column = numeric_column D, other_writers = rival_rows D, locks = lock_failures D\<rparr>"

definition process_one :: "'q deployment \<Rightarrow> settings \<Rightarrow> string \<Rightarrow> datetime \<Rightarrow> uuid \<Rightarrow> ('q, job_outcome) run" where
  "process_one D st worker_id now i =
     andthen (the_job i) (\<lambda>j. case ports_of D (job_source j) of
         Inl e \<Rightarrow> throw e
       | Inr ports \<Rightarrow> process (runner_for D st ports) i worker_id (Some now))"

text \<open>The handler of an unforeseen failure, and the object of the job after it.\<close>

definition isolate_failure :: "string \<Rightarrow> datetime \<Rightarrow> uuid \<Rightarrow> exn \<Rightarrow> ('q, job) run" where
  "isolate_failure worker_id now i e =
     andthen (the_job i) (\<lambda>j.
     andthen (transition i (mark_failed j worker_id (generation j) (adapter_error_code e) now)) (\<lambda>_. the_job i))"

definition count_failure :: "JobStatus \<Rightarrow> process_outcome \<Rightarrow> process_outcome" where
  "count_failure status oc = oc\<lparr>
     jobs_failed_terminal := jobs_failed_terminal oc + (if status = FAILED then 1 else 0),
     jobs_retrying := jobs_retrying oc + (if status = PENDING then 1 else 0)\<rparr>"

fun count_status :: "JobStatus \<Rightarrow> process_outcome \<Rightarrow> process_outcome" where
  "count_status DONE oc = oc\<lparr>jobs_done := jobs_done oc + 1\<rparr>"
| "count_status WAITING_FOR_PUBLICATION oc = oc\<lparr>jobs_waiting := jobs_waiting oc + 1\<rparr>"
| "count_status FAILED oc = oc\<lparr>jobs_failed_terminal := jobs_failed_terminal oc + 1\<rparr>"
| "count_status PENDING oc = oc\<lparr>jobs_retrying := jobs_retrying oc + 1\<rparr>"
| "count_status CLAIMED oc = oc"
| "count_status RUNNING oc = oc"

text \<open>The counters after a job that ended without an exception.\<close>

definition tally :: "uuid \<Rightarrow> job_outcome \<Rightarrow> process_outcome \<Rightarrow> ('q, process_outcome) run" where
  "tally i out oc =
     (if detail out = ''quota_exhausted'' then ret (oc\<lparr>jobs_deferred_quota := jobs_deferred_quota oc + 1\<rparr>)
      else andthen (the_job i) (\<lambda>j. ret (count_status (job_status j) oc)))"

definition process_step :: "'q deployment \<Rightarrow> settings \<Rightarrow> string \<Rightarrow> datetime \<Rightarrow> uuid \<Rightarrow> process_outcome
    \<Rightarrow> ('q, process_outcome) run" where
  "process_step D st worker_id now i oc rt =
     (case process_one D st worker_id now i rt of
        (Inl (StaleJobClaimError k), rt1) \<Rightarrow> (Inr oc, rt1)
      | (Inl e, rt1) \<Rightarrow> andthen (isolate_failure worker_id now i e) (\<lambda>j. ret (count_failure (job_status j) oc)) rt1
      | (Inr out, rt1) \<Rightarrow> tally i out oc rt1)"

fun process_each :: "'q deployment \<Rightarrow> settings \<Rightarrow> string \<Rightarrow> datetime \<Rightarrow> uuid list \<Rightarrow> process_outcome
    \<Rightarrow> ('q, process_outcome) run" where
  "process_each D st worker_id now [] oc = ret oc"
| "process_each D st worker_id now (i # is) oc =
     andthen (process_step D st worker_id now i oc) (process_each D st worker_id now is)"

definition claim_batch :: "'q deployment \<Rightarrow> settings \<Rightarrow> string \<Rightarrow> datetime \<Rightarrow> nat \<Rightarrow> ('q, uuid list) run" where
  "claim_batch D st worker_id now n =
     andthen (in_session (claim_next (lock_failures D) worker_id now None n (job_lease_seconds st)))
       (\<lambda>js rt. (Inr (map job_id js),
          rt\<lparr>rt_loaded := (\<lambda>i. case select_first (\<lambda>j. job_id j = i) js of None \<Rightarrow> rt_loaded rt i | Some j \<Rightarrow> Some j)\<rparr>))"

definition claimed_only :: "nat \<Rightarrow> process_outcome" where
  "claimed_only n = \<lparr>jobs_claimed = n, jobs_done = 0, jobs_waiting = 0, jobs_deferred_quota = 0,
     jobs_failed_terminal = 0, jobs_retrying = 0\<rparr>"

definition claim_and_process :: "'q deployment \<Rightarrow> settings \<Rightarrow> string \<Rightarrow> datetime \<Rightarrow> nat \<Rightarrow> ('q, process_outcome) run" where
  "claim_and_process D st worker_id now n =
     andthen (claim_batch D st worker_id now n)
       (\<lambda>is. process_each D st worker_id now is (claimed_only (length is)))"

section \<open>The durable record of a cycle\<close>

definition on_sess :: "(sess \<Rightarrow> sess) \<Rightarrow> 'q rt \<Rightarrow> 'q rt" where
  "on_sess f rt = rt\<lparr>rt_sess := f (rt_sess rt)\<rparr>"

text \<open>A rollback expires every object of the session.\<close>

definition rollback_all :: "'q rt \<Rightarrow> 'q rt" where
  "rollback_all rt = rt\<lparr>rt_sess := rollback (rt_sess rt), rt_loaded := (\<lambda>k. None)\<rparr>"

definition new_run :: "uuid \<Rightarrow> datetime \<Rightarrow> scheduler_run" where
  "new_run i now = \<lparr>run_id = i, started_at = now, finished_at = None, scheduler_status = None, worker_status = None,
     run_error_code = None\<rparr>"

definition start_run :: "datetime \<Rightarrow> sess \<Rightarrow> uuid \<times> sess" where
  "start_run now s = (uuid4 s, commit (on_runs (\<lambda>rs. rs @ [new_run (uuid4 s) now]) (drawn s)))"

definition with_code :: "string option \<Rightarrow> scheduler_run \<Rightarrow> scheduler_run" where
  "with_code code r = (case code of None \<Rightarrow> r | Some c \<Rightarrow> r\<lparr>run_error_code := Some c\<rparr>)"

definition record_scheduler_result :: "uuid \<Rightarrow> SchedulerRunStatus \<Rightarrow> string option \<Rightarrow> sess \<Rightarrow> sess" where
  "record_scheduler_result i status code s =
     commit (on_runs (update_where (\<lambda>r. run_id r = i) (\<lambda>r. with_code code (r\<lparr>scheduler_status := Some status\<rparr>))) s)"

definition record_worker_result :: "uuid \<Rightarrow> SchedulerRunStatus \<Rightarrow> string option \<Rightarrow> sess \<Rightarrow> sess" where
  "record_worker_result i status code s =
     commit (on_runs (update_where (\<lambda>r. run_id r = i)
       (\<lambda>r. with_code code (r\<lparr>worker_status := Some status, finished_at := Some (utcnow s)\<rparr>))) s)"

definition processing_phase :: "'q deployment \<Rightarrow> settings \<Rightarrow> string \<Rightarrow> datetime \<Rightarrow> uuid \<Rightarrow> refresh_outcome
    \<Rightarrow> ('q, scheduler_cycle_result) run" where
  "processing_phase D st worker_id now i refresh rt =
     (case claim_and_process D st worker_id now (nat (scheduler_batch_size st)) rt of
        (Inl e, rt1) \<Rightarrow> (Inl e, on_sess (record_worker_result i FAILURE (Some (adapter_error_code e))) (rollback_all rt1))
      | (Inr counts, rt1) \<Rightarrow> (Inr \<lparr>refreshed_part = refresh, processed_part = counts\<rparr>,
          on_sess (record_worker_result i SUCCESS None) (on_sess commit rt1)))"

definition refresh_phase :: "'q deployment \<Rightarrow> settings \<Rightarrow> recovery_limits option \<Rightarrow> nat \<Rightarrow> datetime \<Rightarrow> uuid
    \<Rightarrow> ('q, refresh_outcome) run" where
  "refresh_phase D st limits n now i rt =
     (case in_session (refresh_and_dispatch D st limits n now) rt of
        (Inl e, rt1) \<Rightarrow> (Inl e, on_sess (record_worker_result i FAILURE None)
          (on_sess (record_scheduler_result i FAILURE (Some (adapter_error_code e))) (rollback_all rt1)))
      | (Inr refresh, rt1) \<Rightarrow> (Inr refresh, on_sess (record_scheduler_result i SUCCESS None) (on_sess commit rt1)))"

definition run_scheduler_cycle :: "'q deployment \<Rightarrow> settings \<Rightarrow> recovery_limits option \<Rightarrow> nat \<Rightarrow> string \<Rightarrow> datetime
    \<Rightarrow> ('q, scheduler_cycle_result) run" where
  "run_scheduler_cycle D st limits n worker_id now rt =
     (case start_run now (rt_sess rt) of
        (i, s) \<Rightarrow> andthen (refresh_phase D st limits n now i) (processing_phase D st worker_id now i) (rt\<lparr>rt_sess := s\<rparr>))"

section \<open>The entry point\<close>

text \<open>\<open>db/session.py\<close> and \<open>entrypoints/scheduler.py\<close>; the log and the engine are in \<open>Entrypoints\<close>.\<close>

definition session_scope :: "('q, 'a) run \<Rightarrow> ('q, 'a) run" where
  "session_scope body rt =
     (case body rt of
        (Inl e, rt1) \<Rightarrow> (Inl e, rollback_all rt1)
      | (Inr x, rt1) \<Rightarrow> (Inr x, on_sess commit rt1))"

definition max_listings_refreshed_per_source :: nat where
  "max_listings_refreshed_per_source = 200"

definition scheduler_worker_id :: string where
  "scheduler_worker_id = ''scheduler''"

definition run_scheduler :: "'q deployment \<Rightarrow> settings \<Rightarrow> datetime \<Rightarrow> ('q, scheduler_cycle_result) run" where
  "run_scheduler D st now =
     session_scope (run_scheduler_cycle D st None max_listings_refreshed_per_source scheduler_worker_id now)"

text \<open>A cycle ends with a commit on every path, so the scope around it changes nothing that is durable.\<close>

lemma cycle_ends_committed:
  assumes "run_scheduler_cycle D st limits n w now rt = (x, rt')"
  shows "work (rt_sess rt') = durable (rt_sess rt')"
  using assms
  by (auto simp: run_scheduler_cycle_def andthen_def refresh_phase_def processing_phase_def on_sess_def
      record_worker_result_def split: prod.splits sum.splits)

lemma scope_keeps_cycle:
  assumes "run_scheduler_cycle D st None max_listings_refreshed_per_source scheduler_worker_id now rt = (x, rt')"
  shows "durable (rt_sess (snd (run_scheduler D st now rt))) = durable (rt_sess rt') \<and> fst (run_scheduler D st now rt) = x"
  using assms cycle_ends_committed [OF assms]
  by (cases x) (simp_all add: run_scheduler_def session_scope_def on_sess_def rollback_all_def)

end
