(* ===== verification/Invariants.thy ===== *)
theory Invariants
  imports Scheduler
begin

text \<open>
  What the statements of a scheduler cycle keep. A predicate on sessions that no update of a job breaks
  (\<open>update_invariant\<close>) is kept by dispatching when inserting jobs keeps it too (\<open>queue_invariant\<close>), by
  fetching and storing when inserting observations does (\<open>row_invariant\<close>), and by claiming and
  processing when in addition a commit does (\<open>batch_invariant\<close>); a \<open>session_invariant\<close> is all of them. The
  locales are interpreted on the tables that \<open>Refresh\<close> and \<open>Cycle\<close> follow through a cycle.
\<close>

section \<open>What the statements of a cycle keep\<close>

definition keeps :: "('s \<Rightarrow> bool) \<Rightarrow> ('e, 's, 'a) act \<Rightarrow> bool" where
  "keeps P m \<longleftrightarrow> (\<forall>s x t. P s \<longrightarrow> m s = (x, t) \<longrightarrow> P t)"

abbreviation keeps_run :: "(sess \<Rightarrow> bool) \<Rightarrow> ('q, 'a) run \<Rightarrow> bool" where
  "keeps_run P m \<equiv> keeps (\<lambda>rt. P (rt_sess rt)) m"

lemma keepsD: "keeps P m \<Longrightarrow> m s = (x, t) \<Longrightarrow> P s \<Longrightarrow> P t"
  unfolding keeps_def by blast

lemma keepsI: "(\<And>s x t. P s \<Longrightarrow> m s = (x, t) \<Longrightarrow> P t) \<Longrightarrow> keeps P m"
  unfolding keeps_def by blast

lemma keeps_conj: "keeps P m \<Longrightarrow> keeps Q m \<Longrightarrow> keeps (\<lambda>s. P s \<and> Q s) m"
  unfolding keeps_def by blast

lemma keeps_andthen:
  assumes "keeps P m" and "\<And>x. keeps P (f x)"
  shows "keeps P (andthen m f)"
proof (rule keepsI)
  fix s x t
  assume s: "P s" "andthen m f s = (x, t)"
  obtain y u where u: "m s = (y, u)" by fastforce
  with s(1) have "P u" using keepsD [OF assms(1)] by blast
  with s(2) u keepsD [OF assms(2)] show "P t" by (cases y) (auto simp: andthen_def)
qed

lemma keeps_ret [simp]: "keeps P (ret x)"
  by (simp add: keeps_def)

lemma keeps_throw [simp]: "keeps P (throw e)"
  by (simp add: keeps_def)

lemma keeps_if: "keeps P m \<Longrightarrow> keeps P m' \<Longrightarrow> keeps P (if b then m else m')"
  by simp

lemma keeps_in_session:
  assumes "keeps P m"
  shows "keeps_run P (in_session m)"
proof (rule keepsI)
  fix rt x rt'
  assume "P (rt_sess rt)" "in_session m rt = (x, rt')"
  with keepsD [OF assms, of "rt_sess rt"] show "P (rt_sess rt')" by (auto simp: in_session_def split: prod.splits)
qed

lemma keeps_transition:
  assumes "keeps P m"
  shows "keeps_run P (transition i m)"
proof (rule keepsI)
  fix rt x rt'
  assume "P (rt_sess rt)" "transition i m rt = (x, rt')"
  with keepsD [OF assms, of "rt_sess rt"] show "P (rt_sess rt')"
    by (auto simp: transition_def split: prod.splits sum.splits)
qed

lemma keeps_the_job [simp]: "keeps_run P (the_job i)"
  by (auto simp: the_job_def intro!: keepsI split: option.splits)

lemma keeps_outcome [simp]: "keeps_run P (outcome_of i m n d)"
  unfolding outcome_of_def by (intro keeps_andthen keeps_the_job keeps_ret)

lemma keeps_consume [simp]: "keeps_run P (consume_quota R source)"
  by (auto simp: consume_quota_def intro!: keepsI split: prod.splits)

lemma keeps_when_locked: "keeps P m \<Longrightarrow> keeps P (when_locked b m)"
  by (simp add: when_locked_def)

lemma keeps_retry:
  assumes "\<And>n. keeps P (action n)"
  shows "keeps P (retry_on_lock k action)"
proof (induction k)
  case (Suc k)
  show ?case
  proof (rule keepsI)
    fix s x t
    assume s: "P s" "retry_on_lock (Suc k) action s = (x, t)"
    obtain y u where u: "action k s = (y, u)" by fastforce
    with s(1) have Pu: "P u" using keepsD [OF assms] by blast
    show "P t"
    proof (cases "y = Inl OperationalError")
      case True
      with s(2) u have "retry_on_lock k action u = (x, t)" by simp
      with Pu show ?thesis using keepsD [OF Suc.IH] by blast
    next
      case False
      with s(2) u have "u = t" by (auto split: sum.splits exn.splits)
      with Pu show ?thesis by simp
    qed
  qed
qed (simp add: keeps_def)

section \<open>What processing keeps\<close>

text \<open>
  Predicates on the state of the runner, which holds the objects of the session beside it: what is kept
  by reading a job and by the statements of its owner.
\<close>

locale owner_invariant =
  fixes Q :: "'q rt \<Rightarrow> bool"
  assumes reads: "keeps Q (the_job i)"
    and consumes: "keeps Q (consume_quota R source)"
    and fences: "keeps Q (in_session (assert_owned j w g))"
    and runs: "keeps Q (transition i (mark_running j w g))"
    and finishes: "keeps Q (transition i (mark_done j w g now))"
    and fails: "keeps Q (transition i (mark_failed j w g err now))"
    and defers: "keeps Q (transition i (defer_for_quota j w g at1 now))"
begin

lemma outcome_kept: "keeps Q (outcome_of i m n d)"
  unfolding outcome_of_def by (intro keeps_andthen reads keeps_ret)

lemma fail_job_kept: "keeps Q (fail_job i w g err now)"
  unfolding fail_job_def by (intro keeps_andthen reads fails)

lemma finish_job_kept: "keeps Q (finish_job i w g now n counts)"
  unfolding finish_job_def Let_def
  by (intro keeps_if keeps_andthen fail_job_kept reads finishes outcome_kept)

lemma isolate_kept: "keeps Q (isolate_failure w now i e)"
  unfolding isolate_failure_def by (intro keeps_andthen reads fails)

lemma tally_kept: "keeps Q (tally i out oc)"
  unfolding tally_def by (intro keeps_if keeps_andthen reads keeps_ret)

text \<open>Where processing one job keeps it, so does processing a batch of them.\<close>

lemma step_kept:
  assumes "keeps Q (process_one D st w now i)"
  shows "keeps Q (process_step D st w now i oc)"
proof (rule keepsI)
  fix rt x rt'
  assume rt: "Q rt" "process_step D st w now i oc rt = (x, rt')"
  obtain y rt1 where one: "process_one D st w now i rt = (y, rt1)" by fastforce
  then have Q1: "Q rt1" using keepsD [OF assms] rt(1) by blast
  have failing: "keeps Q (andthen (isolate_failure w now i e) (\<lambda>j. ret (count_failure (job_status j) oc)))" for e
    by (intro keeps_andthen isolate_kept keeps_ret)
  note D = keepsD [OF failing _ Q1] keepsD [OF tally_kept _ Q1]
  show "Q rt'"
    using rt(2) one Q1 D by (auto simp: process_step_def split: sum.splits exn.splits)
qed

lemma each_kept: "(\<And>i. keeps Q (process_one D st w now i)) \<Longrightarrow> keeps Q (process_each D st w now is oc)"
proof (induction "is" arbitrary: oc)
  case (Cons i "is")
  show ?case unfolding process_each.simps by (intro keeps_andthen step_kept Cons.IH Cons.prems)
qed simp

end

text \<open>Where storing rows keeps it too, so does fetching.\<close>

locale fetch_invariant = owner_invariant Q for Q :: "'q rt \<Rightarrow> bool" +
  fixes L :: "(observation list \<Rightarrow> observation list) \<Rightarrow> bool"
  assumes stores: "(\<And>n. L (other_writers (R :: 'q runner) n)) \<Longrightarrow> keeps Q (in_session (store_rows R j c auth now raws k l))"
begin

lemma store_answer_kept:
  assumes "\<And>n. L (other_writers R n)"
  shows "keeps Q (store_answer R i w g now c auth raws)"
  unfolding store_answer_def
  by (intro keeps_andthen reads fences consumes stores finish_job_kept) (rule assms)

lemma fetch_kept:
  assumes "\<And>rt c. Q rt \<Longrightarrow> Q (snd (call_provider R c rt))" and "\<And>n. L (other_writers R n)"
  shows "keeps Q (fetch_and_store R i w g now c auth)"
proof (rule keepsI)
  fix rt x rt'
  assume rt: "Q rt" "fetch_and_store R i w g now c auth rt = (x, rt')"
  obtain y rt1 where call: "call_provider R c rt = (y, rt1)" by fastforce
  with assms(1) [OF rt(1), of c] have Q1: "Q rt1" by simp
  have failing: "keeps Q (andthen (fail_job i w g err now) (\<lambda>_. outcome_of i 0 0 d))" for err d
    by (intro keeps_andthen fail_job_kept outcome_kept)
  show "Q rt'"
    using rt(2) call keepsD [OF failing _ Q1] keepsD [OF store_answer_kept [OF assms(2)] _ Q1]
    by (auto simp: fetch_and_store_def split: sum.splits)
qed

lemma authorize_kept:
  assumes "\<And>rt c. Q rt \<Longrightarrow> Q (snd (call_provider R c rt))" and "\<And>n. L (other_writers R n)"
  shows "keeps Q (authorize_and_parse R j w now)"
proof -
  have failing: "keeps Q (andthen (fail_job i w g err now) (\<lambda>_. outcome_of i 0 0 d))" for i g err d
    by (intro keeps_andthen fail_job_kept outcome_kept)
  have deferring: "keeps Q (andthen (transition i (defer_for_quota j w g at1 now)) (\<lambda>_. outcome_of i 0 0 d))" for i g at1 d
    by (intro keeps_andthen defers outcome_kept)
  have going: "keeps Q (andthen (transition i (mark_running j w g)) (\<lambda>_. fetch_and_store R i w g now c auth))" for i g c auth
    by (intro keeps_andthen runs fetch_kept assms)
  show ?thesis
  proof (rule keepsI)
    fix rt x rt'
    assume rt: "Q rt" "authorize_and_parse R j w now rt = (x, rt')"
    note D = keepsD [OF failing _ rt(1)] keepsD [OF deferring _ rt(1)] keepsD [OF going _ rt(1)]
    show "Q rt'"
      using rt D by (auto simp: authorize_and_parse_def check_quota_def split: sum.splits exn.splits if_splits)
  qed
qed

end

text \<open>What goes on beside the calls of a deployment's providers keeps it as well.\<close>

definition endures :: "('q rt \<Rightarrow> bool) \<Rightarrow> ((observation list \<Rightarrow> observation list) \<Rightarrow> bool) \<Rightarrow> 'q deployment \<Rightarrow> settings \<Rightarrow> bool" where
  "endures Q L D st \<longleftrightarrow> (\<forall>n. L (rival_rows D n))
     \<and> (\<forall>ports c rt. Q rt \<longrightarrow> Q (snd (call_provider (runner_for D st ports) c rt)))"

text \<open>Where claiming keeps it too, so does processing a batch.\<close>

locale process_invariant = fetch_invariant +
  assumes claims: "keeps Q (claim_pending R j w now)"
    and batches: "keeps Q (claim_batch D st w now n)"
begin

lemma process_kept:
  assumes "\<And>rt c. Q rt \<Longrightarrow> Q (snd (call_provider R c rt))" and "\<And>n. L (other_writers R n)"
  shows "keeps Q (process R i w at1)"
proof -
  have "keeps Q (andthen (the_job i) (\<lambda>j0. andthen (claim_pending R j0 w now) (\<lambda>j. authorize_and_parse R j w now)))" for now
    by (intro keeps_andthen reads claims authorize_kept assms)
  then show ?thesis by (auto simp: process_def [abs_def] Let_def keeps_def)
qed

lemma process_one_kept: "endures Q L D st \<Longrightarrow> keeps Q (process_one D st w now i)"
proof -
  assume "endures Q L D st"
  then have "keeps Q (process (runner_for D st ports) i w (Some now))" for ports
    by (intro process_kept) (auto simp: endures_def runner_for_def)
  then show ?thesis
    unfolding process_one_def by (intro keeps_andthen reads) (simp split: sum.split)
qed

lemma process_each_kept: "endures Q L D st \<Longrightarrow> keeps Q (process_each D st w now is oc)"
  by (rule each_kept) (rule process_one_kept)

lemma claim_and_process_kept: "endures Q L D st \<Longrightarrow> keeps Q (claim_and_process D st w now n)"
  unfolding claim_and_process_def by (intro keeps_andthen batches process_each_kept)

end

section \<open>What the statements keep\<close>

text \<open>What no statement changes in the row of a job: its names and what is to be fetched.\<close>

definition same_names :: "(job \<Rightarrow> job) \<Rightarrow> bool" where
  "same_names f \<longleftrightarrow> (\<forall>q. same_job (f q) q \<and> dedupe_key (f q) = dedupe_key q)"

lemma same_namesI [intro]: "(\<And>q. same_job (f q) q \<and> dedupe_key (f q) = dedupe_key q) \<Longrightarrow> same_names f"
  by (simp add: same_names_def)

lemma same_names_map:
  assumes "same_names f" and "\<And>q r. same_job q r \<Longrightarrow> dedupe_key q = dedupe_key r \<Longrightarrow> g q = g r"
  shows "map g (update_where p f js) = map g js"
  using assms by (intro map_update_where) (auto simp: same_names_def)

locale update_invariant =
  fixes P :: "sess \<Rightarrow> bool"
  assumes job_updates: "P s \<Longrightarrow> same_names f \<Longrightarrow> P (on_jobs (update_where p f) s)"
    and draws: "P s \<Longrightarrow> P (drawn s)"
begin

lemma owned_kept:
  assumes "same_names f"
  shows "keeps P (owned_transition j w g allowed f)"
proof (rule keepsI)
  fix s x t
  assume s: "P s" "owned_transition j w g allowed f s = (x, t)"
  from s(1) assms have "P (on_jobs (update_where (owned j w g allowed) f) s)" by (rule job_updates)
  with s(2) show "P t" by (simp add: owned_transition_def Let_def split: if_splits)
qed

lemma owned_at_clock_kept:
  assumes "\<And>s. m s = owned_transition j w g allowed (f s) s"
    and "\<And>s. same_names (f s)"
  shows "keeps P m"
proof (rule keepsI)
  fix s x t
  assume s: "P s" "m s = (x, t)"
  have "keeps P (owned_transition j w g allowed (f s))" using assms(2) by (rule owned_kept)
  with s show "P t" unfolding assms(1) by (blast dest: keepsD)
qed

lemma mark_running_kept: "keeps P (mark_running j w g)"
  by (rule owned_at_clock_kept, simp add: mark_running_def) (auto simp: same_job_def)

lemma mark_done_kept: "keeps P (mark_done j w g now)"
  unfolding mark_done_def by (rule owned_kept) (auto simp: same_job_def)

lemma mark_failed_kept: "keeps P (mark_failed j w g err now)"
  unfolding mark_failed_def by (rule owned_kept) (auto simp: same_job_def failed_values_def Let_def)

lemma defer_kept: "keeps P (defer_for_quota j w g at1 now)"
  by (rule owned_at_clock_kept, simp add: defer_for_quota_def) (auto simp: same_job_def)

lemma assert_owned_kept: "keeps P (assert_owned j w g)"
  by (rule keepsI) (simp add: assert_owned_def split: option.splits)

end

sublocale update_invariant \<subseteq> run: owner_invariant "\<lambda>rt :: 'q rt. P (rt_sess rt)"
  by unfold_locales
    (intro keeps_the_job keeps_consume keeps_in_session keeps_transition assert_owned_kept mark_running_kept mark_done_kept
      mark_failed_kept defer_kept; assumption)+

text \<open>A claim is committed at once.\<close>

locale claim_invariant = update_invariant +
  assumes commits: "P s \<Longrightarrow> P (commit s)"
begin

lemma claim_attempt_kept: "keeps P (claim_attempt i w now)"
proof (rule keepsI)
  fix s x t
  assume s: "P s" "claim_attempt i w now s = (x, t)"
  have "P (on_jobs (update_where (claimable i) (claimed_row w now (utcnow s))) s)"
    using s(1) by (rule job_updates) (auto simp: claimed_row_def same_job_def)
  with s(2) commits show "P t" by (auto simp: claim_attempt_def Let_def)
qed

lemma try_claim_kept: "keeps P (try_claim_one lk i w now)"
  unfolding try_claim_one_def by (intro keeps_retry keeps_when_locked claim_attempt_kept)

lemma claim_job_kept: "keeps P (claim_job lk j w now)"
  unfolding claim_job_def by (rule keeps_andthen [OF try_claim_kept]) (simp split: option.split)

lemma sweep_kept:
  assumes "\<And>s. m s = (n s, commit (on_jobs (update_where p f) s))"
    and "same_names f"
  shows "keeps P m"
proof (rule keepsI)
  fix s x t
  assume s: "P s" "m s = (x, t)"
  from s(1) assms(2) have "P (on_jobs (update_where p f) s)" by (rule job_updates)
  then have "P (commit (on_jobs (update_where p f) s))" by (rule commits)
  with s(2) show "P t" by (simp add: assms(1))
qed

lemma recover_kept: "keeps P (recover_expired now lease)"
  by (rule sweep_kept [OF recover_expired_def]) (auto simp: recovered_def same_job_def)

lemma promote_kept: "keeps P (promote_due_waiting now)"
  by (rule sweep_kept [OF promote_due_waiting_def]) (auto simp: promoted_def same_job_def)

lemma claim_each_kept: "keeps P (claim_each lk w now limit ids claimed)"
proof (induction ids arbitrary: claimed)
  case (Cons i ids)
  show ?case
  proof (rule keepsI)
    fix s x t
    assume s: "P s" "claim_each lk w now limit (i # ids) claimed s = (x, t)"
    obtain y u where u: "try_claim_one lk i w now s = (y, u)" by fastforce
    with s(1) have Pu: "P u" using keepsD [OF try_claim_kept] by blast
    have rest: "claim_each lk w now limit ids cs u = (x, t) \<Longrightarrow> P t" for cs
      using keepsD [OF Cons.IH] Pu by blast
    from s u Pu rest show "P t" by (auto split: if_splits sum.splits option.splits)
  qed
qed (simp add: keeps_def)

lemma claim_next_kept: "keeps P (claim_next lk w now source limit lease)"
  unfolding claim_next_def
  by (intro keeps_andthen recover_kept promote_kept keeps_retry keeps_when_locked claim_each_kept) (simp add: keeps_def)

lemma claim_pending_kept: "keeps_run P (claim_pending R j w now)"
proof -
  have "keeps_run P (\<lambda>rt. (Inr c, rt\<lparr>rt_loaded := (rt_loaded rt)(job_id c \<mapsto> c)\<rparr>))" for c :: job
    by (simp add: keeps_def)
  then show ?thesis
    unfolding claim_pending_def by (intro keeps_if keeps_andthen keeps_in_session claim_job_kept keeps_ret)
qed

lemma claim_batch_kept: "keeps_run P (claim_batch D st w now n)"
  unfolding claim_batch_def
  by (intro keeps_andthen keeps_in_session claim_next_kept) (simp add: keeps_def)

end

locale queue_invariant = update_invariant +
  assumes job_inserts: "P s \<Longrightarrow> insert_job j s = Some t \<Longrightarrow> P t"
begin

lemma enqueue_kept: "keeps P (enqueue_idempotent q)"
  using job_inserts [OF draws]
  by (auto simp: enqueue_idempotent_def intro!: keepsI draws split: option.splits)

lemma enqueue_waiting_kept: "keeps P (enqueue_waiting q)"
proof -
  have "P (await_publication j s)" if "P s" for j s
    unfolding await_publication_def using that by (rule job_updates) (auto simp: same_job_def)
  then have "keeps P (\<lambda>s. if er_created r then (Inr (r\<lparr>er_job := j\<rparr>), await_publication (er_job r) s) else (Inr r, s))" for r j
    by (simp add: keeps_def)
  then show ?thesis unfolding enqueue_waiting_def by (intro keeps_andthen enqueue_kept)
qed

lemma enqueue_all_kept: "keeps P (enqueue_all qs)"
proof (induction qs)
  case (Cons q qs)
  show ?case unfolding enqueue_all.simps by (intro keeps_andthen enqueue_kept Cons.IH keeps_ret)
qed (simp add: keeps_def)

lemma plan_and_enqueue_kept: "keeps P (plan_and_enqueue cal d)"
proof -
  have "keeps P (enqueue_if_waiting d ws)" for ws
    unfolding enqueue_if_waiting_def by (intro keeps_if keeps_andthen enqueue_waiting_kept keeps_ret)
  then have "keeps P (dispatch_plan d p)" for p
    unfolding dispatch_plan_def by (intro keeps_andthen enqueue_all_kept keeps_ret)
  then show ?thesis by (simp add: plan_and_enqueue_def split: sum.split)
qed

lemma dispatch_identity_kept: "keeps P (dispatch_identity D st limits now source x l)"
  using keepsD [OF plan_and_enqueue_kept]
  by (auto simp: dispatch_identity_def intro!: keepsI split: sum.splits)

lemma refresh_identities_kept:
  "P s \<Longrightarrow> refresh_identities D st limits now source xs oc s = (oc', t) \<Longrightarrow> P t"
proof (induction xs arbitrary: oc s)
  case (Cons x xs)
  show ?case
  proof (cases "get_listing (xid_listing_id x) s")
    case None
    with Cons show ?thesis by (simp add: Let_def)
  next
    case (Some l)
    obtain y u where u: "dispatch_identity D st limits now source x l s = (y, u)" by fastforce
    with Cons.prems(1) have "P u" using keepsD [OF dispatch_identity_kept] by blast
    with Cons.IH Cons.prems(2) Some u show ?thesis by (cases y) (simp_all add: Let_def)
  qed
qed simp

lemma refresh_kept: "keeps P (refresh_and_dispatch D st limits n now)"
proof -
  have "P s \<Longrightarrow> refresh_sources D st limits n now sources oc s = (x, t) \<Longrightarrow> P t" for sources oc s x t
  proof (induction sources arbitrary: oc s)
    case (Cons source rest)
    show ?case
    proof (cases "ports_of D source")
      case (Inl e)
      with Cons show ?thesis by simp
    next
      case (Inr ports)
      obtain oc1 u where u: "refresh_identities D st limits now source
          (considered source (date_of now) n (identities (work s))) oc s = (oc1, u)" by fastforce
      with Cons.prems(1) have "P u" by (rule refresh_identities_kept)
      with Cons.IH Cons.prems u Inr show ?thesis by (auto split: option.splits)
    qed
  qed simp
  then show ?thesis unfolding refresh_and_dispatch_def keeps_def by blast
qed

end

text \<open>\<open>L\<close> says of the rows that another session adds what the predicate needs of them.\<close>

locale row_invariant = update_invariant +
  fixes L :: "(observation list \<Rightarrow> observation list) \<Rightarrow> bool"
  assumes row_inserts: "P s \<Longrightarrow> insert_observation ob s = Some t \<Longrightarrow> P t"
    and rival_commits: "P s \<Longrightarrow> L h \<Longrightarrow> P (commit_elsewhere h s)"
begin

lemma record_attempts_kept:
  assumes "\<And>n. L (rivals n)"
  shows "keeps P (record_attempts col rivals n d)"
proof (induction n)
  case (Suc n)
  show ?case
  proof (rule keepsI)
    fix s x t
    assume s: "P s" "record_attempts col rivals (Suc n) d s = (x, t)"
    show "P t"
    proof (cases "duplicate_of s d")
      case (Some c)
      with s show ?thesis by (simp add: record_attempts.simps(2))
    next
      case None
      let ?s' = "commit_elsewhere (rivals n) (drawn s)" and ?c = "candidate col d (next_revision s d) s"
      have P': "P ?s'" using s(1) assms by (intro rival_commits draws)
      show ?thesis
      proof (cases "insert_observation ?c ?s'")
        case no: None
        with None s(2) have "record_attempts col rivals n d ?s' = (x, t)" by (simp add: record_attempts.simps(2) Let_def)
        with P' show ?thesis using keepsD [OF Suc.IH] by blast
      next
        case (Some u)
        with None s(2) have "u = t" by (simp add: record_attempts.simps(2) Let_def)
        with P' Some row_inserts show ?thesis by blast
      qed
    qed
  qed
qed (simp add: keeps_def)

lemma store_rows_kept:
  assumes rivals: "\<And>n. L (other_writers R n)"
  shows "keeps P (store_rows R j c auth now raws m n)"
proof (induction raws arbitrary: m n)
  case (Cons raw raws)
  show ?case
  proof (rule keepsI)
    fix s x t
    assume s: "P s" "store_rows R j c auth now (raw # raws) m n s = (x, t)"
    have rest: "store_rows R j c auth now raws m' n' u = (x, t) \<Longrightarrow> P u \<Longrightarrow> P t" for m' n' u
      using keepsD [OF Cons.IH] by blast
    have recorded: "record_observation (column R) (other_writers R) d s = (y, u) \<Longrightarrow> P u" for d y u
      unfolding record_observation_def using keepsD [OF record_attempts_kept [where rivals = "other_writers R", OF rivals]] s(1) by blast
    show "P t"
    proof (rule validate_cases [of raw "cur_external_listing_id c" "cur_start c" "cur_end c"])
      assume v: "validate_raw_observation raw (cur_external_listing_id c) (cur_start c) (cur_end c) = Inr ()"
      show ?thesis
      proof (cases "job_listing_id j")
        case None
        with v s show ?thesis by (simp add: store_rows.simps(2))
      next
        case (Some l)
        obtain y u where u: "record_observation (column R) (other_writers R) (row_input j l c auth now raw) s = (y, u)" by fastforce
        then have Pu: "P u" by (rule recorded)
        note step = s(2) [unfolded store_rows_valid [OF v Some] u]
        show ?thesis
        proof (cases y)
          case (Inl e)
          with step Pu show ?thesis by simp
        next
          case (Inr out)
          with step have "store_rows R j c auth now raws (if ro_created out then m + 1 else m) n u = (x, t)" by simp
          then show ?thesis using Pu by (rule rest)
        qed
      qed
    next
      fix e assume "validate_raw_observation raw (cur_external_listing_id c) (cur_start c) (cur_end c)
        = Inl (MalformedObservationError e)"
      with s(2) rest [OF _ s(1)] show ?thesis by (simp add: store_rows_malformed)
    next
      assume "validate_raw_observation raw (cur_external_listing_id c) (cur_start c) (cur_end c) = Inl InvalidOperation"
      with s show ?thesis by (simp add: store_rows_crash)
    qed
  qed
qed (simp add: keeps_def)

end

sublocale row_invariant \<subseteq> run: fetch_invariant "\<lambda>rt :: 'q rt. P (rt_sess rt)" L
  by unfold_locales (intro keeps_in_session store_rows_kept; assumption)

locale batch_invariant = row_invariant + claim_invariant

sublocale batch_invariant \<subseteq> run: process_invariant "\<lambda>rt :: 'q rt. P (rt_sess rt)" L
  by unfold_locales (rule claim_pending_kept claim_batch_kept)+

context batch_invariant
begin

text \<open>A session keeps what the sessions beside it keep.\<close>

lemma endures_beside:
  assumes "\<And>n s. P s \<Longrightarrow> P (concurrently D n s)" and "\<And>n. L (rival_rows D n)"
  shows "endures (\<lambda>rt. P (rt_sess rt)) L D st"
  using assms by (simp add: endures_def call_provider_def runner_for_def)

lemma claim_and_process_kept:
  assumes "\<And>n s. P s \<Longrightarrow> P (concurrently D n s)" and "\<And>n. L (rival_rows D n)"
  shows "keeps_run P (claim_and_process D st w now n)"
  using endures_beside [OF assms] by (rule run.claim_and_process_kept)

end

locale session_invariant = queue_invariant + batch_invariant

section \<open>Tables that a cycle keeps\<close>

definition runs_are :: "scheduler_run list \<Rightarrow> sess \<Rightarrow> bool" where
  "runs_are rs s \<longleftrightarrow> runs (work s) = rs \<and> runs (durable s) = rs"

definition job_names :: "database \<Rightarrow> (uuid \<times> string) set" where
  "job_names db = (\<lambda>j. (job_id j, dedupe_key j)) ` set (jobs db)"

definition jobs_present :: "(uuid \<times> string) set \<Rightarrow> sess \<Rightarrow> bool" where
  "jobs_present names s \<longleftrightarrow> names \<subseteq> job_names (work s) \<and> names \<subseteq> job_names (durable s)"

definition identities_are :: "external_identity list \<Rightarrow> sess \<Rightarrow> bool" where
  "identities_are xs s \<longleftrightarrow> identities (work s) = xs \<and> identities (durable s) = xs"

lemma elsewhere_tables [simp]:
  "runs (work (commit_elsewhere f s)) = runs (work s)" "runs (durable (commit_elsewhere f s)) = runs (durable s)"
  "identities (work (commit_elsewhere f s)) = identities (work s)"
  "identities (durable (commit_elsewhere f s)) = identities (durable s)"
  "job_names (work (commit_elsewhere f s)) = job_names (work s)"
  "job_names (durable (commit_elsewhere f s)) = job_names (durable s)"
  by (simp_all add: commit_elsewhere_def Let_def job_names_def)

lemma on_tables [simp]:
  "identities (work (on_jobs f s)) = identities (work s)" "identities (work (on_observations g s)) = identities (work s)"
  "job_names (work (on_observations g s)) = job_names (work s)" "identities (work (on_runs k s)) = identities (work s)"
  "job_names (work (on_runs k s)) = job_names (work s)"
  by (simp_all add: on_observations_def on_runs_def job_names_def)

lemma insert_job_tables: "insert_job j s = Some t \<Longrightarrow> t = on_jobs (\<lambda>js. js @ [j]) s"
  by (simp add: insert_job_def split: if_splits)

lemma insert_observation_tables: "insert_observation ob s = Some t \<Longrightarrow> t = on_observations (\<lambda>os. os @ [ob]) s"
  by (simp add: insert_observation_def split: if_splits)

lemmas inserted = insert_job_tables insert_observation_tables

text \<open>Nothing is asked of the rows of other sessions.\<close>

abbreviation anything :: "(observation list \<Rightarrow> observation list) \<Rightarrow> bool" where
  "anything \<equiv> (\<lambda>h. True)"

interpretation run_rows: session_invariant "runs_are rs" anything for rs
  by unfold_locales (auto simp: runs_are_def dest!: inserted)

interpretation identity_rows: session_invariant "identities_are xs" anything for xs
  by unfold_locales (auto simp: identities_are_def dest!: inserted)

lemma names_update:
  assumes "same_names f"
  shows "job_names (work (on_jobs (update_where p f) s)) = job_names (work s)"
proof -
  have "map (\<lambda>j. (job_id j, dedupe_key j)) (update_where p f js) = map (\<lambda>j. (job_id j, dedupe_key j)) js" for js
    using assms by (rule same_names_map) (simp add: same_job_def)
  then show ?thesis by (simp add: job_names_def) (metis list.set_map)
qed

interpretation job_rows: session_invariant "jobs_present names" anything for names
proof
  fix s p and f :: "job \<Rightarrow> job"
  assume "jobs_present names s" "same_names f"
  then show "jobs_present names (on_jobs (update_where p f) s)"
    using names_update [of f p s] by (simp add: jobs_present_def)
next
  fix s j t
  assume "jobs_present names s" "insert_job j s = Some t"
  then show "jobs_present names t"
    using inserted(1) [of j s t] by (auto simp: jobs_present_def job_names_def)
qed (auto simp: jobs_present_def dest!: inserted)

text \<open>The tables that dispatching only reads, with the source of the identifiers.\<close>

definition same_tables :: "sess \<Rightarrow> sess \<Rightarrow> bool" where
  "same_tables s t \<longleftrightarrow> observations (work t) = observations (work s) \<and> listings (work t) = listings (work s)
     \<and> instruments (work t) = instruments (work s) \<and> identities (work t) = identities (work s)
     \<and> engine (work t) = engine (work s)"

interpretation dispatch_tables: queue_invariant "same_tables s" for s
  by unfold_locales (auto simp: same_tables_def dest!: inserted)

end
