(* ===== verification/Refresh.thy ===== *)
theory Refresh
  imports Invariants
begin

text \<open>
  What the refresh phase guarantees (\<open>refresh_and_dispatch\<close> of \<open>scheduler_service.py\<close>): a failing
  source is isolated, and refreshing again before anything was stored enqueues nothing.
\<close>

section \<open>A deployment to look at\<close>

text \<open>The fake provider in every registry, and a catalog with one crypto listing.\<close>

definition demo_deployment :: "quota_book deployment" where
  "demo_deployment = \<lparr>adapters = fake_registries () (\<lambda>n ext a b. Returned (fake_fetch_range (\<lambda>seed. 0) ext a b) 0 100)
       fake_sessions_in_range fake_quota,
     routes = calendar_routes, pipe_size = 65536, concurrently = (\<lambda>n s. s), numeric_column = (\<lambda>x. x),
     rival_rows = no_rivals, lock_failures = (\<lambda>i n. False), query_fails = (\<lambda>source s. None)\<rparr>"

definition crypto_listing :: listing where
  "crypto_listing = \<lparr>lst_id = 7, lst_instrument_id = 3, lst_mic = None, lst_venue = ''KRAKEN'', lst_ticker = ''BTC'',
     lst_currency = ''EUR'', lst_created_at = 0, lst_updated_at = 0\<rparr>"

definition crypto_identity :: external_identity where
  "crypto_identity = \<lparr>xid_id = 5, xid_listing_id = 7, xid_source = ''fake'', xid_external_id = ''X'', xid_valid_from = 0,
     xid_valid_to = None, xid_created_at = 0, xid_updated_at = 0\<rparr>"

definition crypto_database :: database where
  "crypto_database = (empty_database SQLITE)\<lparr>
     instruments := [\<lparr>ins_id = 3, asset_class = CRYPTO, ins_name = ''Bitcoin'', ins_isin = None, ins_figi = None,
       ins_created_at = 0, ins_updated_at = 0\<rparr>],
     listings := [crypto_listing], identities := [crypto_identity]\<rparr>"

definition crypto_now :: datetime where
  "crypto_now = 738000 * day_microseconds"

definition one_day :: recovery_limits where
  "one_day = \<lparr>max_lookback_days = 0, max_sessions_per_chunk = 2\<rparr>"

definition crypto_request :: dispatch_request where
  "crypto_request = sample_dispatch\<lparr>dsp_listing_id := 7, dsp_now := crypto_now\<rparr>"

lemma crypto_today [simp]: "date_of crypto_now = 738000"
  by (simp add: date_of_def crypto_now_def day_microseconds_def)

text \<open>What the refresh dispatches there, for any session on that catalog with no observations and no jobs.\<close>

definition on_crypto :: "sess \<Rightarrow> bool" where
  "on_crypto s \<longleftrightarrow> work s = crypto_database \<or> (\<exists>rs. work s = crypto_database\<lparr>runs := rs\<rparr>)"

definition crypto_job :: "sess \<Rightarrow> job" where
  "crypto_job s = new_job (chunk_request crypto_request (hd (chunks sample_plan))) s"

lemma crypto_tables:
  assumes "on_crypto s"
  shows "jobs (work s) = []" "observations (work s) = []" "listings (work s) = [crypto_listing]"
    "identities (work s) = [crypto_identity]" "engine (work s) = SQLITE"
    "map asset_class (instruments (work s)) = [CRYPTO]" "map ins_id (instruments (work s)) = [3]"
  using assms by (auto simp: on_crypto_def crypto_database_def empty_database_def)

lemma crypto_dispatched:
  assumes "on_crypto s"
  shows "dispatch_identity demo_deployment default_settings (Some one_day) crypto_now ''fake'' crypto_identity crypto_listing s
    = (Inr \<lparr>dr_plan = sample_plan, dr_enqueued = [\<lparr>er_job = crypto_job s, er_created = True\<rparr>], dr_waiting_job = None\<rparr>,
       on_jobs (\<lambda>js. js @ [crypto_job s]) (drawn s))"
proof -
  have class1: "asset_class_of crypto_listing s = Inr CRYPTO"
    using assms by (auto simp: asset_class_of_def on_crypto_def crypto_database_def crypto_listing_def)
  have cal: "get_calendar_for_listing (routes demo_deployment) (adapters demo_deployment) (lst_mic crypto_listing)
      (lst_venue crypto_listing) = Inr fake_sessions_in_range"
    by (simp add: get_calendar_for_listing_def demo_deployment_def crypto_listing_def route_keys_def calendar_routes_def
        get_calendar_port_def get_port_def fake_registries_def fake_source_def upper_def)
  have request: "identity_request default_settings (Some one_day) crypto_now ''fake'' crypto_identity crypto_listing CRYPTO s
      = crypto_request"
    using assms by (simp add: identity_request_def crypto_request_def sample_dispatch_def one_day_def crypto_listing_def
        crypto_identity_def default_settings_def default_credential_scope_def observation_type_for_def
        last_completed_session_def crypto_tables select_max_def)
  have plan: "plan fake_sessions_in_range (dsp_limits crypto_request) (dsp_asset_class crypto_request) (dsp_venue crypto_request)
      (dsp_mic crypto_request) (dsp_last_completed crypto_request) (dsp_today crypto_request) = Inr sample_plan"
    using sample_planned by (simp add: crypto_request_def)
  have "plan_and_enqueue fake_sessions_in_range crypto_request s
    = (Inr \<lparr>dr_plan = sample_plan, dr_enqueued = [\<lparr>er_job = crypto_job s, er_created = True\<rparr>], dr_waiting_job = None\<rparr>,
       on_jobs (\<lambda>js. js @ [crypto_job s]) (drawn s))"
    using assms unfolding plan_and_enqueue_def plan
    by (simp add: dispatch_plan_def sample_plan_def andthen_def enqueue_idempotent_def insert_job_def fk_holds_def
        crypto_job_def crypto_tables enqueue_if_waiting_def)
  then show ?thesis unfolding dispatch_identity_def class1 cal by (simp add: request)
qed

lemma crypto_refreshed:
  assumes "on_crypto s"
  shows "refresh_and_dispatch demo_deployment default_settings (Some one_day) 200 crypto_now s
    = (Inr \<lparr>listings_considered = 1, jobs_enqueued = 1, refresh_errors = []\<rparr>, on_jobs (\<lambda>js. js @ [crypto_job s]) (drawn s))"
proof -
  have "ports_of demo_deployment ''fake'' = Inr (\<lambda>n ext a b. Returned (fake_fetch_range (\<lambda>seed. 0) ext a b) 0 100, fake_quota)"
    by (simp add: ports_of_def demo_deployment_def get_historical_price_port_def get_quota_port_def get_port_def
        fake_registries_def fake_source_def)
  moreover have "considered ''fake'' 738000 200 [crypto_identity] = [crypto_identity]"
    by (simp add: considered_def valid_identity_def crypto_identity_def)
  moreover have "get_listing (xid_listing_id crypto_identity) s = Some crypto_listing"
    using assms by (simp add: get_listing_def crypto_tables) (simp add: crypto_identity_def crypto_listing_def)
  moreover have "enabled_sources default_settings = [''fake'']" "query_fails demo_deployment ''fake'' s = None"
    by (simp_all add: default_settings_def demo_deployment_def)
  ultimately show ?thesis
    using crypto_dispatched [OF assms] assms
    by (simp add: refresh_and_dispatch_def Let_def created_count_def crypto_tables no_refresh_def)
qed

section \<open>Isolation\<close>

text \<open>The loops only add to the outcome that they are given.\<close>

definition add_outcome :: "refresh_outcome \<Rightarrow> refresh_outcome \<Rightarrow> refresh_outcome" where
  "add_outcome a b = \<lparr>listings_considered = listings_considered a + listings_considered b,
     jobs_enqueued = jobs_enqueued a + jobs_enqueued b, refresh_errors = refresh_errors a @ refresh_errors b\<rparr>"

lemma add_outcome_steps:
  "(add_outcome a b)\<lparr>listings_considered := listings_considered (add_outcome a b) + 1\<rparr>
     = add_outcome a (b\<lparr>listings_considered := listings_considered b + 1\<rparr>)"
  "note_error source e (add_outcome a b) = add_outcome a (note_error source e b)"
  "(add_outcome a b)\<lparr>jobs_enqueued := jobs_enqueued (add_outcome a b) + k\<rparr>
     = add_outcome a (b\<lparr>jobs_enqueued := jobs_enqueued b + k\<rparr>)"
  by (simp_all add: add_outcome_def note_error_def)

lemma add_no_refresh [simp]: "add_outcome a no_refresh = a"
  by (simp add: add_outcome_def no_refresh_def)

lemma refresh_identities_add:
  "refresh_identities D st limits now source xs (add_outcome a b) s =
     (case refresh_identities D st limits now source xs b s of (oc, t) \<Rightarrow> (add_outcome a oc, t))"
proof (induction xs arbitrary: b s)
  case (Cons x xs)
  show ?case
  proof (cases "get_listing (xid_listing_id x) s")
    case None
    then show ?thesis by (simp only: refresh_identities.simps Let_def add_outcome_steps Cons.IH option.case)
  next
    case (Some l)
    obtain y u where "dispatch_identity D st limits now source x l s = (y, u)" by fastforce
    with Some show ?thesis
      by (cases y)
        (simp_all only: refresh_identities.simps Let_def add_outcome_steps Cons.IH option.case prod.case sum.case)
  qed
qed simp

lemma refresh_sources_add:
  "refresh_sources D st limits n now sources (add_outcome a b) s =
     (case refresh_sources D st limits n now sources b s of
        (Inl e, t) \<Rightarrow> (Inl e, t) | (Inr oc, t) \<Rightarrow> (Inr (add_outcome a oc), t))"
proof (induction sources arbitrary: b s)
  case (Cons source rest)
  show ?case
  proof (cases "ports_of D source")
    case (Inl e)
    then show ?thesis by (simp add: add_outcome_steps Cons.IH)
  next
    case (Inr ports)
    then show ?thesis
      by (simp add: refresh_identities_add Cons.IH split: option.split prod.split)
  qed
qed simp

lemma refresh_sources_append:
  "refresh_sources D st limits n now (xs @ ys) oc =
     andthen (refresh_sources D st limits n now xs oc) (refresh_sources D st limits n now ys)"
proof
  fix s
  show "refresh_sources D st limits n now (xs @ ys) oc s =
     andthen (refresh_sources D st limits n now xs oc) (refresh_sources D st limits n now ys) s"
    by (induction xs arbitrary: oc s) (simp_all add: andthen_def split: sum.split option.split prod.split)
qed

text \<open>The phase reads one setting beside the list of sources.\<close>

lemma refresh_identities_settings:
  assumes "waiting_publication_retry_seconds st = waiting_publication_retry_seconds st'"
  shows "refresh_identities D st limits now source xs oc s = refresh_identities D st' limits now source xs oc s"
proof -
  have request: "identity_request st = identity_request st'"
    using assms by (intro ext) (simp add: identity_request_def)
  have dispatch: "dispatch_identity D st = dispatch_identity D st'"
    by (intro ext) (simp only: dispatch_identity_def request)
  show ?thesis
  proof (induction xs arbitrary: oc s)
    case (Cons x xs)
    show ?case unfolding refresh_identities.simps dispatch Cons.IH ..
  qed simp
qed

lemma refresh_sources_settings:
  assumes "waiting_publication_retry_seconds st = waiting_publication_retry_seconds st'"
  shows "refresh_sources D st limits n now sources oc s = refresh_sources D st' limits n now sources oc s"
proof (induction sources arbitrary: oc s)
  case (Cons source rest)
  show ?case unfolding refresh_sources.simps refresh_identities_settings [OF assms] Cons.IH ..
qed simp

text \<open>
  C25. A failing source is isolated. A source whose adapters are not registered adds its code to the
  errors of the refresh and changes nothing else: the session, the counts and the other errors are
  those of the refresh without it.
\<close>

theorem failing_source_isolated:
  assumes "enabled_sources st = xs @ bad # ys" and "ports_of D bad = Inl e"
    and "without = st\<lparr>enabled_sources := xs @ ys\<rparr>"
  shows "case refresh_and_dispatch D st limits n now s of
      (Inl e', t) \<Rightarrow> refresh_and_dispatch D without limits n now s = (Inl e', t)
    | (Inr oc, t) \<Rightarrow> (\<exists>before after. refresh_errors oc = before @ refresh_error bad e # after
        \<and> refresh_and_dispatch D without limits n now s = (Inr (oc\<lparr>refresh_errors := before @ after\<rparr>), t))"
proof -
  let ?refresh = "refresh_sources D st limits n now"
  have without: "refresh_and_dispatch D without limits n now s = ?refresh (xs @ ys) no_refresh s"
    using refresh_sources_settings [of without st] assms(3) by (simp add: refresh_and_dispatch_def)
  have full: "refresh_and_dispatch D st limits n now s = ?refresh (xs @ bad # ys) no_refresh s"
    by (simp add: refresh_and_dispatch_def assms(1))
  obtain x u where u: "?refresh xs no_refresh s = (x, u)" by fastforce
  show ?thesis
  proof (cases x)
    case (Inl e')
    with u show ?thesis by (simp add: full without refresh_sources_append andthen_def)
  next
    case (Inr oc)
    obtain y t where t: "?refresh ys no_refresh u = (y, t)" by fastforce
    have "?refresh ys oc u = (case y of Inl e \<Rightarrow> (Inl e, t) | Inr o2 \<Rightarrow> (Inr (add_outcome oc o2), t))"
      "?refresh ys (note_error bad e oc) u
        = (case y of Inl e \<Rightarrow> (Inl e, t) | Inr o2 \<Rightarrow> (Inr (add_outcome (note_error bad e oc) o2), t))"
      using refresh_sources_add [of D st limits n now ys oc no_refresh u]
        refresh_sources_add [of D st limits n now ys "note_error bad e oc" no_refresh u] t by simp_all
    with u Inr have "refresh_and_dispatch D without limits n now s
        = (case y of Inl e \<Rightarrow> (Inl e, t) | Inr o2 \<Rightarrow> (Inr (add_outcome oc o2), t))"
      "refresh_and_dispatch D st limits n now s
        = (case y of Inl e \<Rightarrow> (Inl e, t) | Inr o2 \<Rightarrow> (Inr (add_outcome (note_error bad e oc) o2), t))"
      using assms(2) by (simp_all add: full without refresh_sources_append andthen_def)
    then show ?thesis
      by (cases y) (auto simp: add_outcome_def note_error_def)
  qed
qed

theorem failing_source_isolated_witness:
  "\<exists>oc. refresh_and_dispatch demo_deployment (default_settings\<lparr>enabled_sources := [''ghost'', ''fake'']\<rparr>)
       (Some one_day) 200 crypto_now (session_on crypto_database 0)
     = (Inr oc, on_jobs (\<lambda>js. js @ [crypto_job (session_on crypto_database 0)]) (drawn (session_on crypto_database 0)))
     \<and> jobs_enqueued oc = 1 \<and> ''ghost: unknown_source'' \<in> set (refresh_errors oc)"
proof -
  let ?s = "session_on crypto_database 0" and ?st = "default_settings\<lparr>enabled_sources := [''ghost'', ''fake'']\<rparr>"
  have ghost: "ports_of demo_deployment ''ghost'' = Inl (UnknownSourceError ''ghost'' ''historical EOD'')"
    by (simp add: ports_of_def demo_deployment_def get_historical_price_port_def get_port_def fake_registries_def fake_source_def)
  have st: "enabled_sources ?st = [] @ ''ghost'' # [''fake'']" "default_settings = ?st\<lparr>enabled_sources := [] @ [''fake'']\<rparr>"
    by (simp_all add: default_settings_def)
  have without: "refresh_and_dispatch demo_deployment default_settings (Some one_day) 200 crypto_now ?s
      = (Inr \<lparr>listings_considered = 1, jobs_enqueued = 1, refresh_errors = []\<rparr>, on_jobs (\<lambda>js. js @ [crypto_job ?s]) (drawn ?s))"
    by (rule crypto_refreshed) (simp add: on_crypto_def session_on_def)
  from failing_source_isolated [OF st(1) ghost st(2), of "Some one_day" 200 crypto_now ?s]
  obtain oc before after where oc: "refresh_and_dispatch demo_deployment ?st (Some one_day) 200 crypto_now ?s
      = (Inr oc, on_jobs (\<lambda>js. js @ [crypto_job ?s]) (drawn ?s))" "refresh_errors oc = before @ ''ghost: unknown_source'' # after"
    "\<lparr>listings_considered = 1, jobs_enqueued = 1, refresh_errors = []\<rparr> = oc\<lparr>refresh_errors := before @ after\<rparr>"
    unfolding without by (auto simp: refresh_error_def UNKNOWN_SOURCE_def split: prod.splits sum.splits)
  from arg_cong [OF oc(3), of jobs_enqueued] oc(1,2) show ?thesis by simp
qed

section \<open>Refreshing again\<close>

interpretation key_rows: queue_invariant "has_key k" for k
proof
  fix s p and f :: "job \<Rightarrow> job"
  assume "has_key k s" "same_names f"
  then have "map dedupe_key (update_where p f (jobs (work s))) = map dedupe_key (jobs (work s))"
    by (intro same_names_map) simp_all
  with \<open>has_key k s\<close> show "has_key k (on_jobs (update_where p f) s)"
    unfolding has_key_def by (simp only: work_on_jobs(2) list.set_map [symmetric])
qed (auto simp: has_key_def dest!: inserted)

text \<open>Keys are unique, and the identifiers to be drawn are not taken.\<close>

definition fresh_jobs :: "sess \<Rightarrow> bool" where
  "fresh_jobs s \<longleftrightarrow> inj (uuid_supply s)
     \<and> (\<forall>k. uuid_draws s \<le> k \<longrightarrow> uuid_supply s k \<notin> set (map job_id (jobs (work s))))"

definition calm :: "uuid \<Rightarrow> sess \<Rightarrow> bool" where
  "calm l s \<longleftrightarrow> keys_unique s \<and> fresh_jobs s \<and> listing_exists s l"

lemma calm_drawn: "calm l s \<Longrightarrow> calm l (drawn s)"
  by (simp add: calm_def fresh_jobs_def listing_exists_def)

lemma enqueue_calm:
  assumes "calm l s" and "rq_listing_id q = Some l" and "enqueue_idempotent q s = (y, t)"
  shows "calm l t \<and> (\<exists>r. y = Inr r)"
  using assms(3)
proof (cases rule: enqueue_cases)
  case added
  have "uuid_supply s k \<noteq> uuid4 s" if "Suc (uuid_draws s) \<le> k" for k
    using assms(1) that by (auto simp: calm_def fresh_jobs_def uuid4_def dest: injD)
  with added assms(1) show ?thesis
    by (auto simp: calm_def fresh_jobs_def keys_unique_def listing_exists_def on_jobs_def)
next
  case found
  with assms(1) calm_drawn show ?thesis by simp
next
  case refused
  have "uuid4 s \<notin> set (map job_id (jobs (work s)))"
    using assms(1) by (simp add: calm_def fresh_jobs_def uuid4_def)
  then have "\<not> (\<exists>j \<in> set (jobs (work s)). job_id j = uuid4 s \<or> dedupe_key j = rq_dedupe_key q)"
    using refused(3) by (force simp: image_iff)
  then have "insert_job (new_job q s) (drawn s) \<noteq> None"
    using assms(1,2) by (simp add: insert_job_def fk_holds_def calm_def listing_exists_def new_job_def)
  with assms(3) refused(1) show ?thesis by (auto simp: enqueue_idempotent_def)
qed

lemma enqueue_waiting_calm:
  assumes "calm l s" and "rq_listing_id q = Some l" and "enqueue_waiting q s = (y, t)"
  shows "calm l t \<and> (\<exists>r. y = Inr r)"
proof -
  obtain x u where x: "enqueue_idempotent q s = (x, u)" by fastforce
  with enqueue_calm [OF assms(1,2) x] obtain r where r: "calm l u" "x = Inr r" by blast
  have ids: "map job_id (jobs (work (await_publication j u))) = map job_id (jobs (work u))" for j
    by (simp add: await_publication_def map_update_where)
  have "fresh_jobs (await_publication j u) = fresh_jobs u" for j
    unfolding fresh_jobs_def ids by (simp add: await_publication_def)
  then have "calm l (await_publication j u) = calm l u" for j
    by (simp add: calm_def listing_exists_def) (simp add: await_publication_def on_jobs_def)
  with assms(3) x r show ?thesis by (auto simp: enqueue_waiting_def andthen_def split: if_splits)
qed

lemma enqueue_all_calm:
  "calm l s \<Longrightarrow> list_all (\<lambda>q. rq_listing_id q = Some l) qs \<Longrightarrow> enqueue_all qs s = (y, t)
    \<Longrightarrow> calm l t \<and> (\<exists>rs. y = Inr rs)"
proof (induction qs arbitrary: s y t)
  case (Cons q qs)
  obtain x u where x: "enqueue_idempotent q s = (x, u)" by fastforce
  with Cons.prems enqueue_calm [OF _ _ x, of l] obtain r where r: "calm l u" "x = Inr r" by auto
  obtain z v where z: "enqueue_all qs u = (z, v)" by fastforce
  have "list_all (\<lambda>q. rq_listing_id q = Some l) qs" using Cons.prems(2) by simp
  from Cons.IH [OF r(1) this z] obtain rs where "calm l v" "z = Inr rs" by blast
  with Cons.prems(3) x r(2) z show ?case by (auto simp: andthen_def)
qed auto

lemma dispatch_plan_calm:
  assumes "calm (dsp_listing_id d) s" and "dispatch_plan d p s = (y, t)"
  shows "calm (dsp_listing_id d) t \<and> (\<exists>r. y = Inr r)"
proof -
  have "list_all (\<lambda>q. rq_listing_id q = Some (dsp_listing_id d)) (map (chunk_request d) (chunks p))"
    by (simp add: list_all_iff chunk_request_def)
  moreover obtain x u where x: "enqueue_all (map (chunk_request d) (chunks p)) s = (x, u)" by fastforce
  ultimately obtain rs where u: "calm (dsp_listing_id d) u" "x = Inr rs"
    using enqueue_all_calm [OF assms(1) _ x] by blast
  have w: "rq_listing_id (waiting_request d ws) = Some (dsp_listing_id d)" for ws by (simp add: waiting_request_def)
  obtain z v where z: "enqueue_if_waiting d (waiting_for_publication p) u = (z, v)" by fastforce
  then have "calm (dsp_listing_id d) v \<and> (\<exists>r. z = Inr r)"
    using u(1) enqueue_waiting_calm [OF u(1) w]
    by (fastforce simp: enqueue_if_waiting_def andthen_def split: if_splits prod.splits sum.splits)
  with assms(2) x u z show ?thesis by (auto simp: dispatch_plan_def andthen_def)
qed

lemma dispatch_calm:
  assumes "calm (lst_id l) s" and "dispatch_identity D st limits now source x l s = (y, t)"
  shows "calm (lst_id l) t"
proof -
  have "calm (lst_id l) t" if "plan_and_enqueue cal (identity_request st limits now source x l ac s) s = (y, t)" for cal ac
    using that assms(1) dispatch_plan_calm [of "identity_request st limits now source x l ac s" s]
    by (auto simp: plan_and_enqueue_def identity_request_def split: sum.splits)
  with assms show ?thesis by (auto simp: dispatch_identity_def split: sum.splits)
qed

text \<open>A session in which everything that \<open>s\<close> dispatched is still there, and nothing was stored.\<close>

definition later :: "sess \<Rightarrow> sess \<Rightarrow> bool" where
  "later s u \<longleftrightarrow> keys_unique u \<and> same_tables s u \<and> (\<forall>k. has_key k s \<longrightarrow> has_key k u)"

lemma dispatch_again:
  assumes "dispatch_identity D st limits now source x l s = (y, t)" and "calm (lst_id l) s" and "later t u"
    and "date_of now' = date_of now"
  obtains y' v where "dispatch_identity D st limits now' source x l u = (y', v)" "work v = work u" "durable v = durable u"
    "case y of Inl e \<Rightarrow> y' = Inl e \<and> t = s | Inr r \<Rightarrow> \<exists>r'. y' = Inr r' \<and> created_count r' = 0"
proof -
  have st: "same_tables s t" using keepsD [OF dispatch_tables.dispatch_identity_kept assms(1)] by (simp add: same_tables_def)
  with assms(3) have su: "same_tables s u" by (simp add: later_def same_tables_def)
  have klass: "asset_class_of l u = asset_class_of l s" using su by (simp add: asset_class_of_def same_tables_def)
  show ?thesis
  proof (cases "(\<exists>e. asset_class_of l s = Inl e) \<or> (\<exists>e. get_calendar_for_listing (routes D) (adapters D) (lst_mic l) (lst_venue l) = Inl e)")
    case True
    then have "\<exists>e. dispatch_identity D st limits now source x l s = (Inl e, s)
        \<and> dispatch_identity D st limits now' source x l u = (Inl e, u)"
      unfolding dispatch_identity_def klass
      by (cases "asset_class_of l s"; cases "get_calendar_for_listing (routes D) (adapters D) (lst_mic l) (lst_venue l)")
        simp_all
    with assms that show ?thesis by auto
  next
    case False
    then obtain ac cal where ac: "asset_class_of l s = Inr ac"
      "get_calendar_for_listing (routes D) (adapters D) (lst_mic l) (lst_venue l) = Inr cal"
      by (metis sum.exhaust)
    let ?d = "identity_request st limits now source x l ac s"
    let ?e = "identity_request st limits now' source x l ac u"
    have l: "dsp_listing_id ?d = lst_id l" by (simp add: identity_request_def)
    have runs: "dispatch_identity D st limits now source x l s = plan_and_enqueue cal ?d s"
      "dispatch_identity D st limits now' source x l u = plan_and_enqueue cal ?e u"
      using ac by (simp_all add: dispatch_identity_def klass)
    have again: "dsp_limits ?e = dsp_limits ?d" "dsp_asset_class ?e = dsp_asset_class ?d" "dsp_venue ?e = dsp_venue ?d"
      "dsp_mic ?e = dsp_mic ?d" "dsp_last_completed ?e = dsp_last_completed ?d" "dsp_today ?e = dsp_today ?d"
      using su assms(4) by (simp_all add: identity_request_def last_completed_session_def same_tables_def)
    have keys: "plan_keys ?e p = plan_keys ?d p" for p
      by (simp add: plan_keys_def chunk_request_def waiting_request_def identity_request_def)
    show ?thesis
    proof (cases "plan cal (dsp_limits ?d) (dsp_asset_class ?d) (dsp_venue ?d) (dsp_mic ?d) (dsp_last_completed ?d) (dsp_today ?d)")
      case (Inl e)
      then have "plan_and_enqueue cal ?d s = (Inl e, s)" "plan_and_enqueue cal ?e u = (Inl e, u)"
        by (simp_all add: plan_and_enqueue_def again)
      with assms runs that show ?thesis by auto
    next
      case (Inr p)
      then have p: "plan_and_enqueue cal ?d s = dispatch_plan ?d p s" "plan_and_enqueue cal ?e u = dispatch_plan ?e p u"
        by (simp_all add: plan_and_enqueue_def again)
      obtain r where r: "calm (lst_id l) t" "y = Inr r"
        using dispatch_plan_calm [of ?d s p y t] assms(1,2) runs(1) p(1) l by auto
      have unique: "keys_unique s" using assms(2) by (simp add: calm_def)
      have "plan_and_enqueue cal ?d s = (Inr r, t)" using assms(1) runs(1) r(2) by simp
      from dispatch_plan_keys [OF this [unfolded p] unique] assms(3) have "\<forall>k \<in> plan_keys ?e p. has_key k u"
        unfolding keys by (auto simp: later_def)
      from dispatch_plan_present [OF _ this] assms(3) obtain r' v where v: "dispatch_plan ?e p u = (Inr r', v)"
        "list_all (\<lambda>x. \<not> er_created x) (dr_enqueued r')" "\<And>w. dr_waiting_job r' = Some w \<Longrightarrow> \<not> er_created w"
        "work v = work u" "durable v = durable u" by (auto simp: later_def)
      have "filter er_created (dr_enqueued r') = []" using v(2) by (simp add: filter_empty_conv list_all_iff)
      then have "created_count r' = 0"
        using v(3) by (simp add: created_count_def split: option.split)
      then show ?thesis using that [of "Inr r'" v] v r runs p by simp
    qed
  qed
qed

lemma later_frame: "later s u \<Longrightarrow> work v = work u \<Longrightarrow> later s v"
  by (simp add: later_def same_tables_def keys_unique_def has_key_def)

lemma later_back:
  assumes "later t u" and "same_tables s t" and "\<And>k. has_key k s \<Longrightarrow> has_key k t"
  shows "later s u"
  using assms by (auto simp: later_def same_tables_def)

lemma calm_listing:
  "get_listing i s = Some l \<Longrightarrow> keys_unique s \<Longrightarrow> fresh_jobs s \<Longrightarrow> calm (lst_id l) s"
  by (auto simp: calm_def get_listing_def listing_exists_def dest: select_first_SomeD)

lemma refresh_identities_forward:
  "refresh_identities D st limits now source xs oc s = (oc1, t) \<Longrightarrow> keys_unique s \<Longrightarrow> fresh_jobs s \<Longrightarrow>
     keys_unique t \<and> fresh_jobs t \<and> same_tables s t \<and> (\<forall>k. has_key k s \<longrightarrow> has_key k t)"
proof (induction xs arbitrary: oc s)
  case Nil
  then show ?case by (simp add: same_tables_def)
next
  case (Cons x xs)
  show ?case
  proof (cases "get_listing (xid_listing_id x) s")
    case None
    with Cons show ?thesis by (simp add: Let_def)
  next
    case (Some l)
    obtain y s1 where y: "dispatch_identity D st limits now source x l s = (y, s1)" by fastforce
    have "calm (lst_id l) s1" using dispatch_calm [OF calm_listing [OF Some Cons.prems(2,3)] y] .
    then have s1: "keys_unique s1" "fresh_jobs s1" by (simp_all add: calm_def)
    obtain oc2 where "refresh_identities D st limits now source xs oc2 s1 = (oc1, t)"
      using Cons.prems(1) Some y by (cases y) (auto simp: Let_def)
    from Cons.IH [OF this s1] have IH: "keys_unique t" "fresh_jobs t" "same_tables s1 t" "\<And>k. has_key k s1 \<Longrightarrow> has_key k t"
      by blast+
    have "same_tables s s1" using keepsD [OF dispatch_tables.dispatch_identity_kept y] by (simp add: same_tables_def)
    moreover have "has_key k s1" if "has_key k s" for k
      using keepsD [OF key_rows.dispatch_identity_kept y that] .
    ultimately show ?thesis using IH by (auto simp: same_tables_def)
  qed
qed

lemma refresh_identities_again:
  assumes "date_of now' = date_of now"
  shows "refresh_identities D st limits now source xs oc s = (oc1, t) \<Longrightarrow> keys_unique s \<Longrightarrow> fresh_jobs s \<Longrightarrow> later t u \<Longrightarrow>
     \<exists>errs v. refresh_errors oc1 = refresh_errors oc @ errs
       \<and> refresh_identities D st limits now' source xs oc' u
           = (oc'\<lparr>listings_considered := listings_considered oc' + length xs, refresh_errors := refresh_errors oc' @ errs\<rparr>, v)
       \<and> work v = work u \<and> durable v = durable u"
proof (induction xs arbitrary: oc oc' s u)
  case (Cons x xs)
  let ?inc = "\<lambda>oc. oc\<lparr>listings_considered := listings_considered oc + 1\<rparr>"
  note fwd = refresh_identities_forward [OF Cons.prems(1-3)]
  then have su: "later s u" using later_back [OF Cons.prems(4)] by blast
  then have listing: "get_listing i u = get_listing i s" for i by (simp add: get_listing_def later_def same_tables_def)
  show ?case
  proof (cases "get_listing (xid_listing_id x) s")
    case None
    with Cons.prems(1) have run: "refresh_identities D st limits now source xs (?inc oc) s = (oc1, t)" by (simp add: Let_def)
    from Cons.IH [OF this Cons.prems(2-4), of "?inc oc'"] None listing show ?thesis by (simp add: Let_def)
  next
    case (Some l)
    obtain y s1 where y: "dispatch_identity D st limits now source x l s = (y, s1)" by fastforce
    have calm: "calm (lst_id l) s" using calm_listing [OF Some Cons.prems(2,3)] .
    then have s1: "keys_unique s1" "fresh_jobs s1" using dispatch_calm [OF _ y] by (simp_all add: calm_def)
    define oc2 where "oc2 = (case y of Inl e \<Rightarrow> note_error source e (?inc oc)
        | Inr r \<Rightarrow> (?inc oc)\<lparr>jobs_enqueued := jobs_enqueued (?inc oc) + created_count r\<rparr>)"
    have run: "refresh_identities D st limits now source xs oc2 s1 = (oc1, t)"
      using Cons.prems(1) Some y unfolding oc2_def by (cases y) (simp_all add: Let_def)
    have "later s1 u"
      using refresh_identities_forward [OF run s1] later_back [OF Cons.prems(4)] by blast
    from dispatch_again [OF y calm this assms] obtain y' u1 where u1:
      "dispatch_identity D st limits now' source x l u = (y', u1)" "work u1 = work u" "durable u1 = durable u"
      "case y of Inl e \<Rightarrow> y' = Inl e \<and> s1 = s | Inr r \<Rightarrow> \<exists>r'. y' = Inr r' \<and> created_count r' = 0" by blast
    define oc3 where "oc3 = (case y of Inl e \<Rightarrow> note_error source e (?inc oc') | Inr r \<Rightarrow> ?inc oc')"
    have "later t u1" using Cons.prems(4) u1(2) by (rule later_frame)
    from Cons.IH [OF run s1 this, of oc3] obtain errs v where v: "refresh_errors oc1 = refresh_errors oc2 @ errs"
      "refresh_identities D st limits now' source xs oc3 u1
         = (oc3\<lparr>listings_considered := listings_considered oc3 + length xs, refresh_errors := refresh_errors oc3 @ errs\<rparr>, v)"
      "work v = work u1" "durable v = durable u1" by blast
    have step: "refresh_identities D st limits now' source (x # xs) oc' u = refresh_identities D st limits now' source xs oc3 u1"
      using Some listing u1(1,4) unfolding oc3_def by (cases y) (auto simp: Let_def)
    show ?thesis
      unfolding step v(2) using v(1,3,4) u1(2,3)
      by (cases y) (simp_all add: oc2_def oc3_def note_error_def)
  qed
qed simp

lemma refresh_sources_forward:
  "refresh_sources D st limits n now sources oc s = (x, t) \<Longrightarrow> keys_unique s \<Longrightarrow> fresh_jobs s \<Longrightarrow>
     keys_unique t \<and> fresh_jobs t \<and> same_tables s t \<and> (\<forall>k. has_key k s \<longrightarrow> has_key k t)"
proof (induction sources arbitrary: oc s)
  case Nil
  then show ?case by (simp add: same_tables_def)
next
  case (Cons source rest)
  show ?case
  proof (cases "(\<exists>e. ports_of D source = Inl e) \<or> query_fails D source s \<noteq> None")
    case True
    with Cons show ?thesis by (auto simp: same_tables_def split: sum.splits)
  next
    case False
    obtain oc1 s1 where s1: "refresh_identities D st limits now source
        (considered source (date_of now) n (identities (work s))) oc s = (oc1, s1)" by fastforce
    with False Cons.prems(1) have run: "refresh_sources D st limits n now rest oc1 s1 = (x, t)"
      by (auto split: sum.splits)
    note 1 = refresh_identities_forward [OF s1 Cons.prems(2,3)]
    with Cons.IH [OF run] have "keys_unique t" "fresh_jobs t" "same_tables s1 t" "\<forall>k. has_key k s1 \<longrightarrow> has_key k t" by auto
    with 1 show ?thesis by (auto simp: same_tables_def)
  qed
qed

lemma refresh_sources_again:
  assumes "\<And>source s. query_fails D source s = None" and "date_of now' = date_of now"
  shows "refresh_sources D st limits n now sources oc s = (Inr oc1, t) \<Longrightarrow> keys_unique s \<Longrightarrow> fresh_jobs s \<Longrightarrow> later t u \<Longrightarrow>
     \<exists>k errs v. refresh_errors oc1 = refresh_errors oc @ errs
       \<and> refresh_sources D st limits n now' sources oc' u
           = (Inr (oc'\<lparr>listings_considered := listings_considered oc' + k, refresh_errors := refresh_errors oc' @ errs\<rparr>), v)
       \<and> work v = work u \<and> durable v = durable u"
proof (induction sources arbitrary: oc oc' s u)
  case Nil
  then show ?case by (auto intro!: exI [of _ 0])
next
  case (Cons source rest)
  show ?case
  proof (cases "ports_of D source")
    case (Inl e)
    with Cons.prems(1) have "refresh_sources D st limits n now rest (note_error source e oc) s = (Inr oc1, t)" by simp
    from Cons.IH [OF this Cons.prems(2-4), of "note_error source e oc'"] Inl show ?thesis
      by (auto simp: note_error_def)
  next
    case (Inr ports)
    let ?xs = "considered source (date_of now) n (identities (work s))"
    obtain oc2 s1 where s1: "refresh_identities D st limits now source ?xs oc s = (oc2, s1)" by fastforce
    have run: "refresh_sources D st limits n now rest oc2 s1 = (Inr oc1, t)" using Cons.prems(1) Inr s1 assms by simp
    note 1 = refresh_identities_forward [OF s1 Cons.prems(2,3)]
    then have k1: "keys_unique s1" "fresh_jobs s1" by simp_all
    note 2 = refresh_sources_forward [OF run k1]
    have "later s1 u" using later_back [OF Cons.prems(4)] 2 by blast
    from refresh_identities_again [OF assms(2) s1 Cons.prems(2,3) this, of oc'] obtain errs u1 where
      u1: "refresh_errors oc2 = refresh_errors oc @ errs"
        "refresh_identities D st limits now' source ?xs oc' u = (oc'\<lparr>listings_considered := listings_considered oc' + length ?xs,
           refresh_errors := refresh_errors oc' @ errs\<rparr>, u1)" "work u1 = work u" "durable u1 = durable u" by blast
    have same: "identities (work u) = identities (work s)"
      using \<open>later s1 u\<close> 1 by (simp add: later_def same_tables_def)
    have "later t u1" using Cons.prems(4) u1(3) by (rule later_frame)
    from Cons.IH [OF run k1 this, of "oc'\<lparr>listings_considered := listings_considered oc' + length ?xs,
           refresh_errors := refresh_errors oc' @ errs\<rparr>"] u1 Inr assms same
    show ?thesis by (auto simp: add.assoc)
  qed
qed

text \<open>
  C18. Refreshing again is harmless. A refresh on the same day that follows one which returned, with
  no observation stored and the catalog unchanged in between, whatever became of the jobs, enqueues
  nothing, changes neither the session's nor the committed tables, and reports the same errors.
\<close>

theorem refresh_is_idempotent:
  assumes "refresh_and_dispatch D st limits n now s = (Inr oc, t)" and "keys_unique s" and "fresh_jobs s"
    and "query_fails D = (\<lambda>source s. None)" and "same_tables t u" and "keys_unique u"
    and "dedupe_key ` set (jobs (work t)) \<subseteq> dedupe_key ` set (jobs (work u))"
    and "date_of now' = date_of now"
  shows "\<exists>oc' v. refresh_and_dispatch D st limits n now' u = (Inr oc', v) \<and> jobs_enqueued oc' = 0
    \<and> refresh_errors oc' = refresh_errors oc \<and> work v = work u \<and> durable v = durable u"
proof -
  have "later t u" using assms(5-7) by (auto simp: later_def has_key_def)
  with refresh_sources_again [of D now' now st limits n "enabled_sources st" no_refresh s oc t u no_refresh] assms(1-4,8)
  show ?thesis by (auto simp: refresh_and_dispatch_def no_refresh_def)
qed

theorem refresh_is_idempotent_witness:
  "\<exists>oc v. refresh_and_dispatch demo_deployment default_settings (Some one_day) 200 (crypto_now + 1000000)
       (on_jobs (\<lambda>js. js @ [crypto_job (session_on crypto_database 0)]) (drawn (session_on crypto_database 0))) = (Inr oc, v)
     \<and> jobs_enqueued oc = 0"
proof -
  let ?s = "session_on crypto_database 0"
  have s: "on_crypto ?s" by (simp add: on_crypto_def session_on_def)
  have "keys_unique ?s" "fresh_jobs ?s"
    using crypto_tables [OF s] by (simp_all add: keys_unique_def fresh_jobs_def) (simp add: session_on_def inj_def)
  moreover have "query_fails demo_deployment = (\<lambda>source s. None)" by (simp add: demo_deployment_def)
  moreover have "keys_unique (on_jobs (\<lambda>js. js @ [crypto_job ?s]) (drawn ?s))"
    using crypto_tables [OF s] by (simp add: keys_unique_def)
  moreover have "date_of (crypto_now + 1000000) = date_of crypto_now"
    by (simp add: date_of_def crypto_now_def day_microseconds_def)
  ultimately show ?thesis
    using refresh_is_idempotent [OF crypto_refreshed [OF s], of "on_jobs (\<lambda>js. js @ [crypto_job ?s]) (drawn ?s)" "crypto_now + 1000000"]
    by (auto simp: same_tables_def)
qed

end
