(* ===== verification/Ingestion.thy ===== *)
theory Ingestion
  imports Runner
begin

text \<open>
  What processing a job guarantees (\<open>domain/ingestion/runner.py\<close>): the provider is called only with an
  approved policy and quota left, what is stored is what the validation accepted and the approved
  decisions cover, a worker that lost its claim stores nothing, and each end of a job is the one its
  outcome reports.
\<close>

section \<open>The end of a job\<close>

text \<open>A transition of the owner that succeeds, and the outcome that is read after it.\<close>

lemma settle:
  assumes "distinct (map job_id (jobs (work (rt_sess rt))))" and "r \<in> set (jobs (work (rt_sess rt)))"
    and "owned j w g allowed r" and "\<And>q. job_id (values q) = job_id q"
  shows "transition (job_id j) (owned_transition j w g allowed values) rt
    = (Inr (), rt\<lparr>rt_sess := on_jobs (update_where (\<lambda>q. q = r) values) (rt_sess rt),
         rt_loaded := (rt_loaded rt)(job_id j := None)\<rparr>)"
proof -
  obtain x s where m: "owned_transition j w g allowed values (rt_sess rt) = (x, s)" by fastforce
  from m assms(1) show ?thesis
  proof (cases rule: owned_transition_cases)
    case (won q)
    have "q = r" using won(2,3) assms(1,2,3) by (metis distinct_map_inj owned_key)
    with won m show ?thesis by (simp add: transition_def)
  next
    case stale
    with assms(2,3) show ?thesis by blast
  qed
qed

lemma outcome_settled:
  assumes "distinct (map job_id (jobs (work s)))" and "r \<in> set (jobs (work s))"
    and "\<And>q. job_id (values q) = job_id q" and "rt_sess rt = on_jobs (update_where (\<lambda>q. q = r) values) s"
    and "rt_loaded rt (job_id r) = None"
  shows "outcome_of (job_id r) m n d rt
    = (Inr \<lparr>jo_status = job_status (values r), observations_recorded = m, observations_rejected = n, detail = d\<rparr>,
       rt\<lparr>rt_loaded := (rt_loaded rt)(job_id r \<mapsto> values r)\<rparr>)"
proof -
  have "distinct (map job_id (update_where (\<lambda>q. q = r) values (jobs (work s))))"
    using assms(1,3) by (simp add: map_update_where)
  moreover have "values r \<in> set (update_where (\<lambda>q. q = r) values (jobs (work s)))"
    using assms(2) by (simp add: in_update_where_image)
  ultimately have "select_first (\<lambda>q. job_id q = job_id r) (update_where (\<lambda>q. q = r) values (jobs (work s))) = Some (values r)"
    using select_first_key [of job_id _ "values r"] assms(3) by simp
  with assms(4,5) show ?thesis by (simp add: outcome_of_def the_job_def andthen_def)
qed

lemma stale_transition:
  assumes "distinct (map job_id (jobs (work (rt_sess rt))))"
    and "\<And>r. r \<in> set (jobs (work (rt_sess rt))) \<Longrightarrow> \<not> owned j w g allowed r"
  shows "transition i (owned_transition j w g allowed values) rt
    = (Inl (StaleJobClaimError (job_id j)), rt\<lparr>rt_loaded := (\<lambda>k. None)\<rparr>)"
proof -
  obtain x s where m: "owned_transition j w g allowed values (rt_sess rt) = (x, s)" by fastforce
  from m assms(1) show ?thesis
  proof (cases rule: owned_transition_cases)
    case (won r)
    with assms(2) show ?thesis by blast
  next
    case stale
    with m show ?thesis by (simp add: transition_def)
  qed
qed

text \<open>The object of a job shows the row \<open>q\<close> of the table.\<close>

definition shows_row :: "'q rt \<Rightarrow> job \<Rightarrow> bool" where
  "shows_row rt q \<longleftrightarrow> distinct (map job_id (jobs (work (rt_sess rt)))) \<and> q \<in> set (jobs (work (rt_sess rt)))
     \<and> (rt_loaded rt (job_id q) = None \<or> rt_loaded rt (job_id q) = Some q)"

lemma the_job_shown:
  "shows_row rt q \<Longrightarrow> the_job (job_id q) rt = (Inr q, rt\<lparr>rt_loaded := (rt_loaded rt)(job_id q \<mapsto> q)\<rparr>)"
  using select_first_key [of job_id "jobs (work (rt_sess rt))" q]
  by (auto simp: shows_row_def the_job_def fun_upd_idem)

lemma shows_row_cong:
  "shows_row rt q \<Longrightarrow> jobs (work (rt_sess rt')) = jobs (work (rt_sess rt))
    \<Longrightarrow> rt_loaded rt' (job_id q) \<in> {rt_loaded rt (job_id q), Some q} \<Longrightarrow> shows_row rt' q"
  by (auto simp: shows_row_def)

text \<open>The row after a transition of its owner to \<open>values\<close>, with the outcome that is reported.\<close>

lemma transition_outcome:
  assumes "shows_row rt q" and "owned q w g allowed q" and "\<And>x. job_id (values x) = job_id x"
    and "i = job_id q"
  shows "andthen (transition i (owned_transition q w g allowed values)) (\<lambda>_. outcome_of i m n d) rt
    = (Inr \<lparr>jo_status = job_status (values q), observations_recorded = m, observations_rejected = n, detail = d\<rparr>,
       rt\<lparr>rt_sess := on_jobs (update_where (\<lambda>x. x = q) values) (rt_sess rt),
          rt_loaded := (rt_loaded rt)(job_id q \<mapsto> values q)\<rparr>)"
proof -
  let ?rt1 = "rt\<lparr>rt_sess := on_jobs (update_where (\<lambda>x. x = q) values) (rt_sess rt),
      rt_loaded := (rt_loaded rt)(job_id q := None)\<rparr>"
  have q: "distinct (map job_id (jobs (work (rt_sess rt))))" "q \<in> set (jobs (work (rt_sess rt)))"
    using assms(1) by (simp_all add: shows_row_def)
  have "transition (job_id q) (owned_transition q w g allowed values) rt = (Inr (), ?rt1)"
    by (rule settle [OF q assms(2,3)])
  moreover have "outcome_of (job_id q) m n d ?rt1
      = (Inr \<lparr>jo_status = job_status (values q), observations_recorded = m, observations_rejected = n, detail = d\<rparr>,
         ?rt1\<lparr>rt_loaded := (rt_loaded ?rt1)(job_id q \<mapsto> values q)\<rparr>)"
    by (rule outcome_settled [OF q assms(3)]) simp_all
  ultimately show ?thesis by (simp add: andthen_def assms(4))
qed

lemma fail_outcome:
  assumes "shows_row rt q" and "owned q w g [CLAIMED, RUNNING] q" and "i = job_id q"
  shows "andthen (fail_job i w g err now) (\<lambda>_. outcome_of i m n d) rt
    = (Inr \<lparr>jo_status = (if max_attempts q \<le> attempt_count q + 1 then FAILED else PENDING),
         observations_recorded = m, observations_rejected = n, detail = d\<rparr>,
       rt\<lparr>rt_sess := on_jobs (update_where (\<lambda>x. x = q) (failed_values q err now)) (rt_sess rt),
          rt_loaded := (rt_loaded rt)(job_id q \<mapsto> failed_values q err now q)\<rparr>)"
proof -
  let ?rt0 = "rt\<lparr>rt_loaded := (rt_loaded rt)(job_id q \<mapsto> q)\<rparr>"
  have "shows_row ?rt0 q" using assms(1) by (rule shows_row_cong) simp_all
  from transition_outcome [OF this assms(2), of "failed_values q err now" i m n d] assms(3)
  show ?thesis by (simp add: fail_job_def andthen_assoc andthen_def the_job_shown [OF assms(1)] mark_failed_def)
qed

lemma done_outcome:
  assumes "shows_row rt q" and "owned q w g [RUNNING] q" and "i = job_id q"
  shows "andthen (andthen (the_job i) (\<lambda>j. transition i (mark_done j w g now))) (\<lambda>_. outcome_of i m n d) rt
    = (Inr \<lparr>jo_status = DONE, observations_recorded = m, observations_rejected = n, detail = d\<rparr>,
       rt\<lparr>rt_sess := on_jobs (update_where (\<lambda>x. x = q)
              (\<lambda>x. x\<lparr>job_status := DONE, last_error := None, job_updated_at := now\<rparr>)) (rt_sess rt),
          rt_loaded := (rt_loaded rt)(job_id q \<mapsto> q\<lparr>job_status := DONE, last_error := None, job_updated_at := now\<rparr>)\<rparr>)"
proof -
  let ?rt0 = "rt\<lparr>rt_loaded := (rt_loaded rt)(job_id q \<mapsto> q)\<rparr>"
  have "shows_row ?rt0 q" using assms(1) by (rule shows_row_cong) simp_all
  from transition_outcome [OF this assms(2), of "\<lambda>x. x\<lparr>job_status := DONE, last_error := None, job_updated_at := now\<rparr>" i m n d]
  show ?thesis using assms(3) by (simp add: andthen_assoc andthen_def the_job_shown [OF assms(1)] mark_done_def)
qed

section \<open>A claimed job up to the provider\<close>

definition holds_claim :: "string \<Rightarrow> 'q rt \<Rightarrow> job \<Rightarrow> bool" where
  "holds_claim w rt r \<longleftrightarrow> shows_row rt r \<and> job_status r = CLAIMED \<and> claimed_by r = Some w"

definition running :: "datetime \<Rightarrow> job \<Rightarrow> job" where
  "running clock r = r\<lparr>job_status := RUNNING, job_updated_at := clock\<rparr>"

definition started :: "'q rt \<Rightarrow> job \<Rightarrow> 'q rt" where
  "started rt r = rt\<lparr>rt_sess := on_jobs (update_where (\<lambda>q. q = r) (running (utcnow (rt_sess rt)))) (rt_sess rt),
     rt_loaded := (rt_loaded rt)(job_id r := None)\<rparr>"

lemma running_fields [simp]:
  "job_id (running clock r) = job_id r" "job_status (running clock r) = RUNNING"
  "claimed_by (running clock r) = claimed_by r" "generation (running clock r) = generation r"
  "job_source (running clock r) = job_source r" "job_listing_id (running clock r) = job_listing_id r"
  "attempt_count (running clock r) = attempt_count r" "max_attempts (running clock r) = max_attempts r"
  by (simp_all add: running_def)

lemma started_fields [simp]:
  "rt_calls (started rt r) = rt_calls rt" "rt_quota (started rt r) = rt_quota rt"
  "rt_sess (started rt r) = on_jobs (update_where (\<lambda>q. q = r) (running (utcnow (rt_sess rt)))) (rt_sess rt)"
  by (simp_all add: started_def)

lemma started_row: "holds_claim w rt r \<Longrightarrow> shows_row (started rt r) (running (utcnow (rt_sess rt)) r)"
  by (auto simp: holds_claim_def shows_row_def started_def map_update_where in_update_where_image)

text \<open>With approval, a readable cursor and quota left, processing goes on to the call of the provider.\<close>

lemma process_claimed:
  assumes "holds_claim w rt r" and "authorize_ingestion (rt_sess rt) (job_source r) = Inr auth"
    and "parse_cursor (job_cursor r) = Inr c" and "quota_check (quota R) (job_source r) (rt_quota rt) = Inr st"
    and "\<not> exhausted st" and "now = (case at1 of None \<Rightarrow> utcnow (rt_sess rt) | Some t \<Rightarrow> t)"
  shows "process R (job_id r) w at1 rt = fetch_and_store R (job_id r) w (generation r) now c auth (started rt r)"
proof -
  let ?rt0 = "rt\<lparr>rt_loaded := (rt_loaded rt)(job_id r \<mapsto> r)\<rparr>"
  have r: "shows_row rt r" "job_status r \<noteq> PENDING" "owned r w (generation r) [CLAIMED] r"
    using assms(1) by (auto simp: holds_claim_def owned_def)
  have "transition (job_id r) (mark_running r w (generation r)) ?rt0 = (Inr (), started ?rt0 r)"
    using settle [of ?rt0 r r w "generation r" "[CLAIMED]" "\<lambda>q. q\<lparr>job_status := RUNNING, job_updated_at := utcnow (rt_sess rt)\<rparr>"]
      r(1,3) by (simp add: started_def mark_running_def transition_def shows_row_def running_def [abs_def])
  moreover have "started ?rt0 r = started rt r" by (simp add: started_def)
  ultimately show ?thesis
    using r(2) assms(2-6) by (simp add: process_def Let_def andthen_def the_job_shown [OF r(1)] claim_pending_def
      authorize_and_parse_def check_quota_def)
qed

text \<open>Nobody else writes, and the provider's answer at the next call.\<close>

definition undisturbed :: "'q runner \<Rightarrow> bool" where
  "undisturbed R \<longleftrightarrow> other_writers R = no_rivals \<and> (\<forall>n s. meanwhile R n s = s)"

definition answer :: "'q runner \<Rightarrow> 'q rt \<Rightarrow> fetch_cursor \<Rightarrow> exn + raw_observation list" where
  "answer R rt c = run_with_deadline (pipe_capacity R) (timeout_seconds R)
     (provider R (length (rt_calls rt)) (cur_external_listing_id c) (cur_start c) (cur_end c))"

definition answered :: "'q rt \<Rightarrow> job \<Rightarrow> fetch_cursor \<Rightarrow> 'q \<Rightarrow> sess \<Rightarrow> 'q rt" where
  "answered rt r c q t = \<lparr>rt_sess = t, rt_quota = q,
     rt_loaded = (rt_loaded rt)(job_id r \<mapsto> running (utcnow (rt_sess rt)) r), rt_calls = rt_calls rt @ [c]\<rparr>"

lemma answered_fields [simp]:
  "rt_sess (answered rt r c q t) = t" "rt_quota (answered rt r c q t) = q" "rt_calls (answered rt r c q t) = rt_calls rt @ [c]"
  "rt_loaded (answered rt r c q t) = (rt_loaded rt)(job_id r \<mapsto> running (utcnow (rt_sess rt)) r)"
  by (simp_all add: answered_def)

lemma fetch_answered:
  assumes "holds_claim w rt r" and "\<And>s. meanwhile R (length (rt_calls rt)) s = s" and "answer R rt c = Inr raws"
    and "quota_consume (quota R) (job_source r) 1 (rt_quota rt) = (Inr st, q)"
  shows "fetch_and_store R (job_id r) w (generation r) now c auth (started rt r) =
    (case store_rows R (running (utcnow (rt_sess rt)) r) c auth now raws 0 0 (rt_sess (started rt r)) of
       (Inl e, t) \<Rightarrow> (Inl e, answered rt r c q t)
     | (Inr counts, t) \<Rightarrow> finish_job (job_id r) w (generation r) now (length raws) counts (answered rt r c q t))"
proof -
  let ?r1 = "running (utcnow (rt_sess rt)) r"
  let ?rt2 = "(started rt r)\<lparr>rt_calls := rt_calls rt @ [c]\<rparr>"
  let ?rt3 = "?rt2\<lparr>rt_loaded := (rt_loaded ?rt2)(job_id r \<mapsto> ?r1)\<rparr>"
  have shown: "shows_row ?rt2 ?r1"
    using started_row [OF assms(1)] by (rule shows_row_cong) simp_all
  then have job: "the_job (job_id r) ?rt2 = (Inr ?r1, ?rt3)" using the_job_shown by fastforce
  have own: "owned ?r1 w (generation r) [CLAIMED, RUNNING] ?r1"
    using assms(1) by (simp add: owned_def holds_claim_def)
  moreover have "?r1 \<in> set (jobs (work (rt_sess ?rt3)))" using shown by (simp add: shows_row_def)
  ultimately have owned: "assert_owned ?r1 w (generation r) (rt_sess ?rt3) = (Inr (), rt_sess ?rt3)"
    using assert_owned_iff by blast
  have "call_provider R c (started rt r) = (Inr raws, ?rt2)"
    using assms(2,3) by (simp add: call_provider_def answer_def)
  then have "fetch_and_store R (job_id r) w (generation r) now c auth (started rt r)
      = store_answer R (job_id r) w (generation r) now c auth raws ?rt2" by (simp add: fetch_and_store_def)
  moreover have rebuilt: "rt\<lparr>rt_calls := cs, rt_loaded := l, rt_quota := p, rt_sess := t\<rparr>
      = \<lparr>rt_sess = t, rt_quota = p, rt_loaded = l, rt_calls = cs\<rparr>" for cs l p t by simp
  have "store_answer R (job_id r) w (generation r) now c auth raws ?rt2 = (case store_rows R ?r1 c auth now raws 0 0 (rt_sess (started rt r)) of
       (Inl e, t) \<Rightarrow> (Inl e, answered rt r c q t)
     | (Inr counts, t) \<Rightarrow> finish_job (job_id r) w (generation r) now (length raws) counts (answered rt r c q t))"
    using job owned assms(4)
    by (simp add: store_answer_def andthen_def in_session_def consume_quota_def answered_def started_def rebuilt
        split: prod.split sum.split)
  ultimately show ?thesis by simp
qed

text \<open>The end of a job whose answer was stored, on the row that the worker owns.\<close>

lemma finish_answered:
  assumes "holds_claim w rt r" and "jobs (work t) = jobs (work (rt_sess (started rt r)))" and "0 < rejected \<longrightarrow> recorded \<noteq> 0"
  shows "finish_job (job_id r) w (generation r) now n (recorded, rejected) (answered rt r c q t)
    = (Inr \<lparr>jo_status = DONE, observations_recorded = recorded, observations_rejected = rejected, detail = ''done''\<rparr>,
       (answered rt r c q (on_jobs (update_where (\<lambda>x. x = running (utcnow (rt_sess rt)) r)
           (\<lambda>x. x\<lparr>job_status := DONE, last_error := None, job_updated_at := now\<rparr>)) t))
       \<lparr>rt_loaded := (rt_loaded rt)(job_id r \<mapsto> (running (utcnow (rt_sess rt)) r)\<lparr>job_status := DONE, last_error := None, job_updated_at := now\<rparr>)\<rparr>)"
proof -
  let ?r1 = "running (utcnow (rt_sess rt)) r"
  have shown: "shows_row (answered rt r c q t) ?r1"
    using started_row [OF assms(1)] assms(2) by (simp add: shows_row_def)
  have own: "owned ?r1 w (generation r) [RUNNING] ?r1" using assms(1) by (simp add: owned_def holds_claim_def)
  have "job_id r = job_id ?r1" by simp
  from done_outcome [OF shown own this, of now recorded rejected "''done''"]
  show ?thesis using assms(3) by (auto simp: finish_job_def Let_def answered_def)
qed

lemma finish_malformed:
  assumes "holds_claim w rt r" and "jobs (work t) = jobs (work (rt_sess (started rt r)))" and "0 < rejected"
  shows "finish_job (job_id r) w (generation r) now n (0, rejected) (answered rt r c q t)
    = (Inr \<lparr>jo_status = (if max_attempts r \<le> attempt_count r + 1 then FAILED else PENDING), observations_recorded = 0,
          observations_rejected = rejected, detail = ''all_malformed''\<rparr>,
       (answered rt r c q (on_jobs (update_where (\<lambda>x. x = running (utcnow (rt_sess rt)) r)
           (failed_values (running (utcnow (rt_sess rt)) r) (malformed_text rejected n) now)) t))
       \<lparr>rt_loaded := (rt_loaded rt)(job_id r \<mapsto> failed_values (running (utcnow (rt_sess rt)) r) (malformed_text rejected n) now
           (running (utcnow (rt_sess rt)) r))\<rparr>)"
proof -
  let ?r1 = "running (utcnow (rt_sess rt)) r"
  have shown: "shows_row (answered rt r c q t) ?r1"
    using started_row [OF assms(1)] assms(2) by (simp add: shows_row_def)
  have own: "owned ?r1 w (generation r) [CLAIMED, RUNNING] ?r1" using assms(1) by (simp add: owned_def holds_claim_def)
  have "job_id r = job_id ?r1" by simp
  from fail_outcome [OF shown own this, of "malformed_text rejected n" now 0 rejected "''all_malformed''"]
  show ?thesis using assms(3) by (simp add: finish_job_def Let_def answered_def)
qed

text \<open>Marking a row first running and then \<open>f\<close> is marking it \<open>f\<close>.\<close>

lemma update_twice:
  assumes "distinct (map job_id js)" and "r \<in> set js" and "\<And>x. job_id (f x) = job_id x"
  shows "update_where (\<lambda>x. x = f r) g (update_where (\<lambda>x. x = r) f js) = update_where (\<lambda>x. x = r) (\<lambda>x. g (f x)) js"
proof -
  have "f r \<noteq> x" if "x \<in> set js" "x \<noteq> r" for x
    using that assms distinct_map_inj [OF assms(1) that(1) assms(2)] by metis
  then show ?thesis by (auto simp: update_where_def)
qed

section \<open>A call needs approval and quota\<close>

lemma authorize_ingestion_same:
  assumes "same_store rt rt'"
  shows "authorize_ingestion (rt_sess rt') source = authorize_ingestion (rt_sess rt) source"
proof -
  have "effective_decision (rt_sess rt') = effective_decision (rt_sess rt)"
    using assms by (simp add: fun_eq_iff effective_decision_def same_store_def)
  then have same: "effective_decision (rt_sess rt') = effective_decision (rt_sess rt)" .
  show ?thesis unfolding authorize_ingestion_def require_def effective_status_def same ..
qed

text \<open>
  C16. Nothing is fetched, stored or consumed for a job unless the newest decisions of its source
  approve both \<open>RETRIEVE\<close> and \<open>STORE\<close>, its cursor is readable and its quota is not exhausted; and
  then the provider is called once, for the window of the cursor.
\<close>

theorem provider_call_guarded:
  assumes "process R i w at1 rt = (x, rt')" and "objects_ok rt" and "r \<in> set (jobs (work (rt_sess rt)))"
    and "job_id r = i"
  shows "same_store rt rt' \<or>
    newest_approved (rt_sess rt) (job_source r) RETRIEVE \<and> newest_approved (rt_sess rt) (job_source r) STORE
    \<and> (\<exists>cursor st. parse_cursor (job_cursor r) = Inr cursor
         \<and> quota_check (quota R) (job_source r) (rt_quota rt) = Inr st \<and> 0 < qs_remaining st
         \<and> rt_calls rt' = rt_calls rt @ [cursor])"
  using assms
proof (cases rule: process_cases)
  case (claimed now j rt1)
  from claimed(4) show ?thesis
  proof (cases rule: authorize_cases)
    case stopped
    with claimed(1) same_store_trans show ?thesis by blast
  next
    case (fetching auth cursor st rt2)
    have q: "quota_check (quota R) (job_source r) (rt_quota rt) = Inr st" "rt_calls rt1 = rt_calls rt"
      using fetching(3) claimed(1,2) by (simp_all add: same_store_def same_job_def)
    have "rt_calls rt2 = rt_calls rt1"
      using calls_aside [OF aside_transition fetching(5)] by simp
    then have "rt_calls rt' = rt_calls rt @ [cursor]" using fetch_and_store_calls [OF fetching(6)] q(2) by simp
    moreover have "authorize_ingestion (rt_sess rt) (job_source r) = Inr auth"
      using fetching(1) claimed(1,2) by (simp add: authorize_ingestion_same same_job_def)
    then have "newest_approved (rt_sess rt) (job_source r) RETRIEVE" "newest_approved (rt_sess rt) (job_source r) STORE"
      using authorize_ingestion_ok_iff [of "rt_sess rt" "job_source r"] by (auto simp: newest_approved_iff)
    ultimately show ?thesis
      using fetching(2,4) claimed(2) q(1) by (auto simp: same_job_def exhausted_def not_le)
  qed
qed simp

text \<open>A run of the runner to look at: one job of the fake provider, claimed by \<open>w\<close>.\<close>

definition demo_cursor :: fetch_cursor where
  "demo_cursor = \<lparr>cur_external_listing_id = ''X'', cur_credential_scope = ''default'',
     cur_observation_type = EOD_CLOSE, cur_start = 738000, cur_end = 738000\<rparr>"

definition demo_row :: job where
  "demo_row = \<lparr>job_id = 1, job_type = ''fetch_range'', dedupe_key = ''k'', job_source = ''fake'',
     job_listing_id = Some 7, job_status = CLAIMED, job_cursor = Some (serialize demo_cursor), attempt_count = 0,
     max_attempts = 5, next_run_at = 0, claimed_by = Some ''w'', claimed_at = Some 0, generation = 1,
     last_error = None, job_created_at = 0, job_updated_at = 0\<rparr>"

definition demo_rt :: "quota_book rt" where
  "demo_rt = \<lparr>rt_sess = session_on ((empty_database SQLITE)\<lparr>decisions := approved_decisions, jobs := [demo_row]\<rparr>) 0,
     rt_quota = \<lparr>book_limit = 5, book_consumed = (\<lambda>source. None)\<rparr>, rt_loaded = (\<lambda>k. None)(1 \<mapsto> demo_row), rt_calls = []\<rparr>"

definition demo_runner :: "quota_book runner" where
  "demo_runner = \<lparr>provider = (\<lambda>n ext a b. Returned (fake_fetch_range (\<lambda>seed. 0) ext a b) 0 100), quota = fake_quota,
     timeout_seconds = 30, pipe_capacity = 65536, meanwhile = (\<lambda>n s. s), column = (\<lambda>x. x), other_writers = no_rivals,
     locks = (\<lambda>i n. False)\<rparr>"

definition demo_auth :: ingestion_authorization where
  "demo_auth = \<lparr>retrieval_decision = sample_decision 1 RETRIEVE 1 APPROVED,
     storage_decision = sample_decision 3 STORE 2 APPROVED\<rparr>"

lemma demo_fields:
  "rt_loaded demo_rt (Suc 0) = Some demo_row" "jobs (work (rt_sess demo_rt)) = [demo_row]"
  "decisions (work (rt_sess demo_rt)) = approved_decisions" "observations (work (rt_sess demo_rt)) = []"
  "rt_calls demo_rt = []" "rt_quota demo_rt = \<lparr>book_limit = 5, book_consumed = (\<lambda>source. None)\<rparr>"
  "wall (rt_sess demo_rt) = 0" "uuid_draws (rt_sess demo_rt) = 0" "engine (work (rt_sess demo_rt)) = SQLITE"
  "uuid_supply (rt_sess demo_rt) = (\<lambda>n. 1000 + n)" "listings (work (rt_sess demo_rt)) = []"
  by (simp_all add: demo_rt_def session_on_def empty_database_def)

lemma demo_job_fields:
  "job_id demo_row = 1" "job_source demo_row = ''fake''" "job_listing_id demo_row = Some 7"
  "job_status demo_row = CLAIMED" "job_cursor demo_row = Some (serialize demo_cursor)" "attempt_count demo_row = 0"
  "max_attempts demo_row = 5" "claimed_by demo_row = Some ''w''" "generation demo_row = 1"
  by (simp_all add: demo_row_def)

lemma demo_runner_fields:
  "provider demo_runner n ext a b = Returned (fake_fetch_range (\<lambda>seed. 0) ext a b) 0 100" "quota demo_runner = fake_quota"
  "timeout_seconds demo_runner = 30" "pipe_capacity demo_runner = 65536" "meanwhile demo_runner n s = s"
  "column demo_runner = (\<lambda>x. x)" "other_writers demo_runner = no_rivals" "locks demo_runner i n = False"
  by (simp_all add: demo_runner_def)

lemma demo_cursor_fields:
  "cur_external_listing_id demo_cursor = ''X''" "cur_credential_scope demo_cursor = ''default''"
  "cur_start demo_cursor = 738000" "cur_end demo_cursor = 738000"
  by (simp_all add: demo_cursor_def)

lemmas demo_facts = demo_fields demo_job_fields demo_runner_fields demo_cursor_fields

lemma demo_objects: "objects_ok demo_rt"
  by (simp add: objects_ok_def demo_facts) (simp add: demo_rt_def demo_row_def)

lemma demo_cursor_parsed: "parse_cursor (Some (serialize demo_cursor)) = Inr demo_cursor"
  by (rule parse_serialize) (simp_all add: demo_cursor_def valid_date_def)

lemma demo_authorized: "decisions (work s) = approved_decisions \<Longrightarrow> authorize_ingestion s ''fake'' = Inr demo_auth"
  by (simp add: authorize_ingestion_def require_def dict_keys_def effective_status_def effective_decision_def approved_defs
      demo_auth_def)

lemma demo_claim: "holds_claim ''w'' demo_rt demo_row"
  by (simp add: holds_claim_def shows_row_def demo_facts)

lemma demo_approved: "newest_approved (rt_sess demo_rt) ''fake'' RETRIEVE" "newest_approved (rt_sess demo_rt) ''fake'' STORE"
  unfolding newest_approved_iff [symmetric]
  by (simp_all add: effective_status_def effective_decision_def demo_facts approved_defs)

lemma demo_quota: "quota_check fake_quota ''fake'' (rt_quota demo_rt)
    = Inr \<lparr>qs_source = ''fake'', qs_remaining = 5, qs_limit = 5, qs_reset_at = None\<rparr>"
  by (simp add: fake_quota_def fake_check_def consumed_of_def demo_facts)

lemma demo_undisturbed: "undisturbed demo_runner"
  by (simp add: undisturbed_def demo_facts)

lemma demo_answer: "answer demo_runner demo_rt demo_cursor
    = Inr (fake_fetch_range (\<lambda>seed. 0) (cur_external_listing_id demo_cursor) (cur_start demo_cursor) (cur_end demo_cursor))"
  by (simp add: answer_def demo_facts run_with_deadline_def)

lemma demo_fresh_ids: "fresh_ids (rt_sess demo_rt)"
  by (simp add: fresh_ids_def demo_facts inj_def)

section \<open>Each end of a job\<close>

text \<open>Everything that a claimed job needs before its provider is called, with nobody else at work.\<close>

definition ready :: "'q runner \<Rightarrow> 'q rt \<Rightarrow> string \<Rightarrow> job \<Rightarrow> fetch_cursor \<Rightarrow> uuid \<Rightarrow> quota_status \<Rightarrow> bool" where
  "ready R rt w r c l st \<longleftrightarrow> holds_claim w rt r \<and> undisturbed R
     \<and> newest_approved (rt_sess rt) (job_source r) RETRIEVE \<and> newest_approved (rt_sess rt) (job_source r) STORE
     \<and> parse_cursor (job_cursor r) = Inr c \<and> job_listing_id r = Some l
     \<and> quota_check (quota R) (job_source r) (rt_quota rt) = Inr st \<and> 0 < qs_remaining st
     \<and> fresh_ids (rt_sess rt) \<and> fk_holds (rt_sess rt) (listing_exists (rt_sess rt) l)"

lemma demo_ready: "ready demo_runner demo_rt ''w'' demo_row demo_cursor 7
    \<lparr>qs_source = ''fake'', qs_remaining = 5, qs_limit = 5, qs_reset_at = None\<rparr>"
  using demo_claim demo_approved demo_quota demo_undisturbed demo_cursor_parsed demo_fresh_ids
  by (simp add: ready_def demo_job_fields demo_runner_fields fk_holds_def) (simp add: demo_facts)

lemma ready_process:
  assumes "ready R rt w r c l st"
  obtains auth where "authorize_ingestion (rt_sess rt) (job_source r) = Inr auth"
    "process R (job_id r) w (Some now) rt = fetch_and_store R (job_id r) w (generation r) now c auth (started rt r)"
    "refers l auth (rt_sess (started rt r))"
proof -
  from assms obtain auth where auth: "authorize_ingestion (rt_sess rt) (job_source r) = Inr auth"
    using authorize_ingestion_ok_iff [of "rt_sess rt" "job_source r"] by (auto simp: ready_def newest_approved_iff)
  have "process R (job_id r) w (Some now) rt = fetch_and_store R (job_id r) w (generation r) now c auth (started rt r)"
    using assms by (intro process_claimed [OF _ auth]) (auto simp: ready_def exhausted_def)
  moreover have "refers l auth (rt_sess (started rt r))"
  proof -
    have "retrieval_decision auth \<in> set (decisions (work (rt_sess rt)))" "storage_decision auth \<in> set (decisions (work (rt_sess rt)))"
      using authorize_ingestion_Inr [OF auth] by (auto dest: effective_decision_in)
    then show ?thesis
      using assms by (auto simp: ready_def refers_def fk_holds_def listing_exists_def decision_exists_def)
  qed
  ultimately show ?thesis using auth that by blast
qed

lemma row_input_running [simp]: "row_input (running clock r) l c auth now raw = row_input r l c auth now raw"
  by (simp add: row_input_def)

lemma fresh_ids_started: "fresh_ids (rt_sess rt) \<Longrightarrow> fresh_ids (rt_sess (started rt r))"
  by (simp add: fresh_ids_def)

lemma kept_by_row: "kept_by col (row_input j l c auth now raw) = kept_by col (row_input j l c auth' now' raw)"
  by (simp add: kept_by_def row_input_def)

text \<open>What the processing of a job leaves to the next one of its batch.\<close>

definition passed_on :: "'q runner \<Rightarrow> job \<Rightarrow> 'q rt \<Rightarrow> 'q rt \<Rightarrow> bool" where
  "passed_on R r rt rt' \<longleftrightarrow> fresh_ids (rt_sess rt') \<and> (\<forall>k. k \<noteq> job_id r \<longrightarrow> rt_loaded rt' k = rt_loaded rt k)
     \<and> (\<exists>answer1. quota_consume (quota R) (job_source r) 1 (rt_quota rt) = (answer1, rt_quota rt'))"

lemma healthy_job:
  assumes "ready R rt w r c l st" and "quota_laws (quota R)" and "historical_port f"
    and "answer R rt c = Inr (f (cur_external_listing_id c) (cur_start c) (cur_end c))"
    and "process R (job_id r) w (Some now) rt = (x, rt')"
  shows "\<exists>k. x = Inr \<lparr>jo_status = DONE, observations_recorded = k, observations_rejected = 0, detail = ''done''\<rparr>
      \<and> k \<le> length (f (cur_external_listing_id c) (cur_start c) (cur_end c))
    \<and> (\<forall>raw \<in> set (f (cur_external_listing_id c) (cur_start c) (cur_end c)). \<forall>auth.
         kept_by (column R) (row_input r l c auth now raw) \<longrightarrow> duplicate_of (rt_sess rt') (row_input r l c auth now raw) \<noteq> None)
    \<and> jobs (work (rt_sess rt')) = update_where (\<lambda>q. q = r)
         (\<lambda>q. q\<lparr>job_status := DONE, last_error := None, job_updated_at := now\<rparr>) (jobs (work (rt_sess rt)))
    \<and> (\<exists>st'. quota_check (quota R) (job_source r) (rt_quota rt') = Inr st' \<and> qs_remaining st' = qs_remaining st - 1)
    \<and> (\<exists>q. rt_loaded rt' (job_id r) = Some q \<and> job_status q = DONE) \<and> passed_on R r rt rt'"
proof -
  let ?raws = "f (cur_external_listing_id c) (cur_start c) (cur_end c)" and ?r1 = "running (utcnow (rt_sess rt)) r"
  have claim: "holds_claim w rt r" and alone: "other_writers R = no_rivals" "\<And>n s. meanwhile R n s = s"
    and l: "job_listing_id ?r1 = Some l" and check: "quota_check (quota R) (job_source r) (rt_quota rt) = Inr st" "0 < qs_remaining st"
    and fresh: "fresh_ids (rt_sess (started rt r))"
    using assms(1) by (simp_all add: ready_def undisturbed_def fresh_ids_started del: started_fields)
  obtain auth where auth: "process R (job_id r) w (Some now) rt = fetch_and_store R (job_id r) w (generation r) now c auth (started rt r)"
    "refers l auth (rt_sess (started rt r))" using ready_process [OF assms(1), of now] by blast
  obtain st' q where quota: "quota_consume (quota R) (job_source r) 1 (rt_quota rt) = (Inr st', q)"
    "quota_check (quota R) (job_source r) q = Inr st'" "qs_remaining st' = qs_remaining st - 1"
    using quota_laws.takes [OF assms(2) check(1), of 1] check(2) by (auto simp: exhausted_def)
  have valid: "well_formed (cur_external_listing_id c) (cur_start c) (cur_end c) raw" if "raw \<in> set ?raws" for raw
    using historical_port.all_accepted [OF assms(3) that] by (simp add: validate_Inr_iff)
  obtain k t where t: "store_rows R ?r1 c auth now ?raws 0 0 (rt_sess (started rt r)) = (Inr (k, 0), t)" "k \<le> length ?raws"
    "jobs (work t) = jobs (work (rt_sess (started rt r)))" "fresh_ids t"
    "\<And>raw. raw \<in> set ?raws \<Longrightarrow> kept_by (column R) (row_input r l c auth now raw) \<Longrightarrow> duplicate_of t (row_input r l c auth now raw) \<noteq> None"
    using store_rows_all [OF alone(1) l fresh auth(2), where raws = ?raws and c = c and now = now and m = 0 and n = 0]
      valid historical_port.one_per_date [OF assms(3)] by (auto simp del: started_fields)
  let ?done = "\<lambda>x. x\<lparr>job_status := DONE, last_error := None, job_updated_at := now\<rparr>"
  have x: "x = Inr \<lparr>jo_status = DONE, observations_recorded = k, observations_rejected = 0, detail = ''done''\<rparr>"
    "rt_sess rt' = on_jobs (update_where (\<lambda>x. x = ?r1) ?done) t" "rt_quota rt' = q"
    "\<exists>q. rt_loaded rt' (job_id r) = Some q \<and> job_status q = DONE" "\<forall>k. k \<noteq> job_id r \<longrightarrow> rt_loaded rt' k = rt_loaded rt k"
    using assms(5) auth(1) fetch_answered [OF claim alone(2) assms(4) quota(1), where now = now and auth = auth] t(1)
      finish_answered [OF claim t(3), where rejected = 0 and recorded = k and now = now and n = "length ?raws" and c = c and q = q] by (auto simp del: started_fields)
  have "?done (running (utcnow (rt_sess rt)) q) = ?done q" for q by (simp add: running_def)
  moreover have "jobs (work (rt_sess rt')) = update_where (\<lambda>q. q = r) (\<lambda>q. ?done (running (utcnow (rt_sess rt)) q)) (jobs (work (rt_sess rt)))"
    using claim by (simp add: x(2) t(3) holds_claim_def shows_row_def update_twice)
  ultimately have table: "jobs (work (rt_sess rt')) = update_where (\<lambda>q. q = r) ?done (jobs (work (rt_sess rt)))"
    by simp
  have "duplicate_of (rt_sess rt') d = duplicate_of t d" for d
    by (simp add: x(2) duplicate_of_def current_revision_def)
  then have stored: "duplicate_of (rt_sess rt') (row_input r l c a now raw) \<noteq> None"
    if "raw \<in> set ?raws" "kept_by (column R) (row_input r l c a now raw)" for raw a
    using t(5) [OF that(1)] that(2) kept_by_row [of _ r l c a now raw auth now]
      duplicate_of_row [of _ r l c a now raw auth now] by simp
  show ?thesis
  proof (rule exI [of _ k], intro conjI)
    show "\<exists>st'. quota_check (quota R) (job_source r) (rt_quota rt') = Inr st' \<and> qs_remaining st' = qs_remaining st - 1"
      using x(3) quota(2,3) by blast
    show "\<exists>q. rt_loaded rt' (job_id r) = Some q \<and> job_status q = DONE" by (rule x(4))
    show "passed_on R r rt rt'" using x(2,3,5) t(4) quota(1) by (simp add: passed_on_def fresh_ids_def)
  qed (use x(1) t(2) stored table in blast)+
qed

text \<open>
  C28. A claimed job of an approved source, with quota left and an answer in time, ends \<open>DONE\<close> when
  its provider keeps the port's promise: every row of the answer that the columns keep is then
  current in the store, no row is rejected, the job's row alone changed its table, and the quota
  went down by one.
\<close>

theorem healthy_job_completes:
  assumes "ready R rt w r c l st" and "quota_laws (quota R)" and "historical_port f"
    and "answer R rt c = Inr (f (cur_external_listing_id c) (cur_start c) (cur_end c))"
    and "process R (job_id r) w (Some now) rt = (x, rt')"
  shows "\<exists>k. x = Inr \<lparr>jo_status = DONE, observations_recorded = k, observations_rejected = 0, detail = ''done''\<rparr>
      \<and> k \<le> length (f (cur_external_listing_id c) (cur_start c) (cur_end c))
    \<and> (\<forall>raw \<in> set (f (cur_external_listing_id c) (cur_start c) (cur_end c)). \<forall>auth.
         kept_by (column R) (row_input r l c auth now raw) \<longrightarrow> duplicate_of (rt_sess rt') (row_input r l c auth now raw) \<noteq> None)
    \<and> jobs (work (rt_sess rt')) = update_where (\<lambda>q. q = r)
         (\<lambda>q. q\<lparr>job_status := DONE, last_error := None, job_updated_at := now\<rparr>) (jobs (work (rt_sess rt)))
    \<and> (\<exists>st'. quota_check (quota R) (job_source r) (rt_quota rt') = Inr st' \<and> qs_remaining st' = qs_remaining st - 1)"
  using healthy_job [OF assms] by blast

theorem healthy_job_completes_witness:
  "jobs (work (rt_sess (snd (process demo_runner (job_id demo_row) ''w'' (Some 5) demo_rt))))
     = [demo_row\<lparr>job_status := DONE, last_error := None, job_updated_at := 5\<rparr>]
   \<and> (\<exists>k. fst (process demo_runner (job_id demo_row) ''w'' (Some 5) demo_rt)
       = Inr \<lparr>jo_status = DONE, observations_recorded = k, observations_rejected = 0, detail = ''done''\<rparr>)"
proof -
  have "quota_laws (quota demo_runner)" using fake_quota_laws.quota_laws_axioms by (simp add: demo_runner_fields)
  from healthy_job_completes [OF demo_ready this fake_prices.historical_port_axioms demo_answer surjective_pairing]
  show ?thesis by (simp add: demo_facts) blast
qed

lemma codes_plain: "adapter_error_code e = code \<Longrightarrow> take 1024 (sanitize_message code []) = code"
  using adapter_error_code_closed [of e]
  by (auto simp: sanitize_plain UNKNOWN_SOURCE_def PROVIDER_TIMEOUT_def ADAPTER_ERROR_def)

lemma failed_values_running: "failed_values (running clock r) err now (running clock q) = failed_values r err now q"
  by (simp add: failed_values_def running_def Let_def)

text \<open>
  C36. When the provider does not answer, the attempt is counted and the claim given up, the retry is
  backed off or the job ends \<open>FAILED\<close>; nothing is stored and no quota is consumed; and what the
  row keeps of the failure is a code of the closed set, never a text of the provider.
\<close>

theorem failed_fetch_is_bounded:
  assumes "ready R rt w r c l st" and "answer R rt c = Inl e" and "process R (job_id r) w (Some now) rt = (x, rt')"
  shows "x = Inr \<lparr>jo_status = (if max_attempts r \<le> attempt_count r + 1 then FAILED else PENDING),
        observations_recorded = 0, observations_rejected = 0, detail = ''fetch_error''\<rparr>
    \<and> observations (work (rt_sess rt')) = observations (work (rt_sess rt)) \<and> rt_quota rt' = rt_quota rt
    \<and> jobs (work (rt_sess rt')) = update_where (\<lambda>q. q = r) (failed_values r (adapter_error_code e) now) (jobs (work (rt_sess rt)))
    \<and> last_error (failed_values r (adapter_error_code e) now r) = Some (adapter_error_code e)
    \<and> adapter_error_code e \<in> {PROVIDER_TIMEOUT, ADAPTER_ERROR}"
proof -
  let ?r1 = "running (utcnow (rt_sess rt)) r" and ?rt2 = "(started rt r)\<lparr>rt_calls := rt_calls rt @ [c]\<rparr>"
  have claim: "holds_claim w rt r" and alone: "\<And>n s. meanwhile R n s = s"
    using assms(1) by (simp_all add: ready_def undisturbed_def)
  obtain auth where auth: "process R (job_id r) w (Some now) rt = fetch_and_store R (job_id r) w (generation r) now c auth (started rt r)"
    using ready_process [OF assms(1), of now] by blast
  have shown: "shows_row ?rt2 ?r1" using started_row [OF claim] by (rule shows_row_cong) simp_all
  have own: "owned ?r1 w (generation r) [CLAIMED, RUNNING] ?r1" using claim by (simp add: owned_def holds_claim_def)
  have id: "job_id r = job_id ?r1" by simp
  have "call_provider R c (started rt r) = (Inl e, ?rt2)"
    using assms(2) alone by (simp add: call_provider_def answer_def)
  then have "process R (job_id r) w (Some now) rt
      = andthen (fail_job (job_id r) w (generation r) (adapter_error_code e) now) (\<lambda>_. outcome_of (job_id r) 0 0 ''fetch_error'') ?rt2"
    by (simp add: auth fetch_and_store_def)
  with fail_outcome [OF shown own id, of "adapter_error_code e" now 0 0 "''fetch_error''"] assms(3)
  have x: "x = Inr \<lparr>jo_status = (if max_attempts r \<le> attempt_count r + 1 then FAILED else PENDING),
        observations_recorded = 0, observations_rejected = 0, detail = ''fetch_error''\<rparr>"
    "rt_sess rt' = on_jobs (update_where (\<lambda>x. x = ?r1) (failed_values ?r1 (adapter_error_code e) now)) (rt_sess (started rt r))"
    "rt_quota rt' = rt_quota rt" by auto
  have "jobs (work (rt_sess rt')) = update_where (\<lambda>q. q = r) (failed_values r (adapter_error_code e) now) (jobs (work (rt_sess rt)))"
    using claim by (simp add: x(2) holds_claim_def shows_row_def update_twice failed_values_running)
  moreover have "last_error (failed_values r (adapter_error_code e) now r) = Some (adapter_error_code e)"
    using codes_plain [OF refl, of e] by (simp add: failed_values_def Let_def)
  moreover have "adapter_error_code e \<in> {PROVIDER_TIMEOUT, ADAPTER_ERROR}"
    using run_with_deadline_Inl [OF assms(2) [unfolded answer_def]] by auto
  ultimately show ?thesis using x by simp
qed

text \<open>A provider that hangs.\<close>

definition hanging_runner :: "quota_book runner" where
  "hanging_runner = demo_runner\<lparr>provider := (\<lambda>n ext a b. Never)\<rparr>"

lemma hanging_ready: "ready hanging_runner demo_rt ''w'' demo_row demo_cursor 7
    \<lparr>qs_source = ''fake'', qs_remaining = 5, qs_limit = 5, qs_reset_at = None\<rparr>"
  using demo_ready by (simp add: ready_def hanging_runner_def undisturbed_def)

theorem failed_fetch_is_bounded_witness:
  "map last_error (jobs (work (rt_sess (snd (process hanging_runner (job_id demo_row) ''w'' (Some 5) demo_rt)))))
     = [Some ''provider_timeout'']"
proof -
  have "answer hanging_runner demo_rt demo_cursor = Inl ProviderTimeoutError"
    by (simp add: answer_def hanging_runner_def run_with_deadline_def)
  from failed_fetch_is_bounded [OF hanging_ready this surjective_pairing]
  show ?thesis by (simp add: demo_facts PROVIDER_TIMEOUT_def)
qed

text \<open>
  With the quota exhausted no call is made: the job goes back to the queue, without an attempt
  counted, for the time of the reset that the port knows or an hour later.
\<close>

theorem exhausted_quota_defers:
  assumes "holds_claim w rt r" and "newest_approved (rt_sess rt) (job_source r) RETRIEVE"
    and "newest_approved (rt_sess rt) (job_source r) STORE" and "parse_cursor (job_cursor r) = Inr c"
    and "quota_check (quota R) (job_source r) (rt_quota rt) = Inr st" and "exhausted st"
    and "process R (job_id r) w (Some now) rt = (x, rt')"
  shows "x = Inr \<lparr>jo_status = PENDING, observations_recorded = 0, observations_rejected = 0, detail = ''quota_exhausted''\<rparr>
    \<and> same_store rt rt'
    \<and> jobs (work (rt_sess rt')) = update_where (\<lambda>q. q = r)
        (\<lambda>q. q\<lparr>job_status := PENDING, next_run_at := (case qs_reset_at st of Some t \<Rightarrow> t | None \<Rightarrow> now + 3600000000),
               last_error := None, claimed_by := None, claimed_at := None, job_updated_at := utcnow (rt_sess rt)\<rparr>)
        (jobs (work (rt_sess rt)))"
proof -
  from assms(2,3) obtain auth where auth: "authorize_ingestion (rt_sess rt) (job_source r) = Inr auth"
    using authorize_ingestion_ok_iff [of "rt_sess rt" "job_source r"] by (auto simp: newest_approved_iff)
  let ?rt0 = "rt\<lparr>rt_loaded := (rt_loaded rt)(job_id r \<mapsto> r)\<rparr>"
  let ?f = "\<lambda>q. q\<lparr>job_status := PENDING, next_run_at := (case qs_reset_at st of Some t \<Rightarrow> t | None \<Rightarrow> now + 3600000000),
      last_error := None, claimed_by := None, claimed_at := None, job_updated_at := utcnow (rt_sess rt)\<rparr>"
  have r: "shows_row rt r" "job_status r \<noteq> PENDING" "owned r w (generation r) [CLAIMED, RUNNING] r"
    using assms(1) by (auto simp: holds_claim_def owned_def)
  have shown: "shows_row ?rt0 r" using r(1) by (rule shows_row_cong) simp_all
  have hour: "now + microseconds default_quota_defer_seconds = now + 3600000000"
    by (simp add: microseconds_def default_quota_defer_seconds_def)
  have deferral: "transition (job_id r) (defer_for_quota r w (generation r) (qs_reset_at st) now) ?rt0
      = transition (job_id r) (owned_transition r w (generation r) [CLAIMED, RUNNING] ?f) ?rt0"
    unfolding transition_def defer_for_quota_def hour by simp
  have "process R (job_id r) w (Some now) rt
      = andthen (transition (job_id r) (defer_for_quota r w (generation r) (qs_reset_at st) now))
          (\<lambda>_. outcome_of (job_id r) 0 0 ''quota_exhausted'') ?rt0"
    using r(2) auth assms(4-6) by (simp add: process_def Let_def andthen_def the_job_shown [OF r(1)] claim_pending_def
      authorize_and_parse_def check_quota_def)
  also have "\<dots> = andthen (transition (job_id r) (owned_transition r w (generation r) [CLAIMED, RUNNING] ?f))
          (\<lambda>_. outcome_of (job_id r) 0 0 ''quota_exhausted'') ?rt0" by (simp add: andthen_def deferral)
  finally show ?thesis
    using transition_outcome [OF shown r(3) _ refl, of ?f 0 0 "''quota_exhausted''"] assms(7)
    by (auto simp: same_store_def)
qed

definition spent_rt :: "quota_book rt" where
  "spent_rt = demo_rt\<lparr>rt_quota := \<lparr>book_limit = 0, book_consumed = (\<lambda>source. None)\<rparr>\<rparr>"

theorem exhausted_quota_defers_witness:
  "map (\<lambda>q. (job_status q, attempt_count q, next_run_at q))
      (jobs (work (rt_sess (snd (process demo_runner (job_id demo_row) ''w'' (Some 5) spent_rt)))))
     = [(PENDING, 0, 3600000005)]"
proof -
  have claim: "holds_claim ''w'' spent_rt demo_row"
    using demo_claim by (simp add: holds_claim_def shows_row_def spent_rt_def)
  have approved: "newest_approved (rt_sess spent_rt) (job_source demo_row) RETRIEVE"
    "newest_approved (rt_sess spent_rt) (job_source demo_row) STORE"
    using demo_approved by (simp_all add: spent_rt_def demo_job_fields)
  have parsed: "parse_cursor (job_cursor demo_row) = Inr demo_cursor" by (simp add: demo_job_fields demo_cursor_parsed)
  have check: "quota_check (quota demo_runner) (job_source demo_row) (rt_quota spent_rt)
      = Inr \<lparr>qs_source = ''fake'', qs_remaining = 0, qs_limit = 0, qs_reset_at = None\<rparr>"
    by (simp add: demo_runner_fields demo_job_fields fake_quota_def fake_check_def consumed_of_def spent_rt_def)
  have "jobs (work (rt_sess spent_rt)) = [demo_row]" by (simp add: spent_rt_def demo_facts)
  with exhausted_quota_defers [OF claim approved parsed check _ surjective_pairing, of 5]
  show ?thesis by (simp add: exhausted_def demo_job_fields)
qed

text \<open>
  C15. A worker that lost its claim while the provider was at work stores nothing: whatever the
  answer, and whatever other sessions did to the job meanwhile (recovered it, handed it to another
  worker, finished it), it raises \<open>StaleJobClaimError\<close>, and the database and the quota are as they
  were when the call returned.
\<close>

theorem stale_worker_stores_nothing:
  assumes "holds_claim w rt r" and "newest_approved (rt_sess rt) (job_source r) RETRIEVE"
    and "newest_approved (rt_sess rt) (job_source r) STORE" and "parse_cursor (job_cursor r) = Inr c"
    and "quota_check (quota R) (job_source r) (rt_quota rt) = Inr st" and "0 < qs_remaining st"
    and "s = meanwhile R (length (rt_calls rt)) (rt_sess (started rt r))" and "distinct (map job_id (jobs (work s)))"
    and "q \<in> set (jobs (work s))" and "job_id q = job_id r"
    and "claimed_by q \<noteq> Some w \<or> generation q \<noteq> generation r \<or> job_status q \<notin> {CLAIMED, RUNNING}"
    and "process R (job_id r) w (Some now) rt = (x, rt')"
  shows "x = Inl (StaleJobClaimError (job_id r)) \<and> rt_sess rt' = s \<and> rt_quota rt' = rt_quota rt"
proof -
  from assms(2,3) obtain auth where auth: "authorize_ingestion (rt_sess rt) (job_source r) = Inr auth"
    using authorize_ingestion_ok_iff [of "rt_sess rt" "job_source r"] by (auto simp: newest_approved_iff)
  let ?rt2 = "(started rt r)\<lparr>rt_sess := s, rt_calls := rt_calls rt @ [c]\<rparr>"
  let ?rt3 = "?rt2\<lparr>rt_loaded := (rt_loaded ?rt2)(job_id r \<mapsto> q)\<rparr>"
  have "process R (job_id r) w (Some now) rt = fetch_and_store R (job_id r) w (generation r) now c auth (started rt r)"
    using assms(5,6) by (intro process_claimed [OF assms(1) auth assms(4)]) (auto simp: exhausted_def)
  moreover have call: "call_provider R c (started rt r) = (answer R rt c, ?rt2)"
    by (simp add: call_provider_def answer_def assms(7))
  moreover have job: "the_job (job_id r) ?rt2 = (Inr q, ?rt3)"
    using the_job_shown [of ?rt2 q] assms(8-10) by (simp add: shows_row_def started_def)
  have lost: "\<not> owned q w (generation r) [CLAIMED, RUNNING] p" if "p \<in> set (jobs (work s))" for p
    using that assms(8-11) distinct_map_inj [OF assms(8) that assms(9)] by (auto simp: owned_def)
  have "andthen (fail_job (job_id r) w (generation r) err now) (\<lambda>_. outcome_of (job_id r) 0 0 ''fetch_error'') ?rt2
      = (Inl (StaleJobClaimError (job_id r)), ?rt3\<lparr>rt_loaded := (\<lambda>k. None)\<rparr>)" for err
    using stale_transition [of ?rt3 q w "generation r" "[CLAIMED, RUNNING]" "job_id r" "failed_values q err now"] lost assms(8,10)
    by (simp add: fail_job_def andthen_def job mark_failed_def)
  moreover have "store_answer R (job_id r) w (generation r) now c auth raws ?rt2
      = (Inl (StaleJobClaimError (job_id r)), ?rt3)" for raws
    using assert_owned_stale [of s q w "generation r"] lost assms(10)
    by (simp add: store_answer_def andthen_def job in_session_def)
  ultimately show ?thesis
    using assms(12) by (cases "answer R rt c") (auto simp: fetch_and_store_def)
qed

text \<open>The lease runs out while the provider is at work.\<close>

definition slow_runner :: "quota_book runner" where
  "slow_runner = demo_runner\<lparr>meanwhile := (\<lambda>n s. snd (recover_expired 400000000 300 s))\<rparr>"

theorem stale_worker_stores_nothing_witness:
  "fst (process slow_runner (job_id demo_row) ''w'' (Some 5) demo_rt) = Inl (StaleJobClaimError 1)
   \<and> observations (work (rt_sess (snd (process slow_runner (job_id demo_row) ''w'' (Some 5) demo_rt)))) = []"
proof -
  let ?r1 = "running 0 demo_row" and ?s = "meanwhile slow_runner (length (rt_calls demo_rt)) (rt_sess (started demo_rt demo_row))"
  have jobs1: "jobs (work ?s) = [recovered 400000000 ?r1]"
    by (simp add: slow_runner_def demo_facts utcnow_def lease_expired_def microseconds_def)
      (simp add: running_def demo_row_def microseconds_def)
  have obs1: "observations (work ?s) = []" by (simp add: slow_runner_def demo_facts)
  have approved: "newest_approved (rt_sess demo_rt) (job_source demo_row) RETRIEVE"
    "newest_approved (rt_sess demo_rt) (job_source demo_row) STORE" using demo_approved by (simp_all add: demo_job_fields)
  have parsed: "parse_cursor (job_cursor demo_row) = Inr demo_cursor" by (simp add: demo_job_fields demo_cursor_parsed)
  have check: "quota_check (quota slow_runner) (job_source demo_row) (rt_quota demo_rt)
      = Inr \<lparr>qs_source = ''fake'', qs_remaining = 5, qs_limit = 5, qs_reset_at = None\<rparr>"
    using demo_quota by (simp add: slow_runner_def demo_runner_fields demo_job_fields)
  have "distinct (map job_id (jobs (work ?s)))" "recovered 400000000 ?r1 \<in> set (jobs (work ?s))"
    "job_id (recovered 400000000 ?r1) = job_id demo_row" unfolding jobs1 by simp_all
  from stale_worker_stores_nothing [OF demo_claim approved parsed check _ refl this _ surjective_pairing, of 5] obs1
  show ?thesis by (simp add: demo_job_fields)
qed

text \<open>
  C35. Malformed rows are isolated, unless the close is not a number. Rows that fail the validation are
  counted and change nothing else: the store is what it would be had the answer held only the valid
  rows, in their order. The exception is a row whose close is a NaN and which is in order otherwise:
  the comparison raises, so that the loop stops there with \<open>InvalidOperation\<close>, having stored the valid
  rows before it and none after it.
\<close>

theorem malformed_rows_isolated:
  "store_rows R j c auth now raws 0 0 s =
    (let ok = well_formed (cur_external_listing_id c) (cur_start c) (cur_end c);
         before = takeWhile (\<lambda>raw. \<not> undecided (cur_external_listing_id c) (cur_start c) (cur_end c) raw) raws
     in case store_rows R j c auth now (filter ok before) 0 0 s of
          (Inl e, t) \<Rightarrow> (Inl e, t)
        | (Inr counts, t) \<Rightarrow>
            if before = raws then (Inr (fst counts, length (filter (\<lambda>raw. \<not> ok raw) raws)), t)
            else (Inl InvalidOperation, t))"
  by (subst store_rows_until) (simp only: Let_def add_0)

definition bad_row :: raw_observation where
  "bad_row = (fake_observation (\<lambda>seed. 0) ''X'' 738000)\<lparr>raw_currency := ''euro''\<rparr>"

section \<open>What is stored\<close>

text \<open>
  Other sessions that move jobs through the queue, and store no observation: no job is removed and
  what the queue never changes of a job stays.
\<close>

definition bystanders :: "'q runner \<Rightarrow> bool" where
  "bystanders R \<longleftrightarrow> other_writers R = no_rivals
     \<and> (\<forall>n s. observations (work (meanwhile R n s)) = observations (work s)
          \<and> (\<forall>r. has_row r s \<longrightarrow> has_row r (meanwhile R n s)))"

lemma undisturbed_bystanders: "undisturbed R \<Longrightarrow> bystanders R"
  by (simp add: undisturbed_def bystanders_def)

lemma transition_started:
  assumes "transition i (mark_running j w g) rt = (Inr (), rt1)" and "has_row r (rt_sess rt)"
  shows "has_row r (rt_sess rt1) \<and> rt_loaded rt1 i = None"
proof -
  have "rt_sess rt1 = snd (mark_running j w g (rt_sess rt)) \<and> rt_loaded rt1 i = None"
    using assms(1) by (auto simp: transition_def split: prod.splits sum.splits)
  moreover have "jobs (work (snd (mark_running j w g (rt_sess rt)))) = update_where (owned j w g [CLAIMED])
      (\<lambda>r. r\<lparr>job_status := RUNNING, job_updated_at := utcnow (rt_sess rt)\<rparr>) (jobs (work (rt_sess rt)))"
    by (simp add: mark_running_def owned_transition_def Let_def)
  ultimately show ?thesis using has_row_update [OF assms(2)] by (simp add: same_job_def)
qed

lemma the_job_has_row:
  assumes "has_row r (rt_sess rt)" and "rt_loaded rt (job_id r) = None" and "the_job (job_id r) rt = (x, rt')"
  shows "\<exists>j. x = Inr j \<and> same_job j r \<and> rt_sess rt' = rt_sess rt"
proof -
  obtain q where q: "q \<in> set (jobs (work (rt_sess rt)))" "same_job q r" using assms(1) by (auto simp: has_row_def)
  with assms(1) have "select_first (\<lambda>x. job_id x = job_id r) (jobs (work (rt_sess rt))) = Some q"
    using select_first_key [of job_id "jobs (work (rt_sess rt))" q] by (simp add: has_row_def same_job_def)
  with assms(2,3) q(2) show ?thesis by (auto simp: the_job_def)
qed

lemma stored_from_same_job: "same_job j r \<Longrightarrow> stored_from R j c auth now raw ob = stored_from R r c auth now raw ob"
  by (simp add: stored_from_def same_job_def)

lemma store_answer_stored:
  assumes "store_answer R (job_id r) w g now c auth raws rt = (x, rt')" and "has_row r (rt_sess rt)"
    and "rt_loaded rt (job_id r) = None" and "other_writers R = no_rivals"
  shows "\<exists>new. observations (work (rt_sess rt')) = observations (work (rt_sess rt)) @ new
      \<and> (\<forall>ob \<in> set new. \<exists>raw \<in> set raws. stored_from R r c auth now raw ob)"
proof -
  obtain y rt1 where y: "the_job (job_id r) rt = (y, rt1)" by fastforce
  from the_job_has_row [OF assms(2,3) y] obtain j where j: "y = Inr j" "same_job j r" "rt_sess rt1 = rt_sess rt" by blast
  obtain z rt2 where z: "in_session (assert_owned j w g) rt1 = (z, rt2)" by fastforce
  have rt2: "observations (work (rt_sess rt2)) = observations (work (rt_sess rt))"
    using asideD [OF aside_in_session z] j(3) by (simp add: same_store_def)
  obtain u rt3 where u: "consume_quota R (job_source j) rt2 = (u, rt3)" "rt_sess rt3 = rt_sess rt2"
    by (cases "consume_quota R (job_source j) rt2") (auto simp: consume_quota_def split: prod.splits)
  obtain v s where v: "store_rows R j c auth now raws 0 0 (rt_sess rt3) = (v, s)" by fastforce
  from store_rows_stored [OF assms(4) v] obtain new where
    new: "observations (work s) = observations (work (rt_sess rt)) @ new"
      "\<forall>ob \<in> set new. \<exists>raw \<in> set raws. stored_from R j c auth now raw ob" using u(2) rt2 by auto
  have "observations (work (rt_sess rt')) = observations (work (rt_sess rt))
      \<or> observations (work (rt_sess rt')) = observations (work s)"
  proof (cases z)
    case (Inl e)
    with assms(1) y j z rt2 show ?thesis by (simp add: store_answer_def andthen_def)
  next
    case zr: (Inr a)
    show ?thesis
    proof (cases u)
      case (Inl e)
      with assms(1) y j z zr u rt2 show ?thesis by (simp add: store_answer_def andthen_def)
    next
      case ur: (Inr b)
      show ?thesis
      proof (cases v)
        case (Inl e)
        with assms(1) y j z zr u ur v show ?thesis by (auto simp: store_answer_def andthen_def in_session_def)
      next
        case (Inr counts)
        with assms(1) y j z zr u ur v
        have "finish_job (job_id r) w g now (length raws) counts (rt3\<lparr>rt_sess := s\<rparr>) = (x, rt')"
          by (simp add: store_answer_def andthen_def in_session_def split: prod.splits)
        from asideD [OF aside_finish_job this] show ?thesis by (simp add: same_store_def)
      qed
    qed
  qed
  then show ?thesis
  proof
    assume "observations (work (rt_sess rt')) = observations (work (rt_sess rt))"
    then show ?thesis by (intro exI [of _ "[]"]) simp
  next
    assume "observations (work (rt_sess rt')) = observations (work s)"
    with new show ?thesis by (intro exI [of _ new]) (simp add: stored_from_same_job [OF j(2)])
  qed
qed

lemma process_stored:
  assumes "process R i w (Some now) rt = (x, rt')" and "objects_ok rt" and "r \<in> set (jobs (work (rt_sess rt)))"
    and "job_id r = i" and "bystanders R"
  shows "\<exists>new. observations (work (rt_sess rt')) = observations (work (rt_sess rt)) @ new
    \<and> (\<forall>ob \<in> set new. \<exists>c auth raws raw. parse_cursor (job_cursor r) = Inr c
         \<and> authorize_ingestion (rt_sess rt) (job_source r) = Inr auth \<and> answer R rt c = Inr raws \<and> raw \<in> set raws
         \<and> stored_from R r c auth now raw ob)"
  using assms(1-4)
proof (cases rule: process_cases)
  case (no_claim e)
  then show ?thesis by (simp add: same_store_def)
next
  case (claimed now' j rt1)
  from claimed(4) show ?thesis
  proof (cases rule: authorize_cases)
    case stopped
    with same_store_trans [OF claimed(1)] show ?thesis by (simp add: same_store_def)
  next
    case (fetching auth c st rt2)
    let ?rt3 = "rt2\<lparr>rt_sess := meanwhile R (length (rt_calls rt2)) (rt_sess rt2), rt_calls := rt_calls rt2 @ [c]\<rparr>"
    have j: "job_id j = job_id r" "job_source j = job_source r" "job_cursor j = job_cursor r"
      using claimed(2) by (simp_all add: same_job_def)
    note started = transition_started [OF fetching(5) claimed(3)]
    have row: "has_row r (rt_sess ?rt3)" "rt_loaded ?rt3 (job_id r) = None"
      using started assms(5) j(1) by (simp_all add: bystanders_def)
    have obs: "observations (work (rt_sess ?rt3)) = observations (work (rt_sess rt))"
      using asideD [OF aside_transition fetching(5)] claimed(1) assms(5) by (simp add: same_store_def bystanders_def)
    have auth: "authorize_ingestion (rt_sess rt) (job_source r) = Inr auth"
      using fetching(1) j(2) authorize_ingestion_same [OF claimed(1)] by simp
    have call: "call_provider R c rt2 = (answer R rt2 c, ?rt3)" by (simp add: call_provider_def answer_def)
    have same: "answer R rt2 c = answer R rt c"
      using asideD [OF aside_transition fetching(5)] claimed(1) by (simp add: answer_def same_store_def)
    show ?thesis
    proof (cases "answer R rt2 c")
      case (Inl e)
      have "andthen (fail_job (job_id j) w (generation j) (adapter_error_code e) now')
          (\<lambda>_. outcome_of (job_id j) 0 0 ''fetch_error'') ?rt3 = (x, rt')"
        using fetching(6) call Inl by (simp add: fetch_and_store_def)
      from asideD [OF aside_andthen this] obs show ?thesis by (simp add: same_store_def)
    next
      case (Inr raws)
      then have "store_answer R (job_id r) w (generation j) now' c auth raws ?rt3 = (x, rt')"
        using fetching(6) call j(1) by (simp add: fetch_and_store_def)
      from store_answer_stored [OF this row] assms(5) obtain new where
        new: "observations (work (rt_sess rt')) = observations (work (rt_sess ?rt3)) @ new"
          "\<forall>ob \<in> set new. \<exists>raw \<in> set raws. stored_from R r c auth now' raw ob"
        by (auto simp: bystanders_def)
      have "parse_cursor (job_cursor r) = Inr c" "now' = now" using fetching(2) j(3) claimed(5) by simp_all
      with new obs auth Inr same show ?thesis by (intro exI [of _ new]) (simp, blast)
    qed
  qed
qed

text \<open>
  C20. Only validated rows of approved sources are stored, with their provenance. Whatever the
  provider answers, every observation that the processing of a job adds is one row of what the
  provider answered to the job's cursor, and this row passed the validation: of the identifier and
  inside the window of the cursor, with a currency code and a positive finite close; its prices are
  stored as the columns convert them, for the job's listing and source, with the decisions that were
  effective and approved when the job was authorised. Without an answer nothing is added, and no
  observation that was there is touched.
\<close>

theorem stored_rows_validated:
  assumes "process R i w (Some now) rt = (x, rt')" and "objects_ok rt" and "r \<in> set (jobs (work (rt_sess rt)))"
    and "job_id r = i" and "bystanders R"
  shows "\<exists>new. observations (work (rt_sess rt')) = observations (work (rt_sess rt)) @ new
    \<and> (\<forall>ob \<in> set new. \<exists>c auth raws raw. parse_cursor (job_cursor r) = Inr c
         \<and> authorize_ingestion (rt_sess rt) (job_source r) = Inr auth \<and> answer R rt c = Inr raws \<and> raw \<in> set raws
         \<and> stored_from R r c auth now raw ob)"
  by (rule process_stored [OF assms])

text \<open>
  Storing an answer again changes nothing. Rows whose values the store already has are neither
  recorded nor counted, whichever decisions and time they come with; so a job that is processed again
  after its first run was lost adds no revision.
\<close>

theorem refetch_stores_nothing:
  assumes "other_writers R = no_rivals" and "job_listing_id j = Some l" and "fresh_ids s" and "refers l auth s"
    and "list_all (well_formed (cur_external_listing_id c) (cur_start c) (cur_end c)) raws"
    and "distinct (map raw_session_date raws)"
    and "list_all (\<lambda>raw. kept_by (column R) (row_input j l c auth now raw)) raws"
    and "store_rows R j c auth now raws 0 0 s = (x, t)"
  shows "store_rows R j c auth' now' raws 0 0 t = (Inr (0, 0), t)"
proof -
  have wf: "well_formed (cur_external_listing_id c) (cur_start c) (cur_end c) raw" if "raw \<in> set raws" for raw
    using assms(5) that by (auto simp: list_all_iff)
  have kept: "kept_by (column R) (row_input j l c auth now raw)" if "raw \<in> set raws" for raw
    using assms(7) that by (simp add: list_all_iff)
  obtain k t' where "store_rows R j c auth now raws 0 0 s = (Inr (k, 0), t')"
    "\<forall>raw \<in> set raws. kept_by (column R) (row_input j l c auth now raw) \<longrightarrow> duplicate_of t' (row_input j l c auth now raw) \<noteq> None"
    using store_rows_all [OF assms(1-4), where raws = raws and c = c and now = now and m = 0 and n = 0] wf assms(6) by auto
  with assms(8) kept have "duplicate_of t (row_input j l c auth' now' raw) \<noteq> None" if "raw \<in> set raws" for raw
    using that duplicate_of_row [of t j l c auth' now' raw auth now] by auto
  with wf show ?thesis by (intro store_rows_known [OF assms(2)]) blast
qed

definition good_row :: raw_observation where
  "good_row = fake_observation (\<lambda>seed. 0) ''X'' 738000"

lemma good_row_fields:
  "raw_external_listing_id good_row = ''X''" "raw_session_date good_row = 738000" "raw_currency good_row = ''EUR''"
  "raw_close good_row = Fin 10" "raw_open good_row = Some (Fin 10)" "raw_high good_row = Some (Fin 10)"
  "raw_low good_row = Some (Fin 10)" "raw_adjusted_close good_row = Some (Fin 10)"
proof -
  have "\<lfloor>(2001 :: rat) / 2\<rfloor> = 1000" by (simp add: floor_eq_iff)
  then have "deterministic_price (\<lambda>seed. 0) seed 10 90 = 10" for seed
    by (simp add: deterministic_price_def quantize_cents_def)
  then show "raw_external_listing_id good_row = ''X''" "raw_session_date good_row = 738000" "raw_currency good_row = ''EUR''"
    "raw_close good_row = Fin 10" "raw_open good_row = Some (Fin 10)" "raw_high good_row = Some (Fin 10)"
    "raw_low good_row = Some (Fin 10)" "raw_adjusted_close good_row = Some (Fin 10)"
    by (simp_all add: good_row_def fake_observation_def Let_def)
qed

text \<open>A malformed row alone, and one before a row whose close is not a number.\<close>

theorem malformed_rows_isolated_witness:
  "store_rows demo_runner demo_row demo_cursor demo_auth 5 [bad_row] 0 0 (rt_sess demo_rt) = (Inr (0, 1), rt_sess demo_rt)
   \<and> store_rows demo_runner demo_row demo_cursor demo_auth 5 [bad_row, good_row\<lparr>raw_close := NaN\<rparr>, good_row] 0 0 (rt_sess demo_rt)
     = (Inl InvalidOperation, rt_sess demo_rt)"
proof -
  have "\<not> well_formed (cur_external_listing_id demo_cursor) (cur_start demo_cursor) (cur_end demo_cursor) bad_row"
    "\<not> undecided (cur_external_listing_id demo_cursor) (cur_start demo_cursor) (cur_end demo_cursor) bad_row"
    by (simp_all add: well_formed_def undecided_def bad_row_def matches_currency_def)
  moreover have "undecided (cur_external_listing_id demo_cursor) (cur_start demo_cursor) (cur_end demo_cursor) (good_row\<lparr>raw_close := NaN\<rparr>)"
    by (simp add: undecided_def good_row_fields demo_cursor_fields matches_currency_def is_upper_def)
  ultimately show ?thesis
    by (intro conjI; subst malformed_rows_isolated) (simp_all add: Let_def)
qed

lemma good_row_valid: "well_formed (cur_external_listing_id demo_cursor) (cur_start demo_cursor) (cur_end demo_cursor) good_row"
  by (simp add: well_formed_def demo_cursor_fields good_row_fields matches_currency_def is_upper_def positive_close_def)

lemma good_row_kept: "kept_by (column demo_runner) (row_input demo_row 7 demo_cursor demo_auth 5 good_row)"
  by (simp add: kept_by_def row_input_def good_row_fields demo_runner_fields List.map_filter_def)

lemma demo_refers: "refers 7 demo_auth (rt_sess demo_rt)"
  by (simp add: refers_def fk_holds_def demo_fields)

theorem refetch_stores_nothing_witness:
  "fst (store_rows demo_runner demo_row demo_cursor demo_auth 9 [good_row] 0 0
      (snd (store_rows demo_runner demo_row demo_cursor demo_auth 5 [good_row] 0 0 (rt_sess demo_rt)))) = Inr (0, 0)"
proof -
  have "other_writers demo_runner = no_rivals" "job_listing_id demo_row = Some 7" by (simp_all add: demo_facts)
  from refetch_stores_nothing [OF this demo_fresh_ids demo_refers, of demo_cursor "[good_row]" 5, OF _ _ _ surjective_pairing]
  show ?thesis using good_row_valid good_row_kept by simp
qed

text \<open>
  A limit of the rejection rule. A job is failed as \<open>all_malformed\<close> when it recorded nothing and
  rejected something, and rows that the store already has count as nothing: an answer whose valid
  rows are all stored fails the job for a single malformed row, again and again.
\<close>

theorem known_rows_count_as_malformed:
  assumes "ready R rt w r c l st" and "quota_laws (quota R)" and "answer R rt c = Inr raws"
    and "ok = well_formed (cur_external_listing_id c) (cur_start c) (cur_end c)"
    and "list_all (\<lambda>raw. raw_close raw \<noteq> NaN) raws" and "list_ex (\<lambda>raw. \<not> ok raw) raws"
    and "list_all (\<lambda>raw. duplicate_of (rt_sess rt) (row_input r l c demo_auth now raw) \<noteq> None) (filter ok raws)"
    and "process R (job_id r) w (Some now) rt = (x, rt')"
  shows "x = Inr \<lparr>jo_status = (if max_attempts r \<le> attempt_count r + 1 then FAILED else PENDING),
      observations_recorded = 0, observations_rejected = length (filter (\<lambda>raw. \<not> ok raw) raws), detail = ''all_malformed''\<rparr>
    \<and> observations (work (rt_sess rt')) = observations (work (rt_sess rt))"
proof -
  let ?r1 = "running (utcnow (rt_sess rt)) r" and ?s = "rt_sess (started rt r)" and ?bad = "filter (\<lambda>raw. \<not> ok raw) raws"
  have claim: "holds_claim w rt r" and alone: "\<And>n s. meanwhile R n s = s"
    and l: "job_listing_id ?r1 = Some l" and check: "quota_check (quota R) (job_source r) (rt_quota rt) = Inr st" "0 < qs_remaining st"
    using assms(1) by (simp_all add: ready_def undisturbed_def)
  obtain auth where auth: "process R (job_id r) w (Some now) rt = fetch_and_store R (job_id r) w (generation r) now c auth (started rt r)"
    using ready_process [OF assms(1), of now] by blast
  obtain st' q where quota: "quota_consume (quota R) (job_source r) 1 (rt_quota rt) = (Inr st', q)"
    using quota_laws.takes [OF assms(2) check(1), of 1] check(2) by (auto simp: exhausted_def)
  have "duplicate_of ?s d = duplicate_of (rt_sess rt) d" for d
    by (simp add: duplicate_of_def current_revision_def)
  then have "duplicate_of ?s (row_input ?r1 l c auth now raw) \<noteq> None" if "raw \<in> set (filter ok raws)" for raw
    using assms(7) that duplicate_of_row [of "rt_sess rt" r l c auth now raw demo_auth now] by (auto simp: list_all_iff)
  then have "store_rows R ?r1 c auth now (filter ok raws) 0 0 ?s = (Inr (0, 0), ?s)"
    using assms(4) by (intro store_rows_known [OF l]) auto
  then have stored: "store_rows R ?r1 c auth now raws 0 0 ?s = (Inr (0, length ?bad), ?s)"
    using store_rows_filter [of raws R ?r1 c auth now 0 0 ?s] assms(4,5) by (simp add: list_all_iff Let_def)
  have "0 < length ?bad" using assms(6) by (auto simp: list_ex_iff filter_empty_conv)
  from finish_malformed [OF claim refl this, of now "length raws" c q] fetch_answered [OF claim alone assms(3) quota, where now = now and auth = auth]
    stored auth assms(8)
  show ?thesis by auto
qed

text \<open>The demo job again, over a store that has the day's row already, and an answer with a bad row.\<close>

definition known_rt :: "quota_book rt" where
  "known_rt = demo_rt\<lparr>rt_sess := on_observations
     (\<lambda>os. [candidate (\<lambda>x. x) (row_input demo_row 7 demo_cursor demo_auth 5 good_row) 1 (rt_sess demo_rt)]) (drawn (rt_sess demo_rt))\<rparr>"

definition mixed_runner :: "quota_book runner" where
  "mixed_runner = demo_runner\<lparr>provider := (\<lambda>n ext a b. Returned [good_row, bad_row] 0 100)\<rparr>"

lemma known_ready: "ready mixed_runner known_rt ''w'' demo_row demo_cursor 7
    \<lparr>qs_source = ''fake'', qs_remaining = 5, qs_limit = 5, qs_reset_at = None\<rparr>"
proof -
  have "fresh_ids (rt_sess known_rt)"
    by (simp add: fresh_ids_def known_rt_def demo_fields uuid4_def inj_def)
  moreover have "newest_approved (rt_sess known_rt) source cap = newest_approved (rt_sess demo_rt) source cap" for source cap
    unfolding newest_approved_iff [symmetric] by (simp add: effective_status_def effective_decision_def known_rt_def)
  ultimately show ?thesis
    using demo_ready by (simp add: ready_def mixed_runner_def undisturbed_def holds_claim_def shows_row_def fk_holds_def)
      (simp add: known_rt_def demo_fields)
qed

theorem known_rows_count_as_malformed_witness:
  "\<exists>st. fst (process mixed_runner (job_id demo_row) ''w'' (Some 5) known_rt)
     = Inr \<lparr>jo_status = st, observations_recorded = 0, observations_rejected = 1, detail = ''all_malformed''\<rparr>"
proof -
  have bad: "\<not> well_formed (cur_external_listing_id demo_cursor) (cur_start demo_cursor) (cur_end demo_cursor) bad_row"
    by (simp add: well_formed_def bad_row_def matches_currency_def)
  have laws: "quota_laws (quota mixed_runner)"
    using fake_quota_laws.quota_laws_axioms by (simp add: mixed_runner_def demo_runner_fields)
  have ans: "answer mixed_runner known_rt demo_cursor = Inr [good_row, bad_row]"
    by (simp add: answer_def mixed_runner_def demo_runner_fields run_with_deadline_def)
  let ?d = "row_input demo_row 7 demo_cursor demo_auth 5 good_row"
  have "current_revision (rt_sess known_rt) ?d = Some (candidate (\<lambda>x. x) ?d 1 (rt_sess demo_rt))"
    by (simp add: current_revision_log effective_of_def known_rt_def)
  moreover have "same_value (candidate (\<lambda>x. x) ?d 1 (rt_sess demo_rt)) ?d"
    using same_value_candidate [of "\<lambda>x. x" ?d] good_row_kept by (simp add: demo_runner_fields)
  ultimately have "duplicate_of (rt_sess known_rt) ?d \<noteq> None" by (simp add: duplicate_of_def)
  with known_rows_count_as_malformed [OF known_ready laws ans refl, OF _ _ _ surjective_pairing, of 5] bad good_row_valid
  show ?thesis by (simp add: good_row_fields) (simp add: bad_row_def fake_observation_def Let_def)
qed

text \<open>
  A limit of the isolation. A row whose close is not a number passes for neither valid nor
  malformed: comparing it raises \<open>InvalidOperation\<close>, which ends the processing with the job still
  \<open>RUNNING\<close>, and no row that follows it is stored.
\<close>

theorem nan_row_aborts:
  assumes "ready R rt w r c l st" and "quota_laws (quota R)" and "answer R rt c = Inr (raw # raws)"
    and "raw_external_listing_id raw = cur_external_listing_id c" and "cur_start c \<le> raw_session_date raw"
    and "raw_session_date raw \<le> cur_end c" and "currency_code (raw_currency raw)" and "raw_close raw = NaN"
    and "process R (job_id r) w (Some now) rt = (x, rt')"
  shows "x = Inl InvalidOperation \<and> observations (work (rt_sess rt')) = observations (work (rt_sess rt))
    \<and> jobs (work (rt_sess rt')) = update_where (\<lambda>q. q = r) (running (utcnow (rt_sess rt))) (jobs (work (rt_sess rt)))"
proof -
  have claim: "holds_claim w rt r" and alone: "\<And>n s. meanwhile R n s = s"
    and check: "quota_check (quota R) (job_source r) (rt_quota rt) = Inr st" "0 < qs_remaining st"
    using assms(1) by (simp_all add: ready_def undisturbed_def)
  obtain auth where auth: "process R (job_id r) w (Some now) rt = fetch_and_store R (job_id r) w (generation r) now c auth (started rt r)"
    using ready_process [OF assms(1), of now] by blast
  obtain st' q where quota: "quota_consume (quota R) (job_source r) 1 (rt_quota rt) = (Inr st', q)"
    using quota_laws.takes [OF assms(2) check(1), of 1] check(2) by (auto simp: exhausted_def)
  have "validate_raw_observation raw (cur_external_listing_id c) (cur_start c) (cur_end c) = Inl InvalidOperation"
    using assms(4-8) by (simp add: validate_raw_observation_def matches_currency_code)
  then have "store_rows R (running (utcnow (rt_sess rt)) r) c auth now (raw # raws) 0 0 s = (Inl InvalidOperation, s)" for s
    by (rule store_rows_crash)
  with fetch_answered [OF claim alone assms(3) quota, where now = now and auth = auth] auth assms(9)
  show ?thesis by auto
qed

definition nan_runner :: "quota_book runner" where
  "nan_runner = demo_runner\<lparr>provider := (\<lambda>n ext a b. Returned [good_row\<lparr>raw_close := NaN\<rparr>, good_row] 0 100)\<rparr>"

theorem nan_row_aborts_witness:
  "fst (process nan_runner (job_id demo_row) ''w'' (Some 5) demo_rt) = Inl InvalidOperation"
proof -
  have nan_ready: "ready nan_runner demo_rt ''w'' demo_row demo_cursor 7
      \<lparr>qs_source = ''fake'', qs_remaining = 5, qs_limit = 5, qs_reset_at = None\<rparr>"
    using demo_ready by (simp add: ready_def nan_runner_def undisturbed_def)
  have laws: "quota_laws (quota nan_runner)"
    using fake_quota_laws.quota_laws_axioms by (simp add: nan_runner_def demo_runner_fields)
  have ans: "answer nan_runner demo_rt demo_cursor = Inr [good_row\<lparr>raw_close := NaN\<rparr>, good_row]"
    by (simp add: answer_def nan_runner_def demo_runner_fields run_with_deadline_def)
  from nan_row_aborts [OF nan_ready laws ans _ _ _ _ _ surjective_pairing, of 5] show ?thesis
    by (simp add: good_row_fields demo_cursor_fields currency_code_def is_upper_def)
qed

theorem provider_call_guarded_witness:
  "rt_calls (snd (process demo_runner 1 ''w'' (Some 5) demo_rt)) = [demo_cursor]"
proof -
  let ?after = "snd (process demo_runner 1 ''w'' (Some 5) demo_rt)"
  have row: "demo_row \<in> set (jobs (work (rt_sess demo_rt)))" "job_id demo_row = 1" by (simp_all add: demo_facts)
  have laws: "quota_laws (quota demo_runner)" using fake_quota_laws.quota_laws_axioms by (simp add: demo_runner_fields)
  from healthy_job [OF demo_ready laws fake_prices.historical_port_axioms demo_answer surjective_pairing, of 5]
  obtain st' where st: "quota_check (quota demo_runner) (job_source demo_row) (rt_quota ?after) = Inr st'" "qs_remaining st' = 4"
    by (auto simp: demo_job_fields)
  have "\<not> same_store demo_rt ?after"
  proof
    assume "same_store demo_rt ?after"
    with st(1) demo_quota have "st' = \<lparr>qs_source = ''fake'', qs_remaining = 5, qs_limit = 5, qs_reset_at = None\<rparr>"
      by (simp add: same_store_def demo_runner_fields demo_job_fields)
    with st(2) show False by simp
  qed
  with provider_call_guarded [OF surjective_pairing demo_objects row, of demo_runner "''w''" "Some 5"]
  show ?thesis by (auto simp: demo_job_fields demo_cursor_parsed demo_fields)
qed

text \<open>The row of the provider for the one day of the window is stored, and it is all that is stored.\<close>

theorem stored_rows_validated_witness:
  "observations (work (rt_sess (snd (process demo_runner 1 ''w'' (Some 5) demo_rt)))) \<noteq> []
   \<and> list_all (\<lambda>ob. obs_source ob = ''fake'' \<and> obs_close ob = Fin 10 \<and> storage_policy_decision_id ob = Some 3)
       (observations (work (rt_sess (snd (process demo_runner 1 ''w'' (Some 5) demo_rt)))))"
proof -
  let ?after = "snd (process demo_runner 1 ''w'' (Some 5) demo_rt)"
  have rows: "fake_fetch_range (\<lambda>seed. 0) ''X'' 738000 738000 = [good_row]"
    by (simp add: fake_fetch_range_def good_row_def weekday_def)
  have row: "demo_row \<in> set (jobs (work (rt_sess demo_rt)))" "job_id demo_row = 1" by (simp_all add: demo_facts)
  have laws: "quota_laws (quota demo_runner)" using fake_quota_laws.quota_laws_axioms by (simp add: demo_runner_fields)
  have "duplicate_of (rt_sess ?after) (row_input demo_row 7 demo_cursor demo_auth 5 good_row) \<noteq> None"
    using healthy_job [OF demo_ready laws fake_prices.historical_port_axioms demo_answer surjective_pairing, of 5] good_row_kept
    by (auto simp: rows demo_cursor_fields demo_job_fields)
  then have "observations (work (rt_sess ?after)) \<noteq> []"
    by (auto simp: duplicate_of_def current_revision_def)
  moreover have "list_all (\<lambda>ob. obs_source ob = ''fake'' \<and> obs_close ob = Fin 10 \<and> storage_policy_decision_id ob = Some 3)
       (observations (work (rt_sess ?after)))"
    using stored_rows_validated [OF surjective_pairing demo_objects row undisturbed_bystanders [OF demo_undisturbed], of "''w''" 5]
      demo_authorized [of "rt_sess demo_rt"] demo_answer
    by (auto simp: demo_facts stored_from_def natural_key_def demo_auth_def sample_decision_def demo_cursor_parsed rows
        list_all_iff good_row_fields)
  ultimately show ?thesis ..
qed

end
