(* ===== verification/Cycle.thy ===== *)
theory Cycle
  imports Refresh Ingestion
begin

text \<open>
  What a whole cycle of the scheduler guarantees (\<open>scheduler_service.py\<close>, \<open>scheduler_runs.py\<close>): its
  record in \<open>scheduler_runs\<close>, what survives a failure, and its bounds.
\<close>

section \<open>The record of a cycle\<close>

lemma on_sess_simps [simp]: "rt_sess (on_sess f rt) = f (rt_sess rt)" "rt_sess (rollback_all rt) = rollback (rt_sess rt)"
  by (simp_all add: on_sess_def rollback_all_def)

lemma record_run:
  assumes "runs_are (rs @ [r]) s" and "run_id r \<notin> set (map run_id rs)"
  shows "runs_are (rs @ [with_code code (r\<lparr>scheduler_status := Some status\<rparr>)])
      (record_scheduler_result (run_id r) status code s)"
    and "runs_are (rs @ [with_code code (r\<lparr>worker_status := Some status, finished_at := Some (utcnow s)\<rparr>)])
      (record_worker_result (run_id r) status code s)"
proof -
  have "update_where (\<lambda>q. run_id q = run_id r) f rs = rs" for f
    using assms(2) by (intro update_where_none) (force simp: image_iff)
  with assms(1) show "runs_are (rs @ [with_code code (r\<lparr>scheduler_status := Some status\<rparr>)])
      (record_scheduler_result (run_id r) status code s)"
    and "runs_are (rs @ [with_code code (r\<lparr>worker_status := Some status, finished_at := Some (utcnow s)\<rparr>)])
      (record_worker_result (run_id r) status code s)"
    by (simp_all add: runs_are_def record_scheduler_result_def record_worker_result_def)
qed

lemma run_fields [simp]:
  "run_id (with_code code r) = run_id r" "scheduler_status (with_code code r) = scheduler_status r"
  "worker_status (with_code code r) = worker_status r" "finished_at (with_code code r) = finished_at r"
  "started_at (with_code code r) = started_at r"
  "run_error_code (with_code code r) = (case code of None \<Rightarrow> run_error_code r | Some c \<Rightarrow> Some c)"
  by (simp_all add: with_code_def split: option.split)

lemma new_run_fields [simp]:
  "run_id (new_run i now) = i" "started_at (new_run i now) = now" "scheduler_status (new_run i now) = None"
  "worker_status (new_run i now) = None" "run_error_code (new_run i now) = None"
  by (simp_all add: new_run_def)

lemma start_run_row:
  assumes "runs_are rs s" and "start_run now s = (i, t)"
  shows "runs_are (rs @ [new_run i now]) t"
  using assms by (auto simp: start_run_def runs_are_def)

text \<open>What other sessions leave alone while a batch is processed.\<close>

definition leave :: "(sess \<Rightarrow> 'a) \<Rightarrow> 'q deployment \<Rightarrow> bool" where
  "leave view D \<longleftrightarrow> (\<forall>n s. view (concurrently D n s) = view s)"

lemma commit_keeps_runs: "runs_are rs s \<Longrightarrow> runs_are rs (commit s)"
  by (simp add: runs_are_def)

lemma rollback_keeps_runs: "runs_are rs s \<Longrightarrow> runs_are rs (rollback s)"
  by (simp add: runs_are_def)

lemma refresh_phase_runs:
  assumes "refresh_phase D st limits n now i rt = (x, rt')" and "runs_are (rs @ [new_run i now]) s0"
    and "i \<notin> set (map run_id rs)" and "s0 = rt_sess rt"
  shows "\<exists>r. runs_are (rs @ [r]) (rt_sess rt') \<and> run_id r = i \<and> started_at r = now
    \<and> (case x of Inr rf \<Rightarrow> fst (refresh_and_dispatch D st limits n now s0) = Inr rf
           \<and> scheduler_status r = Some SUCCESS \<and> run_error_code r = None
       | Inl e \<Rightarrow> fst (refresh_and_dispatch D st limits n now s0) = Inl e
           \<and> scheduler_status r = Some FAILURE \<and> worker_status r = Some FAILURE \<and> finished_at r \<noteq> None
           \<and> run_error_code r = Some (adapter_error_code e))"
proof -
  obtain y s where s: "refresh_and_dispatch D st limits n now s0 = (y, s)" by fastforce
  note run = assms(1) [unfolded refresh_phase_def in_session_def, folded assms(4)]
  have rs: "runs_are (rs @ [new_run i now]) s" using keepsD [OF run_rows.refresh_kept s assms(2)] .
  have i: "run_id (new_run i now) \<notin> set (map run_id rs)" using assms(3) by simp
  show ?thesis
  proof (cases y)
    case (Inr rf)
    with run s have "x = Inr rf" "rt_sess rt' = record_scheduler_result i SUCCESS None (commit s)"
      by auto
    with record_run(1) [OF commit_keeps_runs [OF rs] i, of None SUCCESS] s Inr show ?thesis
      by (auto simp: with_code_def intro!: exI)
  next
    case (Inl e)
    let ?r = "with_code (Some (adapter_error_code e)) ((new_run i now)\<lparr>scheduler_status := Some FAILURE\<rparr>)"
    let ?s1 = "record_scheduler_result i FAILURE (Some (adapter_error_code e)) (rollback s)"
    have 1: "runs_are (rs @ [?r]) ?s1"
      using record_run(1) [OF rollback_keeps_runs [OF rs] i, of "Some (adapter_error_code e)" FAILURE] by simp
    moreover have "run_id ?r \<notin> set (map run_id rs)" using assms(3) by simp
    ultimately have "runs_are (rs @ [with_code None (?r\<lparr>worker_status := Some FAILURE, finished_at := Some (utcnow ?s1)\<rparr>)])
        (record_worker_result i FAILURE None ?s1)"
      using record_run(2) [of rs ?r ?s1 None FAILURE] by simp
    moreover have "x = Inl e" "rt_sess rt' = record_worker_result i FAILURE None ?s1"
      using run s Inl by auto
    ultimately show ?thesis using s Inl by (intro exI [of _ "with_code None (?r\<lparr>worker_status := Some FAILURE, finished_at := Some (utcnow ?s1)\<rparr>)"]) (simp add: with_code_def)
  qed
qed

text \<open>
  C8. Every end of a cycle is on record. Whether it returns or raises, one row more is durable in
  \<open>scheduler_runs\<close>, finished; a cycle that returns has both phases \<open>SUCCESS\<close>, one that raises has the
  worker phase \<open>FAILURE\<close> with the code of the exception, and the scheduler phase is \<open>SUCCESS\<close> exactly
  when the refresh had succeeded.
\<close>

theorem cycle_recorded:
  assumes "run_scheduler_cycle D st limits n w now rt = (x, rt')"
    and "runs_are rs (rt_sess rt)" and "uuid4 (rt_sess rt) \<notin> set (map run_id rs)"
    and "leave (\<lambda>s. (runs (work s), runs (durable s))) D"
  shows "\<exists>r. runs (durable (rt_sess rt')) = rs @ [r] \<and> started_at r = now \<and> finished_at r \<noteq> None
    \<and> worker_status r = Some (case x of Inr res \<Rightarrow> SUCCESS | Inl e \<Rightarrow> FAILURE)
    \<and> run_error_code r = (case x of Inr res \<Rightarrow> None | Inl e \<Rightarrow> Some (adapter_error_code e))
    \<and> scheduler_status r = Some (case fst (refresh_and_dispatch D st limits n now (snd (start_run now (rt_sess rt)))) of
        Inr rf \<Rightarrow> SUCCESS | Inl e \<Rightarrow> FAILURE)"
proof -
  obtain i s where start: "start_run now (rt_sess rt) = (i, s)" by fastforce
  have rs: "runs_are (rs @ [new_run i now]) s" using start_run_row [OF assms(2) start] .
  have i: "i \<notin> set (map run_id rs)" using assms(3) start by (simp add: start_run_def)
  let ?rt0 = "rt\<lparr>rt_sess := s\<rparr>"
  obtain y rt1 where one: "refresh_phase D st limits n now i ?rt0 = (y, rt1)" by fastforce
  from refresh_phase_runs [OF one rs i] obtain r where
    r: "runs_are (rs @ [r]) (rt_sess rt1)" "run_id r = i" "started_at r = now"
      "case y of Inr rf \<Rightarrow> fst (refresh_and_dispatch D st limits n now s) = Inr rf
           \<and> scheduler_status r = Some SUCCESS \<and> run_error_code r = None
       | Inl e \<Rightarrow> fst (refresh_and_dispatch D st limits n now s) = Inl e
           \<and> scheduler_status r = Some FAILURE \<and> worker_status r = Some FAILURE \<and> finished_at r \<noteq> None
           \<and> run_error_code r = Some (adapter_error_code e)" by auto
  show ?thesis
  proof (cases y)
    case (Inl e)
    with assms(1) start one have "x = Inl e" "rt' = rt1" by (simp_all add: run_scheduler_cycle_def andthen_def)
    with r Inl start show ?thesis by (auto simp: runs_are_def)
  next
    case (Inr rf)
    with assms(1) start one have two: "processing_phase D st w now i rf rt1 = (x, rt')"
      by (simp add: run_scheduler_cycle_def andthen_def)
    obtain z rt2 where z: "claim_and_process D st w now (nat (scheduler_batch_size st)) rt1 = (z, rt2)" by fastforce
    have "runs_are q (concurrently D k u)" if "runs_are q u" for q k u
      using assms(4) that by (simp add: leave_def runs_are_def)
    from keepsD [OF run_rows.claim_and_process_kept [OF this TrueI] z r(1)]
    have rs2: "runs_are (rs @ [r]) (rt_sess rt2)" .
    have ir: "run_id r \<notin> set (map run_id rs)" using i r(2) by simp
    show ?thesis
    proof (cases z)
      case (Inl e)
      with two z have "x = Inl e"
        "rt_sess rt' = record_worker_result i FAILURE (Some (adapter_error_code e)) (rollback (rt_sess rt2))"
        by (auto simp: processing_phase_def)
      with record_run(2) [OF rollback_keeps_runs [OF rs2] ir, of "Some (adapter_error_code e)" FAILURE] r Inr start
      show ?thesis by (auto simp: runs_are_def)
    next
      case (Inr counts)
      with two z have "x = Inr \<lparr>refreshed_part = rf, processed_part = counts\<rparr>"
        "rt_sess rt' = record_worker_result i SUCCESS None (commit (rt_sess rt2))"
        by (auto simp: processing_phase_def)
      with record_run(2) [OF commit_keeps_runs [OF rs2] ir, of None SUCCESS] r \<open>y = Inr rf\<close> start
      show ?thesis by (auto simp: runs_are_def)
    qed
  qed
qed

text \<open>
  C10. What the refresh dispatched survives. When the refresh phase succeeded, every job that it left
  in the queue is durable at the end of the cycle, also of one whose processing raised and was rolled
  back, unless another session removes jobs.
\<close>

theorem refresh_survives:
  assumes "run_scheduler_cycle D st limits n w now rt = (x, rt')"
    and "refresh_and_dispatch D st limits n now (snd (start_run now (rt_sess rt))) = (Inr rf, s)"
    and "\<And>k u. job_names (work u) \<subseteq> job_names (work (concurrently D k u))"
    and "\<And>k u. job_names (durable u) \<subseteq> job_names (durable (concurrently D k u))"
  shows "job_names (work s) \<subseteq> job_names (durable (rt_sess rt'))"
proof -
  let ?names = "job_names (work s)"
  obtain i s0 where start: "start_run now (rt_sess rt) = (i, s0)" by fastforce
  let ?rt1 = "on_sess (record_scheduler_result i SUCCESS None) (on_sess commit (rt\<lparr>rt_sess := s\<rparr>))"
  have "refresh_phase D st limits n now i (rt\<lparr>rt_sess := s0\<rparr>) = (Inr rf, ?rt1)"
    using assms(2) start by (simp add: refresh_phase_def in_session_def)
  with assms(1) start have two: "processing_phase D st w now i rf ?rt1 = (x, rt')"
    by (simp add: run_scheduler_cycle_def andthen_def)
  have P1: "jobs_present ?names (rt_sess ?rt1)" by (simp add: jobs_present_def record_scheduler_result_def)
  obtain z rt2 where z: "claim_and_process D st w now (nat (scheduler_batch_size st)) ?rt1 = (z, rt2)" by fastforce
  have "jobs_present ?names (concurrently D k u)" if "jobs_present ?names u" for k u
    using assms(3) [of u k] assms(4) [of u k] that unfolding jobs_present_def by blast
  from keepsD [OF job_rows.claim_and_process_kept [OF this TrueI] z P1] have "jobs_present ?names (rt_sess rt2)" .
  then have "jobs_present ?names (rt_sess rt')"
    using two z by (cases z) (auto simp: processing_phase_def jobs_present_def record_worker_result_def)
  then show ?thesis by (simp add: jobs_present_def)
qed

section \<open>A cycle is bounded\<close>

text \<open>At most \<open>k\<close> provider calls.\<close>

definition calls_within :: "nat \<Rightarrow> ('q, 'a) run \<Rightarrow> bool" where
  "calls_within k m \<longleftrightarrow> (\<forall>rt x rt'. m rt = (x, rt') \<longrightarrow> length (rt_calls rt') \<le> length (rt_calls rt) + k)"

lemma calls_withinD: "calls_within k m \<Longrightarrow> m rt = (x, rt') \<Longrightarrow> length (rt_calls rt') \<le> length (rt_calls rt) + k"
  unfolding calls_within_def by blast

lemma calls_within_aside: "aside m \<Longrightarrow> calls_within 0 m"
  unfolding calls_within_def using calls_aside by fastforce

lemma calls_within_mono: "calls_within k m \<Longrightarrow> k \<le> k' \<Longrightarrow> calls_within k' m"
  unfolding calls_within_def using add_left_mono le_trans by blast

lemma calls_within_andthen:
  assumes "calls_within a m" and "\<And>x. calls_within b (f x)"
  shows "calls_within (a + b) (andthen m f)"
  unfolding calls_within_def
proof (intro allI impI)
  fix rt x rt'
  assume run: "andthen m f rt = (x, rt')"
  obtain y rt1 where 1: "m rt = (y, rt1)" by fastforce
  note calls_withinD [OF assms(1) 1]
  moreover have "length (rt_calls rt') \<le> length (rt_calls rt1) + b"
    using run 1 calls_withinD [OF assms(2)] by (cases y) (auto simp: andthen_def)
  ultimately show "length (rt_calls rt') \<le> length (rt_calls rt) + (a + b)" by linarith
qed

lemma aside_tally [simp]: "aside (tally i out oc)"
  by (simp add: tally_def aside_andthen)

lemma aside_isolate [simp]: "aside (isolate_failure w now i e)"
  unfolding isolate_failure_def by (intro aside_andthen aside_the_job aside_transition) simp

lemma fetch_calls: "calls_within 1 (fetch_and_store R i w g now c auth)"
  unfolding calls_within_def using fetch_and_store_calls by fastforce

lemma authorize_calls: "calls_within 1 (authorize_and_parse R j w now)"
  unfolding calls_within_def
proof (intro allI impI)
  fix rt x rt'
  assume "authorize_and_parse R j w now rt = (x, rt')"
  then show "length (rt_calls rt') \<le> length (rt_calls rt) + 1"
  proof (cases rule: authorize_cases)
    case stopped
    then show ?thesis by (simp add: same_store_def)
  next
    case (fetching auth cursor st rt1)
    have "rt_calls rt1 = rt_calls rt" using calls_aside [OF aside_transition fetching(5)] by simp
    with calls_withinD [OF fetch_calls fetching(6)] show ?thesis by simp
  qed
qed

lemma process_calls: "calls_within 1 (process R i w at1)"
proof -
  have "calls_within (0 + (0 + 1)) (andthen (the_job i) (\<lambda>j0. andthen (claim_pending R j0 w now)
      (\<lambda>j. authorize_and_parse R j w now)))" for now
    by (intro calls_within_andthen calls_within_aside aside_the_job aside_claim_pending authorize_calls)
  then show ?thesis by (auto simp: process_def [abs_def] Let_def calls_within_def)
qed

lemma process_step_calls: "calls_within 1 (process_step D st w now i oc)"
  unfolding calls_within_def
proof (intro allI impI)
  fix rt x rt'
  assume run: "process_step D st w now i oc rt = (x, rt')"
  obtain y rt1 where one: "process_one D st w now i rt = (y, rt1)" by fastforce
  have inner: "calls_within 1 (case ports_of D (job_source j) of Inl e \<Rightarrow> throw e
      | Inr ports \<Rightarrow> process (runner_for D st ports) i w (Some now))" for j
  proof (cases "ports_of D (job_source j)")
    case (Inl e)
    then show ?thesis by (simp add: calls_within_def)
  next
    case (Inr ports)
    then show ?thesis using process_calls [of "runner_for D st ports" i w "Some now"] by simp
  qed
  have "calls_within (0 + 1) (process_one D st w now i)"
    unfolding process_one_def by (intro calls_within_andthen calls_within_aside aside_the_job inner)
  from calls_withinD [OF this one] have "length (rt_calls rt1) \<le> length (rt_calls rt) + 1" by simp
  moreover have failing: "aside (andthen (isolate_failure w now i e) (\<lambda>j. ret (count_failure (job_status j) oc)))" for e
    by (intro aside_andthen aside_isolate aside_ret)
  have "rt_calls rt' = rt_calls rt1"
    using run one calls_aside [OF failing] calls_aside [OF aside_tally]
    by (auto simp: process_step_def split: sum.splits exn.splits)
  ultimately show "length (rt_calls rt') \<le> length (rt_calls rt) + 1" by simp
qed

lemma process_each_calls: "calls_within (length is) (process_each D st w now is oc)"
proof (induction "is" arbitrary: oc)
  case (Cons i "is")
  from calls_within_andthen [OF process_step_calls Cons.IH] show ?case by simp
qed (simp add: calls_within_def)

lemma claim_each_length:
  "claim_each lk w now limit ids claimed s = (Inr js, t) \<Longrightarrow> length claimed \<le> limit \<Longrightarrow> length js \<le> limit"
proof (induction ids arbitrary: claimed s)
  case (Cons i ids)
  obtain y u where "try_claim_one lk i w now s = (y, u)" by fastforce
  with Cons show ?case by (auto split: if_splits sum.splits option.splits)
qed simp

lemma claim_next_length: "claim_next lk w now source limit lease s = (Inr js, t) \<Longrightarrow> length js \<le> limit"
  unfolding claim_next_def using claim_each_length [of lk w now limit _ "[]"] by (auto simp: andthen_eq_Inr)

definition ended :: "process_outcome \<Rightarrow> nat" where
  "ended oc = jobs_done oc + jobs_waiting oc + jobs_deferred_quota oc + jobs_failed_terminal oc + jobs_retrying oc"

lemma process_step_ended:
  assumes "process_step D st w now i oc rt = (Inr oc', rt')"
  shows "ended oc' \<le> ended oc + 1 \<and> jobs_claimed oc' = jobs_claimed oc"
proof -
  have s: "ended (count_status q oc) \<le> ended oc + 1 \<and> jobs_claimed (count_status q oc) = jobs_claimed oc" for q
    by (cases q) (simp_all add: ended_def)
  have f: "ended (count_failure q oc) \<le> ended oc + 1 \<and> jobs_claimed (count_failure q oc) = jobs_claimed oc" for q
    by (cases q) (simp_all add: ended_def count_failure_def)
  have t: "ended oc' \<le> ended oc + 1 \<and> jobs_claimed oc' = jobs_claimed oc"
    if "tally i out oc r = (Inr oc', r')" for out r r'
    using that s by (auto simp: tally_def andthen_eq_Inr ended_def split: if_splits)
  from assms show ?thesis
    using t f by (auto simp: process_step_def andthen_eq_Inr split: prod.splits sum.splits exn.splits)
qed

lemma process_each_ended:
  "process_each D st w now is oc rt = (Inr oc', rt') \<Longrightarrow>
     ended oc' \<le> ended oc + length is \<and> jobs_claimed oc' = jobs_claimed oc"
proof (induction "is" arbitrary: oc rt)
  case (Cons i "is")
  then obtain oc1 rt1 where 1: "process_step D st w now i oc rt = (Inr oc1, rt1)"
    "process_each D st w now is oc1 rt1 = (Inr oc', rt')" by (auto simp: andthen_eq_Inr)
  from process_step_ended [OF 1(1)] Cons.IH [OF 1(2)] show ?case by auto
qed simp

text \<open>
  A batch is bounded and its report consistent. A batch that returns has claimed at most as many
  jobs as the size allows, has called providers at most once per claimed job, and its counters
  together count no job twice.
\<close>

theorem batch_is_bounded:
  assumes "claim_and_process D st w now n rt = (Inr oc, rt')"
  shows "jobs_claimed oc \<le> n
    \<and> jobs_done oc + jobs_waiting oc + jobs_deferred_quota oc + jobs_failed_terminal oc + jobs_retrying oc \<le> jobs_claimed oc
    \<and> length (rt_calls rt') \<le> length (rt_calls rt) + jobs_claimed oc"
proof -
  from assms obtain "is" rt1 where c: "claim_batch D st w now n rt = (Inr is, rt1)"
    "process_each D st w now is (claimed_only (length is)) rt1 = (Inr oc, rt')"
    by (auto simp: claim_and_process_def andthen_eq_Inr)
  from c(1) have "length is \<le> n" "rt_calls rt1 = rt_calls rt"
    using claim_next_length by (auto simp: claim_batch_def andthen_eq_Inr in_session_def split: prod.splits)
  with process_each_ended [OF c(2)] calls_withinD [OF process_each_calls c(2)] show ?thesis
    by (simp add: ended_def claimed_only_def)
qed

section \<open>A due job is done\<close>

lemma process_step_done:
  assumes "ready (runner_for D st ports) rt w r c l q" and "ports_of D (job_source r) = Inr ports"
    and "rt_loaded rt (job_id r) = Some r" and "quota_laws (snd ports)" and "historical_port f"
    and "answer (runner_for D st ports) rt c = Inr (f (cur_external_listing_id c) (cur_start c) (cur_end c))"
  shows "\<exists>rt'. process_step D st w now (job_id r) oc rt = (Inr (oc\<lparr>jobs_done := jobs_done oc + 1\<rparr>), rt')
    \<and> jobs (work (rt_sess rt')) = update_where (\<lambda>q. q = r)
         (\<lambda>q. q\<lparr>job_status := DONE, last_error := None, job_updated_at := now\<rparr>) (jobs (work (rt_sess rt)))
    \<and> (\<exists>x. process (runner_for D st ports) (job_id r) w (Some now) rt = (x, rt'))"
proof -
  let ?R = "runner_for D st ports" and ?done = "\<lambda>q. q\<lparr>job_status := DONE, last_error := None, job_updated_at := now\<rparr>"
  obtain x rt1 where x: "process ?R (job_id r) w (Some now) rt = (x, rt1)" by fastforce
  have laws: "quota_laws (quota ?R)" using assms(4) by (simp add: runner_for_def)
  obtain k where k: "x = Inr \<lparr>jo_status = DONE, observations_recorded = k, observations_rejected = 0, detail = ''done''\<rparr>"
    "jobs (work (rt_sess rt1)) = update_where (\<lambda>q. q = r) ?done (jobs (work (rt_sess rt)))"
    "\<exists>q. rt_loaded rt1 (job_id r) = Some q \<and> job_status q = DONE"
    using healthy_job [OF assms(1) laws assms(5,6) x] by blast
  have "the_job (job_id r) rt = (Inr r, rt)" using assms(3) by (simp add: the_job_def)
  with assms(2) x k(1) have one: "process_one D st w now (job_id r) rt
      = (Inr \<lparr>jo_status = DONE, observations_recorded = k, observations_rejected = 0, detail = ''done''\<rparr>, rt1)"
    by (simp add: process_one_def andthen_def)
  with x k k(3) show ?thesis
    by (auto simp: process_step_def tally_def andthen_def the_job_def)
qed

text \<open>Everything that the job \<open>j\<close> needs to be fetched, with nobody else at work.\<close>

definition deliverable :: "'q deployment \<Rightarrow> settings \<Rightarrow> 'q rt \<Rightarrow> job \<Rightarrow> provider_code \<times> 'q quota_port
    \<Rightarrow> (string \<Rightarrow> date \<Rightarrow> date \<Rightarrow> raw_observation list) \<Rightarrow> bool" where
  "deliverable D st rt j ports f \<longleftrightarrow>
     ports_of D (job_source j) = Inr ports \<and> rival_rows D = no_rivals \<and> (\<forall>n s. concurrently D n s = s)
     \<and> newest_approved (rt_sess rt) (job_source j) RETRIEVE \<and> newest_approved (rt_sess rt) (job_source j) STORE
     \<and> fresh_ids (rt_sess rt)
     \<and> (\<exists>c l q. parse_cursor (job_cursor j) = Inr c \<and> job_listing_id j = Some l
          \<and> fk_holds (rt_sess rt) (listing_exists (rt_sess rt) l)
          \<and> quota_check (snd ports) (job_source j) (rt_quota rt) = Inr q \<and> 0 < qs_remaining q
          \<and> run_with_deadline (pipe_size D) (provider_timeout_seconds st)
              (fst ports (length (rt_calls rt)) (cur_external_listing_id c) (cur_start c) (cur_end c))
            = Inr (f (cur_external_listing_id c) (cur_start c) (cur_end c)))"

lemma newest_approved_jobs [simp]:
  "newest_approved (on_jobs g s) source cap = newest_approved s source cap"
  "newest_approved (commit s) source cap = newest_approved s source cap"
  unfolding newest_approved_iff [symmetric] by (simp_all add: effective_status_def effective_decision_def)

lemma claim_batch_one:
  assumes "claimable_jobs now None (refreshed_jobs now (job_lease_seconds st) (jobs (work (rt_sess rt)))) = j # rest"
    and "distinct (map job_id (jobs (work (rt_sess rt))))" and "\<And>i. \<exists>k < lock_retry_attempts. \<not> lock_failures D i k"
    and "deliverable D st rt j ports f"
  obtains rt1 r c l q where "claim_batch D st w now 1 rt = (Inr [job_id j], rt1)" "same_job r j"
    "ready (runner_for D st ports) rt1 w r c l q" "rt_loaded rt1 (job_id r) = Some r"
    "answer (runner_for D st ports) rt1 c = Inr (f (cur_external_listing_id c) (cur_start c) (cur_end c))"
    "r \<in> set (jobs (work (rt_sess rt1)))"
proof -
  let ?s = "rt_sess rt" and ?r = "claimed_row w now (wall (rt_sess rt)) j"
  let ?js = "refreshed_jobs now (job_lease_seconds st) (jobs (work ?s))"
  let ?s1 = "commit (on_jobs (\<lambda>_. update_where (\<lambda>q. q = j) (claimed_row w now (wall ?s)) ?js) ?s)"
  let ?rt1 = "rt\<lparr>rt_sess := ?s1, rt_loaded := (rt_loaded rt)(job_id j \<mapsto> ?r)\<rparr>"
  have "claim_next (lock_failures D) w now None 1 (job_lease_seconds st) ?s = (Inr [?r], ?s1)"
    using claim_next_free [OF assms(3,2), where now = now and source = None and lease = "job_lease_seconds st" and w = w and limit = 1]
      assms(1) by (simp add: Let_def)
  then have batch: "claim_batch D st w now 1 rt = (Inr [job_id j], ?rt1)"
    by (auto simp: claim_batch_def andthen_def in_session_def claimed_row_def fun_eq_iff)
  have ids: "distinct (map job_id ?js)" using assms(2) by simp
  have "j \<in> set (claimable_jobs now None ?js)" using assms(1) by simp
  then have "j \<in> set ?js" by (simp add: claimable_jobs_def)
  then have row: "?r \<in> set (jobs (work ?s1))" by (simp add: in_update_where_image)
  have "map job_id (jobs (work ?s1)) = map job_id ?js" by (simp add: map_update_where claimed_row_def)
  with ids row have claim: "holds_claim w ?rt1 ?r" by (simp add: holds_claim_def shows_row_def claimed_row_def)
  from assms(4) obtain c l q where c: "parse_cursor (job_cursor j) = Inr c" "job_listing_id j = Some l"
    "fk_holds ?s (listing_exists ?s l)" "quota_check (snd ports) (job_source j) (rt_quota rt) = Inr q" "0 < qs_remaining q"
    "run_with_deadline (pipe_size D) (provider_timeout_seconds st)
       (fst ports (length (rt_calls rt)) (cur_external_listing_id c) (cur_start c) (cur_end c))
     = Inr (f (cur_external_listing_id c) (cur_start c) (cur_end c))" by (auto simp: deliverable_def)
  have "undisturbed (runner_for D st ports)" using assms(4) by (simp add: deliverable_def undisturbed_def runner_for_def)
  moreover have "fresh_ids ?s1" using assms(4) by (simp add: deliverable_def fresh_ids_def)
  moreover have "fk_holds ?s1 (listing_exists ?s1 l)" using c(3) by (simp add: fk_holds_def listing_exists_def)
  ultimately have "ready (runner_for D st ports) ?rt1 w ?r c l q"
    using claim c assms(4) by (simp add: ready_def runner_for_def deliverable_def) (simp add: claimed_row_def)
  moreover have "answer (runner_for D st ports) ?rt1 c = Inr (f (cur_external_listing_id c) (cur_start c) (cur_end c))"
    using c(6) by (simp add: answer_def runner_for_def)
  ultimately show ?thesis
    using that [OF batch, of ?r c l q] row by (simp add: claimed_row_def same_job_def)
qed

lemma due_job_run:
  assumes "claimable_jobs now None (refreshed_jobs now (job_lease_seconds st) (jobs (work (rt_sess rt)))) = j # rest"
    and "distinct (map job_id (jobs (work (rt_sess rt))))" and "\<And>i. \<exists>k < lock_retry_attempts. \<not> lock_failures D i k"
    and "deliverable D st rt j ports f" and "quota_laws (snd ports)" and "historical_port f"
  obtains rt1 r c l q x rt' where "claim_batch D st w now 1 rt = (Inr [job_id j], rt1)" "same_job r j"
    "r \<in> set (jobs (work (rt_sess rt1)))" "ready (runner_for D st ports) rt1 w r c l q"
    "answer (runner_for D st ports) rt1 c = Inr (f (cur_external_listing_id c) (cur_start c) (cur_end c))"
    "process (runner_for D st ports) (job_id r) w (Some now) rt1 = (x, rt')"
    "claim_and_process D st w now 1 rt = (Inr ((claimed_only 1)\<lparr>jobs_done := 1\<rparr>), rt')"
    "jobs (work (rt_sess rt')) = update_where (\<lambda>q. q = r)
       (\<lambda>q. q\<lparr>job_status := DONE, last_error := None, job_updated_at := now\<rparr>) (jobs (work (rt_sess rt1)))"
proof -
  obtain rt1 r c l q where r: "claim_batch D st w now 1 rt = (Inr [job_id j], rt1)" "same_job r j"
    "ready (runner_for D st ports) rt1 w r c l q" "rt_loaded rt1 (job_id r) = Some r"
    "answer (runner_for D st ports) rt1 c = Inr (f (cur_external_listing_id c) (cur_start c) (cur_end c))"
    "r \<in> set (jobs (work (rt_sess rt1)))"
    using claim_batch_one [OF assms(1-4)] by blast
  have "ports_of D (job_source r) = Inr ports" using assms(4) r(2) by (simp add: deliverable_def same_job_def)
  from process_step_done [OF r(3) this r(4) assms(5,6) r(5), where now = now and oc = "claimed_only 1"]
  obtain rt' x where rt': "process_step D st w now (job_id r) (claimed_only 1) rt1 = (Inr ((claimed_only 1)\<lparr>jobs_done := 1\<rparr>), rt')"
    "jobs (work (rt_sess rt')) = update_where (\<lambda>q. q = r)
       (\<lambda>q. q\<lparr>job_status := DONE, last_error := None, job_updated_at := now\<rparr>) (jobs (work (rt_sess rt1)))"
    "process (runner_for D st ports) (job_id r) w (Some now) rt1 = (x, rt')"
    by (auto simp: claimed_only_def)
  moreover have "claim_and_process D st w now 1 rt = (Inr ((claimed_only 1)\<lparr>jobs_done := 1\<rparr>), rt')"
    using r(1,2) rt'(1) by (simp add: claim_and_process_def andthen_def same_job_def)
  ultimately show ?thesis using that r by blast
qed

lemma due_job:
  assumes "claimable_jobs now None (refreshed_jobs now (job_lease_seconds st) (jobs (work (rt_sess rt)))) = j # rest"
    and "distinct (map job_id (jobs (work (rt_sess rt))))" and "\<And>i. \<exists>k < lock_retry_attempts. \<not> lock_failures D i k"
    and "deliverable D st rt j ports f" and "quota_laws (snd ports)" and "historical_port f"
  shows "\<exists>rt'. claim_and_process D st w now 1 rt = (Inr ((claimed_only 1)\<lparr>jobs_done := 1\<rparr>), rt')
    \<and> (\<exists>q \<in> set (jobs (work (rt_sess rt'))). job_id q = job_id j \<and> job_status q = DONE)"
proof -
  obtain r js rt' where r: "same_job r j" "r \<in> set js"
    "claim_and_process D st w now 1 rt = (Inr ((claimed_only 1)\<lparr>jobs_done := 1\<rparr>), rt')"
    "jobs (work (rt_sess rt')) = update_where (\<lambda>q. q = r)
       (\<lambda>q. q\<lparr>job_status := DONE, last_error := None, job_updated_at := now\<rparr>) js"
    by (rule due_job_run [where w = w, OF assms]) (rule that)
  have "r\<lparr>job_status := DONE, last_error := None, job_updated_at := now\<rparr> \<in> set (jobs (work (rt_sess rt')))"
    unfolding r(4) using r(2) by (rule in_update_where_image) simp
  with r(1,3) show ?thesis
    by (intro exI [of _ rt'] conjI bexI [of _ "r\<lparr>job_status := DONE, last_error := None, job_updated_at := now\<rparr>"])
      (simp_all add: same_job_def)
qed

text \<open>
  A due job is done. When the oldest job that may be claimed belongs to an approved source whose
  adapters keep their contracts, has a readable cursor and quota left, a batch of one claims it,
  fetches and stores its window, leaves it \<open>DONE\<close> and reports so.
\<close>

theorem due_job_is_done:
  assumes "claimable_jobs now None (refreshed_jobs now (job_lease_seconds st) (jobs (work (rt_sess rt)))) = j # rest"
    and "distinct (map job_id (jobs (work (rt_sess rt))))" and "\<And>i. \<exists>k < lock_retry_attempts. \<not> lock_failures D i k"
    and "deliverable D st rt j ports f" and "quota_laws (snd ports)" and "historical_port f"
  shows "\<exists>rt'. claim_and_process D st w now 1 rt = (Inr ((claimed_only 1)\<lparr>jobs_done := 1\<rparr>), rt')
    \<and> (\<exists>q \<in> set (jobs (work (rt_sess rt'))). job_id q = job_id j \<and> job_status q = DONE)"
  using due_job [OF assms] .

section \<open>Limits\<close>

text \<open>
  Which listings are refreshed never changes. A cycle leaves the identities as they are, and the
  choice among them depends on nothing else: with more valid identities in a source than the limit,
  there is one that no repetition of the cycle considers on that day.
\<close>

theorem excess_listings_starve:
  assumes "run_scheduler_cycle D st limits n w now rt = (x, rt')" and "identities_are xs (rt_sess rt)"
    and "leave (\<lambda>s. (identities (work s), identities (durable s))) D" and "distinct xs"
    and "n < length (filter (valid_identity source today) xs)"
  shows "identities_are xs (rt_sess rt')
    \<and> (\<exists>y \<in> set xs. valid_identity source today y \<and> y \<notin> set (considered source today n (identities (work (rt_sess rt')))))"
proof
  have record_kept: "identities_are xs (record_worker_result i status code s) = identities_are xs (commit s)"
    "identities_are xs (record_scheduler_result i status code s) = identities_are xs (commit s)" for i status code s
    by (simp_all add: identities_are_def record_worker_result_def record_scheduler_result_def)
  have ends: "identities_are xs s \<Longrightarrow> identities_are xs (commit s)" "identities_are xs s \<Longrightarrow> identities_are xs (rollback s)" for s
    by (simp_all add: identities_are_def)
  have other: "identities_are xs (concurrently D k s)" if "identities_are xs s" for k s
    using that assms(3) by (simp add: leave_def identities_are_def)
  obtain i s where start: "start_run now (rt_sess rt) = (i, s)" by fastforce
  then have s: "identities_are xs s" using assms(2) by (auto simp: start_run_def identities_are_def)
  have refresh: "identities_are xs t" if "refresh_and_dispatch D st limits n now s = (y, t)" for y t
    using keepsD [OF identity_rows.refresh_kept that s] .
  have phase: "identities_are xs (rt_sess rt2)"
    if "processing_phase D st w now i rf rt1 = (y, rt2)" "identities_are xs (rt_sess rt1)" for y rf rt1 rt2
    using that keepsD [OF identity_rows.claim_and_process_kept [OF other TrueI] _ that(2)]
    by (auto simp: processing_phase_def record_kept split: prod.splits sum.splits intro!: ends)
  show after: "identities_are xs (rt_sess rt')"
    using assms(1) start refresh
    by (auto simp: run_scheduler_cycle_def refresh_phase_def andthen_def in_session_def record_kept
        split: prod.splits sum.splits intro!: ends elim!: phase)
  let ?valid = "filter (valid_identity source today) xs"
  have "set ?valid \<subseteq> set (considered source today n xs) \<Longrightarrow> length ?valid \<le> n"
  proof -
    assume "set ?valid \<subseteq> set (considered source today n xs)"
    then have "card (set ?valid) \<le> card (set (considered source today n xs))" by (simp add: card_mono)
    also have "\<dots> \<le> length (considered source today n xs)" by (rule card_length)
    also have "\<dots> \<le> n" by (simp add: considered_def)
    finally show "length ?valid \<le> n" using distinct_card [of ?valid] assms(4) by (simp del: set_filter)
  qed
  with assms(5) obtain y where "y \<in> set ?valid" "y \<notin> set (considered source today n xs)" by auto
  with after show "\<exists>y \<in> set xs. valid_identity source today y
      \<and> y \<notin> set (considered source today n (identities (work (rt_sess rt'))))"
    by (auto simp: identities_are_def)
qed

lemma valid_from_ignored: "valid_identity source today (x\<lparr>xid_valid_from := d\<rparr>) = valid_identity source today x"
  by (simp add: valid_identity_def)

text \<open>
  A job for net asset values never moves its own cursor. The type of what is stored is the one
  that the provider names; a provider that answers closes leaves the last completed \<open>NAV\<close> session
  where it was, and the next refresh plans the same window.
\<close>

theorem nav_progress_is_lost:
  assumes "process R i w (Some now) rt = (x, rt')" and "objects_ok rt" and "r \<in> set (jobs (work (rt_sess rt)))"
    and "job_id r = i" and "bystanders R"
    and "\<And>rt2 c raws. answer R rt2 c = Inr raws \<Longrightarrow> list_all (\<lambda>raw. raw_observation_type raw = EOD_CLOSE) raws"
  shows "last_completed_session (rt_sess rt') source scope ext NAV = last_completed_session (rt_sess rt) source scope ext NAV"
proof -
  obtain new where new: "observations (work (rt_sess rt')) = observations (work (rt_sess rt)) @ new"
    "\<And>ob. ob \<in> set new \<Longrightarrow> \<exists>c auth raws raw. answer R rt c = Inr raws \<and> raw \<in> set raws \<and> stored_from R r c auth now raw ob"
    using process_stored [OF assms(1-5)] by meson
  have "observation_type ob = EOD_CLOSE" if ob: "ob \<in> set new" for ob
  proof -
    from new(2) [OF ob] obtain c auth raws raw where "answer R rt c = Inr raws" "raw \<in> set raws"
      "stored_from R r c auth now raw ob" by blast
    moreover have "raw_observation_type raw = EOD_CLOSE"
      using assms(6) [OF calculation(1)] calculation(2) by (simp add: list_all_iff)
    ultimately show ?thesis by (simp add: stored_from_def natural_key_def)
  qed
  then have "filter (\<lambda>q. obs_source q = source \<and> credential_scope q = scope \<and> external_listing_id q = ext
      \<and> observation_type q = NAV) new = []" by (auto simp: filter_empty_conv)
  then show ?thesis by (simp add: last_completed_session_def select_max_def new(1))
qed

lemma process_each_append:
  "process_each D st w now (xs @ ys) = (\<lambda>oc. andthen (process_each D st w now xs oc) (process_each D st w now ys))"
proof (induction xs)
  case Nil
  show ?case by (intro ext) (simp add: andthen_def)
next
  case (Cons i xs)
  show ?case by (rule ext) (simp add: Cons.IH andthen_assoc)
qed

text \<open>
  One lost claim discards a batch. When a job fails with anything but \<open>StaleJobClaimError\<close> and its
  claim is gone by then, the handler's own \<open>mark_failed\<close> raises; nothing catches that, the jobs that
  follow are not processed, and the phase rolls back what the jobs before it had stored.
\<close>

theorem lost_claim_discards_batch:
  assumes "claim_batch D st w now (nat (scheduler_batch_size st)) rt = (Inr (before @ i # after), rt1)"
    and "process_each D st w now before (claimed_only (length (before @ i # after))) rt1 = (Inr oc, rt2)"
    and "process_one D st w now i rt2 = (Inl e, rt3)" and "\<forall>k. e \<noteq> StaleJobClaimError k"
    and "the_job i rt3 = (Inr j, rt4)" and "distinct (map job_id (jobs (work (rt_sess rt3))))"
    and "list_all (\<lambda>r. \<not> owned j w (generation j) [CLAIMED, RUNNING] r) (jobs (work (rt_sess rt3)))"
  shows "\<exists>rt'. processing_phase D st w now run rf rt = (Inl (StaleJobClaimError (job_id j)), rt')
    \<and> observations (work (rt_sess rt')) = observations (durable (rt_sess rt3))"
proof -
  have same: "rt_sess rt4 = rt_sess rt3" using assms(5) by (auto simp: the_job_def split: option.splits)
  then have "transition i (mark_failed j w (generation j) (adapter_error_code e) now) rt4
      = (Inl (StaleJobClaimError (job_id j)), rt4\<lparr>rt_loaded := (\<lambda>k. None)\<rparr>)"
    unfolding mark_failed_def using assms(6,7) by (intro stale_transition) (auto simp: list_all_iff)
  then have "isolate_failure w now i e rt3 = (Inl (StaleJobClaimError (job_id j)), rt4\<lparr>rt_loaded := (\<lambda>k. None)\<rparr>)"
    using assms(5) by (simp add: isolate_failure_def andthen_def)
  then have step: "process_step D st w now i oc rt2 = (Inl (StaleJobClaimError (job_id j)), rt4\<lparr>rt_loaded := (\<lambda>k. None)\<rparr>)"
    using assms(3,4) by (cases e) (simp_all add: process_step_def andthen_def)
  from assms(1,2) step have "claim_and_process D st w now (nat (scheduler_batch_size st)) rt
      = (Inl (StaleJobClaimError (job_id j)), rt4\<lparr>rt_loaded := (\<lambda>k. None)\<rparr>)"
    by (simp add: claim_and_process_def process_each_append andthen_def)
  then show ?thesis
    by (simp add: processing_phase_def record_worker_result_def same)
qed

section \<open>Cycles to look at\<close>

definition crypto_rt :: "quota_book rt" where
  "crypto_rt = \<lparr>rt_sess = session_on crypto_database 0, rt_quota = \<lparr>book_limit = 5, book_consumed = (\<lambda>source. None)\<rparr>,
     rt_loaded = (\<lambda>k. None), rt_calls = []\<rparr>"

definition crypto_cycle :: "(exn + scheduler_cycle_result) \<times> quota_book rt" where
  "crypto_cycle = run_scheduler_cycle demo_deployment default_settings (Some one_day) 200 ''w'' crypto_now crypto_rt"

lemma crypto_started: "on_crypto (snd (start_run crypto_now (rt_sess crypto_rt)))"
  by (simp add: on_crypto_def start_run_def crypto_rt_def session_on_def on_runs_def commit_def drawn_def) blast

lemma crypto_runs: "runs_are [] (rt_sess crypto_rt)"
  by (simp add: runs_are_def crypto_rt_def session_on_def crypto_database_def empty_database_def)

lemma crypto_runs_as: "run_scheduler_cycle demo_deployment default_settings (Some one_day) 200 ''w'' crypto_now crypto_rt
    = (fst crypto_cycle, snd crypto_cycle)"
  by (simp add: crypto_cycle_def)

theorem cycle_recorded_witness:
  "\<exists>r. runs (durable (rt_sess (snd crypto_cycle))) = [r] \<and> started_at r = crypto_now \<and> scheduler_status r = Some SUCCESS"
proof -
  have "leave (\<lambda>s. (runs (work s), runs (durable s))) demo_deployment" by (simp add: leave_def demo_deployment_def)
  from cycle_recorded [OF crypto_runs_as crypto_runs _ this] crypto_refreshed [OF crypto_started] show ?thesis by auto
qed

theorem refresh_survives_witness:
  "jobs (durable (rt_sess (snd crypto_cycle))) \<noteq> []"
proof -
  have "job_names (work u) \<subseteq> job_names (work (concurrently demo_deployment k u))"
    "job_names (durable u) \<subseteq> job_names (durable (concurrently demo_deployment k u))" for k u
    by (simp_all add: demo_deployment_def)
  from refresh_survives [OF crypto_runs_as crypto_refreshed [OF crypto_started] this] show ?thesis
    by (auto simp: job_names_def)
qed

text \<open>One pending job of the fake provider.\<close>

definition pending_row :: job where
  "pending_row = demo_row\<lparr>job_status := PENDING, claimed_by := None, claimed_at := None, generation := 0\<rparr>"

definition pending_rt :: "job list \<Rightarrow> quota_book rt" where
  "pending_rt js = \<lparr>rt_sess = session_on ((empty_database SQLITE)\<lparr>decisions := approved_decisions, jobs := js\<rparr>) 0,
     rt_quota = \<lparr>book_limit = 5, book_consumed = (\<lambda>source. None)\<rparr>, rt_loaded = (\<lambda>k. None), rt_calls = []\<rparr>"

lemma pending_fields:
  "jobs (work (rt_sess (pending_rt js))) = js" "decisions (work (rt_sess (pending_rt js))) = approved_decisions"
  "observations (work (rt_sess (pending_rt js))) = []" "rt_calls (pending_rt js) = []"
  "engine (work (rt_sess (pending_rt js))) = SQLITE" "wall (rt_sess (pending_rt js)) = 0"
  "rt_quota (pending_rt js) = \<lparr>book_limit = 5, book_consumed = (\<lambda>source. None)\<rparr>" "rt_loaded (pending_rt js) = (\<lambda>k. None)"
  by (simp_all add: pending_rt_def session_on_def empty_database_def)

lemma pending_row_fields:
  "job_id pending_row = 1" "job_status pending_row = PENDING" "next_run_at pending_row = 0" "job_source pending_row = ''fake''"
  "job_cursor pending_row = Some (serialize demo_cursor)" "job_listing_id pending_row = Some 7"
  "claimed_at pending_row = None" "attempt_count pending_row = 0" "max_attempts pending_row = 5" "generation pending_row = 0"
  by (simp_all add: pending_row_def demo_row_def)

lemma pending_due: "claimable_jobs 5 None (refreshed_jobs 5 lease [pending_row]) = [pending_row]"
  by (simp add: claimable_jobs_def refreshed_jobs_def lease_expired_def due_waiting_def pending_row_fields candidate_for_def)

definition demo_ports :: "provider_code \<times> quota_book quota_port" where
  "demo_ports = ((\<lambda>n ext a b. Returned (fake_fetch_range (\<lambda>seed. 0) ext a b) 0 100), fake_quota)"

lemma demo_ports_of: "ports_of demo_deployment ''fake'' = Inr demo_ports"
  by (simp add: ports_of_def demo_deployment_def get_historical_price_port_def get_quota_port_def get_port_def
      fake_registries_def fake_source_def demo_ports_def)

lemma pending_deliverable: "deliverable demo_deployment default_settings (pending_rt [pending_row]) pending_row demo_ports
    (fake_fetch_range (\<lambda>seed. 0))"
proof -
  have "newest_approved (rt_sess (pending_rt js)) source cap = newest_approved (rt_sess demo_rt) source cap" for js source cap
    unfolding newest_approved_iff [symmetric]
    by (simp add: effective_status_def effective_decision_def pending_fields demo_fields)
  moreover have "fresh_ids (rt_sess (pending_rt js))" for js
    by (simp add: fresh_ids_def pending_fields) (simp add: pending_rt_def session_on_def inj_def)
  moreover have "quota_check fake_quota ''fake'' (rt_quota (pending_rt js))
      = Inr \<lparr>qs_source = ''fake'', qs_remaining = 5, qs_limit = 5, qs_reset_at = None\<rparr>" for js
    using demo_quota by (simp add: pending_fields demo_fields)
  moreover have "provider_timeout_seconds default_settings = 30" "pipe_size demo_deployment = 65536"
    "rival_rows demo_deployment = no_rivals" "concurrently demo_deployment n s = s" for n s
    by (simp_all add: default_settings_def demo_deployment_def)
  ultimately show ?thesis
    using demo_approved demo_ports_of demo_cursor_parsed
    by (simp add: deliverable_def pending_row_fields fk_holds_def pending_fields)
      (simp add: demo_ports_def run_with_deadline_def)
qed

lemma demo_locks: "\<exists>k < lock_retry_attempts. \<not> lock_failures demo_deployment i k"
  by (simp add: demo_deployment_def lock_retry_attempts_def) presburger

lemma demo_port_laws: "quota_laws (snd demo_ports)"
  using fake_quota_laws.quota_laws_axioms by (simp add: demo_ports_def)

theorem due_job_is_done_witness:
  "\<exists>rt'. claim_and_process demo_deployment default_settings ''w'' 5 1 (pending_rt [pending_row])
     = (Inr ((claimed_only 1)\<lparr>jobs_done := 1\<rparr>), rt')"
  using due_job_is_done [where rt = "pending_rt [pending_row]" and now = 5 and w = "''w''", OF _ _ demo_locks pending_deliverable
      demo_port_laws fake_prices.historical_port_axioms] pending_due
  by (simp add: pending_fields) blast

theorem batch_is_bounded_witness:
  "length (rt_calls (snd (claim_and_process demo_deployment default_settings ''w'' 5 1 (pending_rt [pending_row])))) \<le> 1"
proof -
  obtain rt' where rt': "claim_and_process demo_deployment default_settings ''w'' 5 1 (pending_rt [pending_row])
     = (Inr ((claimed_only 1)\<lparr>jobs_done := 1\<rparr>), rt')"
    using due_job [where rt = "pending_rt [pending_row]" and now = 5 and w = "''w''", OF _ _ demo_locks pending_deliverable
      demo_port_laws fake_prices.historical_port_axioms] pending_due
    by (auto simp: pending_fields)
  from batch_is_bounded [OF this] rt' show ?thesis by (simp add: claimed_only_def pending_fields)
qed

theorem excess_listings_starve_witness:
  "\<exists>y \<in> {crypto_identity, crypto_identity\<lparr>xid_id := 6\<rparr>}. y \<notin> set (considered ''fake'' 738000 1
     (identities (work (rt_sess (snd (run_scheduler_cycle demo_deployment default_settings None 1 ''w'' crypto_now
        (on_sess (\<lambda>s. session_on (crypto_database\<lparr>identities := [crypto_identity, crypto_identity\<lparr>xid_id := 6\<rparr>]\<rparr>) 0) crypto_rt)))))))"
proof -
  let ?xs = "[crypto_identity, crypto_identity\<lparr>xid_id := 6\<rparr>]"
  have "identities_are ?xs (rt_sess (on_sess (\<lambda>s. session_on (crypto_database\<lparr>identities := ?xs\<rparr>) 0) crypto_rt))"
    by (simp add: identities_are_def session_on_def)
  moreover have "leave (\<lambda>s. (identities (work s), identities (durable s))) demo_deployment"
    by (simp add: leave_def demo_deployment_def)
  moreover have "distinct ?xs" "1 < length (filter (valid_identity ''fake'' 738000) ?xs)"
    by (simp_all add: crypto_identity_def valid_identity_def)
  ultimately show ?thesis using excess_listings_starve [OF surjective_pairing] by fastforce
qed

text \<open>The claimed demo job, for net asset values.\<close>

definition nav_row :: job where
  "nav_row = demo_row\<lparr>job_cursor := Some (serialize (demo_cursor\<lparr>cur_observation_type := NAV\<rparr>))\<rparr>"

definition nav_rt :: "quota_book rt" where
  "nav_rt = demo_rt\<lparr>rt_sess := on_jobs (\<lambda>js. [nav_row]) (rt_sess demo_rt), rt_loaded := (\<lambda>k. None)(1 \<mapsto> nav_row)\<rparr>"

theorem nav_progress_is_lost_witness:
  "last_completed_session (rt_sess (snd (process demo_runner 1 ''w'' (Some 5) nav_rt))) ''fake'' ''default'' ''X'' NAV = None"
proof -
  have row: "nav_row \<in> set (jobs (work (rt_sess nav_rt)))" "job_id nav_row = 1"
    by (simp_all add: nav_rt_def nav_row_def demo_job_fields)
  have "objects_ok nav_rt" using row(2) by (simp add: objects_ok_def nav_rt_def)
  note nav_progress_is_lost [OF surjective_pairing this row undisturbed_bystanders [OF demo_undisturbed]]
  moreover have "list_all (\<lambda>raw. raw_observation_type raw = EOD_CLOSE) raws" if "answer demo_runner rt2 c = Inr raws" for rt2 c raws
    using that by (simp add: answer_def demo_runner_fields run_with_deadline_def)
      (auto simp: list_all_iff fake_fetch_range_def fake_observation_def Let_def)
  ultimately have "last_completed_session (rt_sess (snd (process demo_runner 1 ''w'' (Some 5) nav_rt))) ''fake'' ''default'' ''X'' NAV
      = last_completed_session (rt_sess nav_rt) ''fake'' ''default'' ''X'' NAV" by blast
  then show ?thesis by (simp add: last_completed_session_def nav_rt_def demo_fields select_max_def)
qed

text \<open>
  Two jobs, the first of a provider that hangs, the second of a source without adapters and taken over
  by another worker while the first is waited for.
\<close>

definition ghost_row :: job where
  "ghost_row = pending_row\<lparr>job_id := 2, dedupe_key := ''k2'', job_source := ''ghost''\<rparr>"

definition taken_over :: "job \<Rightarrow> job" where
  "taken_over r = r\<lparr>generation := 3, claimed_by := Some ''rival''\<rparr>"

definition rival_deployment :: "quota_book deployment" where
  "rival_deployment = demo_deployment\<lparr>adapters := fake_registries () (\<lambda>n ext a b. Never) fake_sessions_in_range fake_quota,
     concurrently := (\<lambda>n s. on_jobs (update_where (\<lambda>r. job_id r = 2) taken_over) s)\<rparr>"

definition rival_rt :: "quota_book rt" where
  "rival_rt = snd (claim_batch rival_deployment default_settings ''w'' 5 50 (pending_rt [pending_row, ghost_row]))"

abbreviation first_claim :: job where "first_claim \<equiv> claimed_row ''w'' 5 0 pending_row"
abbreviation second_claim :: job where "second_claim \<equiv> claimed_row ''w'' 5 0 ghost_row"

lemma rival_claimed:
  "claim_batch rival_deployment default_settings ''w'' 5 50 (pending_rt [pending_row, ghost_row]) = (Inr [1, 2], rival_rt)"
  "jobs (work (rt_sess rival_rt)) = [first_claim, second_claim]" "decisions (work (rt_sess rival_rt)) = approved_decisions"
  "rt_loaded rival_rt 1 = Some first_claim" "rt_loaded rival_rt 2 = Some second_claim" "wall (rt_sess rival_rt) = 0"
  "rt_quota rival_rt = \<lparr>book_limit = 5, book_consumed = (\<lambda>source. None)\<rparr>" "rt_calls rival_rt = []"
proof -
  have ids: "job_id pending_row = 1" "job_id ghost_row = 2" "next_run_at ghost_row = 0" "claimed_at ghost_row = None"
    "job_status ghost_row = PENDING" "pending_row \<noteq> ghost_row"
    by (simp_all add: ghost_row_def pending_row_def demo_row_def)
  have "refreshed_jobs 5 lease [pending_row, ghost_row] = [pending_row, ghost_row]" for lease
    using ids by (simp add: refreshed_jobs_def lease_expired_def due_waiting_def pending_row_fields)
  moreover have "claimable_jobs 5 None [pending_row, ghost_row] = [pending_row, ghost_row]"
    using ids by (simp add: claimable_jobs_def candidate_for_def pending_row_fields claim_order_def)
  ultimately have "claim_next (lock_failures rival_deployment) ''w'' 5 None 50 (job_lease_seconds default_settings)
      (rt_sess (pending_rt [pending_row, ghost_row])) = (Inr [first_claim, second_claim],
        commit (on_jobs (\<lambda>js. [first_claim, second_claim]) (rt_sess (pending_rt [pending_row, ghost_row]))))"
    using claim_next_free [of "lock_failures rival_deployment" "rt_sess (pending_rt [pending_row, ghost_row])" "''w''" 5 None 50
        "job_lease_seconds default_settings"] demo_locks ids
    by (simp add: pending_fields Let_def rival_deployment_def)
  then have "claim_batch rival_deployment default_settings ''w'' 5 50 (pending_rt [pending_row, ghost_row])
      = (Inr [1, 2], (pending_rt [pending_row, ghost_row])\<lparr>
           rt_sess := commit (on_jobs (\<lambda>js. [first_claim, second_claim]) (rt_sess (pending_rt [pending_row, ghost_row]))),
           rt_loaded := (\<lambda>k. None)(2 \<mapsto> second_claim, 1 \<mapsto> first_claim)\<rparr>)"
    using ids by (simp add: claim_batch_def andthen_def in_session_def claimed_row_def pending_fields fun_eq_iff)
  then show "claim_batch rival_deployment default_settings ''w'' 5 50 (pending_rt [pending_row, ghost_row]) = (Inr [1, 2], rival_rt)"
    "jobs (work (rt_sess rival_rt)) = [first_claim, second_claim]" "decisions (work (rt_sess rival_rt)) = approved_decisions"
    "rt_loaded rival_rt 1 = Some first_claim" "rt_loaded rival_rt 2 = Some second_claim" "wall (rt_sess rival_rt) = 0"
    "rt_quota rival_rt = \<lparr>book_limit = 5, book_consumed = (\<lambda>source. None)\<rparr>" "rt_calls rival_rt = []"
    by (simp_all add: rival_rt_def pending_fields)
qed

lemma first_gives_up:
  "\<exists>rt2. process_each rival_deployment default_settings ''w'' 5 [1] oc rival_rt = (Inr (oc\<lparr>jobs_retrying := jobs_retrying oc + 1\<rparr>), rt2)
     \<and> map job_id (jobs (work (rt_sess rt2))) = [1, 2] \<and> jobs (work (rt_sess rt2)) ! 1 = taken_over second_claim
     \<and> rt_loaded rt2 2 = Some second_claim"
proof -
  let ?R = "runner_for rival_deployment default_settings ((\<lambda>n ext a b. Never), fake_quota)"
  let ?r1 = "running 0 first_claim"
  let ?sess = "on_jobs (update_where (\<lambda>r. job_id r = 2) taken_over) (rt_sess (started rival_rt first_claim))"
  let ?rt2 = "(started rival_rt first_claim)\<lparr>rt_sess := ?sess, rt_calls := [demo_cursor]\<rparr>"
  have fields: "job_id first_claim = 1" "job_id second_claim = 2" "job_status first_claim = CLAIMED" "claimed_by first_claim = Some ''w''"
    "job_source first_claim = ''fake''" "job_cursor first_claim = Some (serialize demo_cursor)" "max_attempts first_claim = 5"
    "attempt_count first_claim = 0" "first_claim \<noteq> second_claim" "generation first_claim = 1"
    "job_id ghost_row = 2" "job_status ghost_row = PENDING"
    by (simp_all add: claimed_row_def pending_row_def ghost_row_def demo_row_def)
  note fields = fields pending_row_fields rival_claimed rival_claimed(4) [unfolded One_nat_def]
  have claim: "holds_claim ''w'' rival_rt first_claim"
    by (simp add: holds_claim_def shows_row_def fields)
  have quota: "quota_check (quota ?R) (job_source first_claim) (rt_quota rival_rt)
      = Inr \<lparr>qs_source = ''fake'', qs_remaining = 5, qs_limit = 5, qs_reset_at = None\<rparr>"
    using demo_quota by (simp add: runner_for_def fields demo_fields)
  have auth: "authorize_ingestion (rt_sess rival_rt) (job_source first_claim) = Inr demo_auth"
    unfolding fields by (rule demo_authorized) (rule rival_claimed)
  have parsed: "parse_cursor (job_cursor first_claim) = Inr demo_cursor" by (simp add: fields demo_cursor_parsed)
  have proc: "process ?R (job_id first_claim) ''w'' (Some 5) rival_rt
      = fetch_and_store ?R (job_id first_claim) ''w'' (generation first_claim) 5 demo_cursor demo_auth (started rival_rt first_claim)"
    by (rule process_claimed [OF claim auth parsed quota]) (simp_all add: exhausted_def)
  have jobs1: "jobs (work ?sess) = [?r1, taken_over second_claim]"
    using fields by (simp add: utcnow_def)
  have "call_provider ?R demo_cursor (started rival_rt first_claim) = (Inl ProviderTimeoutError, ?rt2)"
    by (simp add: call_provider_def runner_for_def run_with_deadline_def rival_deployment_def rival_claimed)
  with proc have "process ?R 1 ''w'' (Some 5) rival_rt
      = andthen (fail_job 1 ''w'' 1 PROVIDER_TIMEOUT 5) (\<lambda>_. outcome_of 1 0 0 ''fetch_error'') ?rt2"
    by (simp add: fetch_and_store_def fields)
  moreover have "shows_row ?rt2 ?r1"
    using fields by (simp add: shows_row_def jobs1 taken_over_def utcnow_def) (simp add: started_def fields)
  moreover have "owned ?r1 ''w'' 1 [CLAIMED, RUNNING] ?r1" by (simp add: owned_def fields)
  moreover have "1 = job_id ?r1" by (simp add: fields)
  ultimately have "process ?R 1 ''w'' (Some 5) rival_rt = (Inr \<lparr>jo_status = PENDING, observations_recorded = 0, observations_rejected = 0,
        detail = ''fetch_error''\<rparr>,
      ?rt2\<lparr>rt_sess := on_jobs (update_where (\<lambda>x. x = ?r1) (failed_values ?r1 PROVIDER_TIMEOUT 5)) ?sess,
        rt_loaded := (rt_loaded ?rt2)(1 \<mapsto> failed_values ?r1 PROVIDER_TIMEOUT 5 ?r1)\<rparr>)" (is "_ = (_, ?rt3)")
    using fail_outcome [of ?rt2 ?r1 "''w''" 1 1 PROVIDER_TIMEOUT 5 0 0 "''fetch_error''"] by (simp add: fields)
  moreover have "ports_of rival_deployment ''fake'' = Inr ((\<lambda>n ext a b. Never), fake_quota)"
    by (simp add: ports_of_def rival_deployment_def get_historical_price_port_def get_quota_port_def get_port_def
        fake_registries_def fake_source_def)
  moreover have "the_job 1 rival_rt = (Inr first_claim, rival_rt)" by (simp add: the_job_def fields)
  ultimately have one: "process_one rival_deployment default_settings ''w'' 5 1 rival_rt = (Inr \<lparr>jo_status = PENDING,
      observations_recorded = 0, observations_rejected = 0, detail = ''fetch_error''\<rparr>, ?rt3)"
    by (simp add: process_one_def andthen_def fields)
  have "the_job 1 ?rt3 = (Inr (failed_values ?r1 PROVIDER_TIMEOUT 5 ?r1), ?rt3)" by (simp add: the_job_def)
  moreover have "job_status (failed_values ?r1 PROVIDER_TIMEOUT 5 ?r1) = PENDING" by (simp add: failed_values_def fields)
  ultimately have step: "process_step rival_deployment default_settings ''w'' 5 1 oc rival_rt
      = (Inr (oc\<lparr>jobs_retrying := jobs_retrying oc + 1\<rparr>), ?rt3)"
    using one by (simp add: process_step_def tally_def andthen_def)
  have "job_id ?r1 \<noteq> job_id (taken_over second_claim)" by (simp add: taken_over_def fields)
  then have "?r1 \<noteq> taken_over second_claim" by metis
  then have jobs3: "jobs (work (rt_sess ?rt3)) = [failed_values ?r1 PROVIDER_TIMEOUT 5 ?r1, taken_over second_claim]"
    using jobs1 by simp
  show ?thesis
  proof (intro exI [of _ ?rt3] conjI)
    show "process_each rival_deployment default_settings ''w'' 5 [1] oc rival_rt
      = (Inr (oc\<lparr>jobs_retrying := jobs_retrying oc + 1\<rparr>), ?rt3)"
      using step by (simp add: andthen_def)
    show "map job_id (jobs (work (rt_sess ?rt3))) = [1, 2]" unfolding jobs3 by (simp add: taken_over_def fields)
    show "jobs (work (rt_sess ?rt3)) ! 1 = taken_over second_claim" unfolding jobs3 by simp
    show "rt_loaded ?rt3 2 = Some second_claim" by (simp add: started_def fields)
  qed
qed

theorem lost_claim_discards_batch_witness:
  "\<exists>rt'. processing_phase rival_deployment default_settings ''w'' 5 0 no_refresh (pending_rt [pending_row, ghost_row])
     = (Inl (StaleJobClaimError 2), rt')"
proof -
  let ?oc = "claimed_only (length ([1] @ [2 :: nat]))"
  obtain rt2 where rt2: "process_each rival_deployment default_settings ''w'' 5 [1] ?oc rival_rt
      = (Inr (?oc\<lparr>jobs_retrying := jobs_retrying ?oc + 1\<rparr>), rt2)"
    "map job_id (jobs (work (rt_sess rt2))) = [1, 2]" "jobs (work (rt_sess rt2)) ! 1 = taken_over second_claim"
    "rt_loaded rt2 2 = Some second_claim"
    using first_gives_up [of ?oc] by (elim exE conjE) (rule that, assumption+)
  have batch: "claim_batch rival_deployment default_settings ''w'' 5 (nat (scheduler_batch_size default_settings))
      (pending_rt [pending_row, ghost_row]) = (Inr ([1] @ 2 # []), rival_rt)"
    using rival_claimed(1) by (simp add: default_settings_def)
  have job: "the_job 2 rt2 = (Inr second_claim, rt2)" using rt2(4) by (simp add: the_job_def)
  have second: "job_source second_claim = ''ghost''" "generation second_claim = 1" "job_id second_claim = 2"
    by (simp_all add: claimed_row_def ghost_row_def pending_row_def demo_row_def)
  have "ports_of rival_deployment ''ghost'' = Inl (UnknownSourceError ''ghost'' ''historical EOD'')"
    by (simp add: ports_of_def rival_deployment_def get_historical_price_port_def get_port_def fake_registries_def fake_source_def)
  with job second have one: "process_one rival_deployment default_settings ''w'' 5 2 rt2
      = (Inl (UnknownSourceError ''ghost'' ''historical EOD''), rt2)"
    by (simp add: process_one_def andthen_def)
  obtain a b where ab: "jobs (work (rt_sess rt2)) = [a, b]" "job_id a = 1" "b = taken_over second_claim"
    using rt2(2,3) by (auto simp: Cons_eq_map_conv map_eq_Cons_conv)
  then have "list_all (\<lambda>r. \<not> owned second_claim ''w'' (generation second_claim) [CLAIMED, RUNNING] r) (jobs (work (rt_sess rt2)))"
    using second by (simp add: owned_def taken_over_def)
  from lost_claim_discards_batch [OF batch rt2(1) one _ job _ this, of 0 no_refresh] rt2(2) second show ?thesis by auto
qed

end
