(* ===== verification/System.thy ===== *)
theory System
  imports Cycle
begin

text \<open>
  The database over the life of a deployment: runs of the scheduler (\<open>entrypoints/scheduler.py\<close>), also
  such that are killed, decisions of the policy registry and registrations in the catalog, one after
  the other, each in a session of its own; the API only reads. What a run leaves behind is what it has
  committed. The theory shows what every sequence of these keeps.
\<close>

section \<open>Nothing recorded is lost\<close>

text \<open>
  A database is below another one when it has the same engine and every row of it is in the other:
  the rows of the append-only tables and of the catalog as they are, jobs and runs by what names them.
\<close>

instantiation database_ext :: (type) preorder
begin

definition less_eq_database_ext :: "'a database_ext \<Rightarrow> 'a database_ext \<Rightarrow> bool" where
  "less_eq_database_ext a b \<longleftrightarrow> engine a = engine b
     \<and> set (instruments a) \<subseteq> set (instruments b) \<and> set (listings a) \<subseteq> set (listings b)
     \<and> set (identities a) \<subseteq> set (identities b) \<and> set (decisions a) \<subseteq> set (decisions b)
     \<and> set (observations a) \<subseteq> set (observations b)
     \<and> (\<lambda>j. (job_id j, dedupe_key j)) ` set (jobs a) \<subseteq> (\<lambda>j. (job_id j, dedupe_key j)) ` set (jobs b)
     \<and> (\<lambda>r. (run_id r, started_at r)) ` set (runs a) \<subseteq> (\<lambda>r. (run_id r, started_at r)) ` set (runs b)"

definition less_database_ext :: "'a database_ext \<Rightarrow> 'a database_ext \<Rightarrow> bool" where
  "less_database_ext a b \<longleftrightarrow> a \<le> b \<and> \<not> b \<le> a"

instance
proof
  fix a b c :: "'a database_ext"
  show "a < b \<longleftrightarrow> a \<le> b \<and> \<not> b \<le> a" by (rule less_database_ext_def)
  show "a \<le> a" by (simp add: less_eq_database_ext_def)
  show "a \<le> c" if "a \<le> b" "b \<le> c"
    using that unfolding less_eq_database_ext_def
    by (elim conjE, intro conjI) (simp, (erule (1) subset_trans)+)
qed

end

lemmas database_order = less_eq_database_ext_def [where 'a = unit]

definition kept :: "database \<Rightarrow> sess \<Rightarrow> bool" where
  "kept base s \<longleftrightarrow> base \<le> work s \<and> base \<le> durable s"

section \<open>Runs that are killed\<close>

text \<open>
  Where a run may end without its handlers: in the refresh phase, after it, after the statements of
  \<open>claim_next\<close> that commit, after \<open>k\<close> of the candidates were tried, and while the job after \<open>k\<close> jobs of
  the batch is processed. Between these points a run commits nothing, so what it leaves durable is what
  it had at the last of them.
\<close>

datatype kill_point = In_Refresh | After_Refresh | After_Recovery | After_Promotion | In_Claiming nat | In_Batch nat

definition started_run :: "datetime \<Rightarrow> ('q, uuid) run" where
  "started_run now rt = (case start_run now (rt_sess rt) of (i, s) \<Rightarrow> (Inr i, rt\<lparr>rt_sess := s\<rparr>))"

definition claim_some :: "'q deployment \<Rightarrow> settings \<Rightarrow> string \<Rightarrow> datetime \<Rightarrow> nat \<Rightarrow> unit py" where
  "claim_some D st w now k =
     andthen (recover_expired now (job_lease_seconds st)) (\<lambda>_.
     andthen (promote_due_waiting now) (\<lambda>_ s.
     map_prod (map_sum id (\<lambda>_. ())) id
       (claim_each (lock_failures D) w now (nat (scheduler_batch_size st))
         (take k (candidate_ids now None (nat (scheduler_batch_size st)) (jobs (work s)))) [] s)))"

definition process_some :: "'q deployment \<Rightarrow> settings \<Rightarrow> string \<Rightarrow> datetime \<Rightarrow> nat \<Rightarrow> ('q, process_outcome) run" where
  "process_some D st w now k =
     andthen (claim_batch D st w now (nat (scheduler_batch_size st)))
       (\<lambda>is. process_each D st w now (take k is) (claimed_only (length is)))"

fun processing_until :: "kill_point \<Rightarrow> 'q deployment \<Rightarrow> settings \<Rightarrow> string \<Rightarrow> datetime \<Rightarrow> ('q, unit) run" where
  "processing_until In_Refresh D st w now = ret ()"
| "processing_until After_Refresh D st w now = ret ()"
| "processing_until After_Recovery D st w now =
     andthen (in_session (recover_expired now (job_lease_seconds st))) (\<lambda>_. ret ())"
| "processing_until After_Promotion D st w now = in_session (claim_some D st w now 0)"
| "processing_until (In_Claiming k) D st w now = in_session (claim_some D st w now k)"
| "processing_until (In_Batch k) D st w now = andthen (process_some D st w now k) (\<lambda>_. ret ())"

definition killed_run :: "kill_point \<Rightarrow> 'q deployment \<Rightarrow> settings \<Rightarrow> datetime \<Rightarrow> ('q, unit) run" where
  "killed_run point D st now =
     andthen (started_run now) (\<lambda>i.
       if point = In_Refresh then ret ()
       else andthen (refresh_phase D st None max_listings_refreshed_per_source now i)
              (\<lambda>_. processing_until point D st scheduler_worker_id now))"

section \<open>What a run keeps\<close>

context claim_invariant
begin

lemma claim_some_kept: "keeps P (claim_some D st w now k)"
proof -
  have "keeps P (\<lambda>s. map_prod (map_sum id (\<lambda>_. ())) id (claim_each lk w now n (ids s) [] s))" for lk n ids
    using keepsD [OF claim_each_kept] by (fastforce intro!: keepsI simp: map_prod_def split: prod.splits)
  then show ?thesis unfolding claim_some_def by (intro keeps_andthen recover_kept promote_kept)
qed

end

locale cycle_invariant = session_invariant +
  assumes run_inserts: "P s \<Longrightarrow> P (on_runs (\<lambda>rs. rs @ [r]) s)"
    and run_updates: "P s \<Longrightarrow> (\<And>r. run_id (f r) = run_id r \<and> started_at (f r) = started_at r)
      \<Longrightarrow> P (on_runs (update_where p f) s)"
    and rollbacks: "P s \<Longrightarrow> P (rollback s)"
begin

lemma start_kept: "P s \<Longrightarrow> start_run now s = (i, t) \<Longrightarrow> P t"
  by (auto simp: start_run_def intro!: commits run_inserts draws)

lemma scheduler_result_kept: "P s \<Longrightarrow> P (record_scheduler_result i status code s)"
  unfolding record_scheduler_result_def by (intro commits run_updates) (simp_all add: with_code_def split: option.split)

lemma worker_result_kept: "P s \<Longrightarrow> P (record_worker_result i status code s)"
  unfolding record_worker_result_def by (intro commits run_updates) (simp_all add: with_code_def split: option.split)

lemma refresh_phase_kept: "keeps_run P (refresh_phase D st limits n now i)"
  using keepsD [OF keeps_in_session [OF refresh_kept]]
  by (auto simp: refresh_phase_def intro!: keepsI scheduler_result_kept worker_result_kept commits rollbacks
      split: prod.splits sum.splits)

lemma processing_phase_kept:
  assumes "\<And>n s. P s \<Longrightarrow> P (concurrently D n s)" and "\<And>n. L (rival_rows D n)"
  shows "keeps_run P (processing_phase D st w now i rf)"
  using keepsD [OF claim_and_process_kept [OF assms]]
  by (auto simp: processing_phase_def intro!: keepsI worker_result_kept commits rollbacks split: prod.splits sum.splits)

lemma cycle_kept:
  assumes "\<And>n s. P s \<Longrightarrow> P (concurrently D n s)" and "\<And>n. L (rival_rows D n)"
  shows "keeps_run P (run_scheduler_cycle D st limits n w now)"
proof (rule keepsI)
  fix rt x rt'
  assume rt: "P (rt_sess rt)" "run_scheduler_cycle D st limits n w now rt = (x, rt')"
  obtain i s where start: "start_run now (rt_sess rt) = (i, s)" by fastforce
  have s: "P (rt_sess (rt\<lparr>rt_sess := s\<rparr>))" using start_kept [OF rt(1) start] by simp
  have phases: "keeps_run P (andthen (refresh_phase D st limits n now i) (processing_phase D st w now i))"
    by (intro keeps_andthen refresh_phase_kept processing_phase_kept assms)
  have "andthen (refresh_phase D st limits n now i) (processing_phase D st w now i) (rt\<lparr>rt_sess := s\<rparr>) = (x, rt')"
    using rt(2) start by (simp add: run_scheduler_cycle_def)
  from keepsD [OF phases this s] show "P (rt_sess rt')" .
qed

lemma run_kept:
  assumes "\<And>n s. P s \<Longrightarrow> P (concurrently D n s)" and "\<And>n. L (rival_rows D n)"
  shows "keeps_run P (run_scheduler D st now)"
  unfolding run_scheduler_def using keepsD [OF cycle_kept [OF assms]]
  by (auto simp: session_scope_def intro!: keepsI commits rollbacks split: prod.splits sum.splits)

lemma started_kept: "keeps_run P (started_run now)"
  by (auto simp: started_run_def intro!: keepsI split: prod.splits elim: start_kept)

lemma process_some_kept:
  assumes "\<And>n s. P s \<Longrightarrow> P (concurrently D n s)" and "\<And>n. L (rival_rows D n)"
  shows "keeps_run P (process_some D st w now k)"
  unfolding process_some_def by (intro keeps_andthen run.batches run.process_each_kept endures_beside assms)

lemma killed_kept:
  assumes "\<And>n s. P s \<Longrightarrow> P (concurrently D n s)" and "\<And>n. L (rival_rows D n)"
  shows "keeps_run P (killed_run point D st now)"
proof -
  have "keeps_run P (processing_until point D st w now)" for w
    by (cases point) (auto intro!: keeps_andthen keeps_in_session recover_kept claim_some_kept process_some_kept assms)
  then show ?thesis
    unfolding killed_run_def by (intro keeps_andthen keeps_if started_kept refresh_phase_kept keeps_ret)
qed

end

section \<open>Every table only grows, and stays sound\<close>

lemma table_facts:
  "instruments (work (on_observations g s)) = instruments (work s)"
  "work (commit_elsewhere h s) = (work s)\<lparr>observations := observations (work s) @ h (observations (work s))\<rparr>"
  "durable (commit_elsewhere h s) = (durable s)\<lparr>observations := observations (durable s) @ h (observations (work s))\<rparr>"
  "work (on_runs k s) = (work s)\<lparr>runs := k (runs (work s))\<rparr>"
  by (simp_all add: on_observations_def commit_elsewhere_def Let_def on_runs_def)

lemma run_names:
  assumes "\<And>r. run_id (f r) = run_id r \<and> started_at (f r) = started_at r"
  shows "(\<lambda>r. (run_id r, started_at r)) ` set (update_where p f rs) = (\<lambda>r. (run_id r, started_at r)) ` set rs"
proof -
  have "map (\<lambda>r. (run_id r, started_at r)) (update_where p f rs) = map (\<lambda>r. (run_id r, started_at r)) rs"
    using assms by (intro map_update_where) simp
  then show ?thesis by (metis list.set_map)
qed

interpretation growth: cycle_invariant "kept base" anything for base
proof
  fix s p and f :: "job \<Rightarrow> job"
  assume "kept base s" "same_names f"
  then show "kept base (on_jobs (update_where p f) s)"
    using names_update [of f p s] by (auto simp: kept_def database_order job_names_def)
next
  fix s p and f :: "scheduler_run \<Rightarrow> scheduler_run"
  assume "kept base s" "\<And>r. run_id (f r) = run_id r \<and> started_at (f r) = started_at r"
  then show "kept base (on_runs (update_where p f) s)"
    using run_names [of f p "runs (work s)"] by (auto simp: kept_def database_order table_facts)
next
  fix s j t
  assume "kept base s" "insert_job j s = Some t"
  then show "kept base t" using inserted(1) [of j s t] by (auto simp: kept_def database_order)
next
  fix s ob t
  assume "kept base s" "insert_observation ob s = Some t"
  then show "kept base t" using inserted(2) [of ob s t] by (auto simp: kept_def database_order on_observations_def)
next
  fix s h
  assume "kept base s"
  then show "kept base (commit_elsewhere h s)" by (auto simp: kept_def database_order table_facts)
next
  fix s r
  assume "kept base s"
  then show "kept base (on_runs (\<lambda>rs. rs @ [r]) s)" by (auto simp: kept_def database_order table_facts)
qed (simp_all add: kept_def)

text \<open>
  A sound database: what the constraints of the tables ask, where the engine enforces it, and the
  gapless versions of the policy registry.
\<close>

definition rows_ok :: "observation list \<Rightarrow> bool" where
  "rows_ok os \<longleftrightarrow> distinct (map obs_id os) \<and> unique_versions natural_key revision os"

definition refers_in :: "database \<Rightarrow> observation \<Rightarrow> bool" where
  "refers_in db ob \<longleftrightarrow> obs_listing_id ob \<in> lst_id ` set (listings db)
     \<and> (\<forall>i. retrieval_policy_decision_id ob = Some i \<longrightarrow> i \<in> dec_id ` set (decisions db))
     \<and> (\<forall>i. storage_policy_decision_id ob = Some i \<longrightarrow> i \<in> dec_id ` set (decisions db))"

definition references_ok :: "database \<Rightarrow> bool" where
  "references_ok db \<longleftrightarrow> (engine db = POSTGRESQL \<longrightarrow> (\<forall>ob \<in> set (observations db). refers_in db ob)
     \<and> (\<forall>j \<in> set (jobs db). \<forall>l. job_listing_id j = Some l \<longrightarrow> l \<in> lst_id ` set (listings db)))"

definition tables_ok :: "database \<Rightarrow> bool" where
  "tables_ok db \<longleftrightarrow> distinct (map job_id (jobs db)) \<and> distinct (map dedupe_key (jobs db))
     \<and> rows_ok (observations db) \<and> gapless decision_key dec_version (decisions db)
     \<and> distinct (map dec_id (decisions db)) \<and> catalog_ok (session_on db 0) \<and> references_ok db"

lemma catalog_ok_work: "catalog_ok s = catalog_ok (session_on (work s) 0)"
  by (simp add: catalog_ok_def keys_ok_def referenced_def fk_holds_def session_on_def)

lemma catalog_ok_other [simp]:
  "catalog_ok (session_on (db\<lparr>jobs := js\<rparr>) n) = catalog_ok (session_on db n)"
  "catalog_ok (session_on (db\<lparr>observations := os\<rparr>) n) = catalog_ok (session_on db n)"
  "catalog_ok (session_on (db\<lparr>runs := rs\<rparr>) n) = catalog_ok (session_on db n)"
  "catalog_ok (session_on (db\<lparr>decisions := ds\<rparr>) n) = catalog_ok (session_on db n)"
  by (simp_all add: catalog_ok_def keys_ok_def referenced_def fk_holds_def session_on_def)

lemma refers_in_other [simp]:
  "refers_in (db\<lparr>jobs := js\<rparr>) = refers_in db" "refers_in (db\<lparr>observations := os\<rparr>) = refers_in db"
  "refers_in (db\<lparr>runs := rs\<rparr>) = refers_in db"
  by (simp_all add: fun_eq_iff refers_in_def)

lemma refers_in_mono:
  assumes "refers_in a ob" and "a \<le> b"
  shows "refers_in b ob"
proof -
  have "set (listings a) \<subseteq> set (listings b)" "set (decisions a) \<subseteq> set (decisions b)"
    using assms(2) by (simp_all add: database_order)
  then have "lst_id ` set (listings a) \<subseteq> lst_id ` set (listings b)" "dec_id ` set (decisions a) \<subseteq> dec_id ` set (decisions b)"
    by (simp_all add: image_mono)
  with assms(1) show ?thesis by (auto simp only: refers_in_def)
qed

lemma tables_ok_updated_jobs:
  assumes "same_names f"
  shows "tables_ok (db\<lparr>jobs := update_where p f (jobs db)\<rparr>) = tables_ok db"
proof -
  have keys: "map job_id (update_where p f (jobs db)) = map job_id (jobs db)"
    "map dedupe_key (update_where p f (jobs db)) = map dedupe_key (jobs db)"
    and l: "map job_listing_id (update_where p f (jobs db)) = map job_listing_id (jobs db)"
    using assms by (rule same_names_map; simp add: same_job_def)+
  have known: "(\<forall>j \<in> set (update_where p f (jobs db)). Q (job_listing_id j)) = (\<forall>j \<in> set (jobs db). Q (job_listing_id j))" for Q
    unfolding ball_simps(9) [symmetric, where f = job_listing_id] list.set_map [symmetric] l by (rule refl)
  show ?thesis
    unfolding tables_ok_def references_ok_def
    using keys known [of "\<lambda>x. \<forall>l. x = Some l \<longrightarrow> l \<in> lst_id ` set (listings db)"] by simp
qed

lemma tables_ok_runs: "tables_ok (db\<lparr>runs := rs\<rparr>) = tables_ok db"
  by (simp add: tables_ok_def references_ok_def)

lemma tables_ok_new_job:
  assumes "tables_ok (work s)" and "insert_job j s = Some t"
  shows "tables_ok (work t)"
  using assms(1) insert_job_SomeD [OF assms(2)] assms(2)
  by (auto simp: tables_ok_def references_ok_def insert_job_def fk_holds_def listing_exists_def split: if_splits)

lemma tables_ok_new_rows:
  assumes "tables_ok db" and "rows_ok (observations db @ new)" and "\<And>ob. engine db = POSTGRESQL \<Longrightarrow> ob \<in> set new \<Longrightarrow> refers_in db ob"
  shows "tables_ok (db\<lparr>observations := observations db @ new\<rparr>)"
  using assms by (auto simp: tables_ok_def references_ok_def)

lemma tables_ok_new_observation:
  assumes "tables_ok (work s)" and "insert_observation ob s = Some t"
  shows "tables_ok (work t)"
proof -
  have t: "work t = (work s)\<lparr>observations := observations (work s) @ [ob]\<rparr>"
    using inserted(2) [OF assms(2)] by (simp add: on_observations_def)
  show ?thesis unfolding t
  proof (rule tables_ok_new_rows [OF assms(1)])
    show "rows_ok (observations (work s) @ [ob])"
      using assms obs_log.append_keeps_unique [OF assms(2)] t
      by (auto simp: tables_ok_def rows_ok_def insert_observation_def split: if_splits)
  next
    fix q assume "engine (work s) = POSTGRESQL" "q \<in> set [ob]"
    with assms(2) show "refers_in (work s) q"
      by (auto simp: insert_observation_def fk_holds_def refers_in_def listing_exists_def decision_exists_def split: if_splits)
  qed
qed

lemma distinct_subseq: "subseq xs ys \<Longrightarrow> distinct ys \<Longrightarrow> distinct xs"
  by (induction rule: list_emb.induct) (auto dest: list_emb_set)

lemma rows_ok_subseq: "rows_ok os \<Longrightarrow> subseq os' os \<Longrightarrow> rows_ok os'"
  unfolding rows_ok_def unique_versions_def by (meson subseq_map distinct_subseq)

text \<open>What is asked of the rows that another session commits, which writes under the same constraints.\<close>

definition lawful_rows :: "database \<Rightarrow> (observation list \<Rightarrow> observation list) \<Rightarrow> bool" where
  "lawful_rows base h \<longleftrightarrow> (\<forall>os. rows_ok os \<longrightarrow> rows_ok (os @ h os) \<and> (\<forall>ob \<in> set (h os). refers_in base ob))"

definition sound :: "database \<Rightarrow> sess \<Rightarrow> bool" where
  "sound base s \<longleftrightarrow> kept base s \<and> tables_ok (work s) \<and> tables_ok (durable s)
     \<and> subseq (observations (durable s)) (observations (work s))"

lemmas sound_defs = sound_def table_facts

interpretation soundness: cycle_invariant "sound base" "lawful_rows base" for base
proof
  fix s p and f :: "job \<Rightarrow> job"
  assume "sound base s" "same_names f"
  then show "sound base (on_jobs (update_where p f) s)"
    using growth.job_updates [of base s f p] by (simp add: sound_defs tables_ok_updated_jobs)
next
  fix s p and f :: "scheduler_run \<Rightarrow> scheduler_run"
  assume "sound base s" "\<And>r. run_id (f r) = run_id r \<and> started_at (f r) = started_at r"
  then show "sound base (on_runs (update_where p f) s)"
    using growth.run_updates [of base s f p] by (simp add: sound_defs tables_ok_runs)
next
  fix s j t
  assume "sound base s" "insert_job j s = Some t"
  then show "sound base t"
    using growth.job_inserts [of base s j t] tables_ok_new_job [of s j t] inserted(1) [of j s t] by (auto simp: sound_defs)
next
  fix s ob t
  assume "sound base s" "insert_observation ob s = Some t"
  then show "sound base t"
    using growth.row_inserts [of base s ob t] tables_ok_new_observation [of s ob t] inserted(2) [of ob s t]
    by (auto simp: sound_defs)
next
  fix s :: sess and h :: "observation list \<Rightarrow> observation list"
  let ?new = "h (observations (work s))"
  assume s: "sound base s" "lawful_rows base h"
  then have new: "rows_ok (observations (work s) @ ?new)" "\<And>ob. ob \<in> set ?new \<Longrightarrow> refers_in base ob"
    by (auto simp: sound_def tables_ok_def lawful_rows_def)
  have "rows_ok (observations (durable s) @ ?new)"
    using new(1) s(1) by (elim rows_ok_subseq) (simp add: sound_def)
  moreover have "refers_in (work s) ob" "refers_in (durable s) ob" if "ob \<in> set ?new" for ob
    using new(2) [OF that] s(1) by (auto simp: sound_def kept_def elim: refers_in_mono)
  ultimately show "sound base (commit_elsewhere h s)"
    using s(1) new(1) growth.rival_commits [of base s h] by (auto simp: sound_defs intro!: tables_ok_new_rows)
next
  fix s r
  assume "sound base s"
  then show "sound base (on_runs (\<lambda>rs. rs @ [r]) s)"
    using growth.run_inserts [of base s r] by (simp add: sound_defs tables_ok_runs)
qed (simp_all add: sound_def kept_def)

section \<open>The life of a database\<close>

definition opened :: "database \<Rightarrow> sess \<Rightarrow> bool" where
  "opened db s \<longleftrightarrow> work s = db \<and> durable s = db"

definition opened_run :: "database \<Rightarrow> 'q rt \<Rightarrow> bool" where
  "opened_run db rt \<longleftrightarrow> opened db (rt_sess rt) \<and> rt_loaded rt = (\<lambda>k. None)"

text \<open>Sessions beside a run keep a database sound that is sound, and remove nothing from it.\<close>

definition considerate :: "database \<Rightarrow> 'q deployment \<Rightarrow> bool" where
  "considerate db D \<longleftrightarrow> (\<forall>n s. sound db s \<longrightarrow> sound db (concurrently D n s)) \<and> (\<forall>n. lawful_rows db (rival_rows D n))"

text \<open>\<open>E\<close> holds the deployments and settings with which the scheduler may be started.\<close>

inductive system_step :: "('q deployment \<times> settings) set \<Rightarrow> database \<Rightarrow> database \<Rightarrow> bool" for E where
  ran: "(D, st) \<in> E \<Longrightarrow> considerate db D \<Longrightarrow> opened_run db rt
    \<Longrightarrow> run_scheduler D st now rt = (x, rt') \<Longrightarrow> system_step E db (durable (rt_sess rt'))"
| killed: "(D, st) \<in> E \<Longrightarrow> considerate db D \<Longrightarrow> opened_run db rt
    \<Longrightarrow> killed_run point D st now rt = (u, rt') \<Longrightarrow> system_step E db (durable (rt_sess rt'))"
| decided: "opened db s \<Longrightarrow> record_decision d s = (Inr r, t) \<Longrightarrow> system_step E db (durable (commit t))"
| registered: "opened db s \<Longrightarrow> system_step E db (durable (commit (run_operation op1 s)))"

text \<open>What a registration does to the database.\<close>

definition catalog_extended :: "database \<Rightarrow> database \<Rightarrow> bool" where
  "catalog_extended db db' \<longleftrightarrow> (\<exists>is ls xs. db' = db\<lparr>instruments := instruments db @ is,
     listings := listings db @ ls, identities := identities db @ xs\<rparr>)"

lemma catalog_extended_intros [simp]:
  "catalog_extended db db" "catalog_extended db (db\<lparr>instruments := instruments db @ [i]\<rparr>)"
  "catalog_extended db (db\<lparr>listings := listings db @ [l]\<rparr>)" "catalog_extended db (db\<lparr>identities := identities db @ [x]\<rparr>)"
  unfolding catalog_extended_def
  by (intro exI [of _ "[]"] exI [of _ "[i]"] exI [of _ "[l]"] exI [of _ "[x]"], simp)+

lemma flush_insert_extends:
  assumes "\<And>u. ins r (drawn s) = Some u \<Longrightarrow> catalog_extended (work s) (work u)"
  shows "catalog_extended (work s) (work (snd (flush_insert ins r s)))"
  using assms by (simp add: flush_insert_def split: option.split)

lemma run_operation_extends: "catalog_extended (work s) (work (run_operation op1 s))"
proof (cases op1)
  case (Register ac name isin figi)
  then show ?thesis
    by (auto simp: register_instrument_def insert_instrument_def on_catalog_def intro!: flush_insert_extends split: if_splits)
next
  case (Add i venue ticker currency mic)
  then show ?thesis
    by (auto simp: add_listing_def insert_listing_def on_catalog_def intro!: flush_insert_extends split: if_splits)
next
  case (Link l source ext valid_from valid_to)
  then show ?thesis
    by (auto simp: link_external_identity_def insert_identity_def on_catalog_def intro!: flush_insert_extends split: if_splits)
qed

lemma decided_sound:
  assumes "tables_ok (work s)" and "record_decision d s = (Inr r, t)"
  shows "tables_ok (work t) \<and> work s \<le> work t"
proof -
  have t: "work t = (work s)\<lparr>decisions := decisions (work s) @ [new_decision d s]\<rparr>"
    "dec_id (new_decision d s) \<notin> set (map dec_id (decisions (work s)))"
    using assms(2) by (auto simp: record_decision_def insert_decision_def on_decisions_def split: option.splits if_splits)
  have le: "work s \<le> work t" by (auto simp: database_order t)
  have "references_ok (work t)"
    using assms(1) le by (auto simp: tables_ok_def references_ok_def t elim: refers_in_mono)
  moreover have "gapless decision_key dec_version (decisions (work t))"
    using record_decision_gapless [OF assms(2)] assms(1) by (simp add: tables_ok_def)
  ultimately show ?thesis using assms(1) le t by (simp add: tables_ok_def)
qed

lemma registered_sound:
  assumes "tables_ok (work s)"
  shows "tables_ok (work (run_operation op1 s)) \<and> work s \<le> work (run_operation op1 s)"
proof -
  obtain "is" ls xs where t: "work (run_operation op1 s) = (work s)\<lparr>instruments := instruments (work s) @ is,
    listings := listings (work s) @ ls, identities := identities (work s) @ xs\<rparr>"
    using run_operation_extends [of s op1] by (auto simp: catalog_extended_def)
  have le: "work s \<le> work (run_operation op1 s)" by (auto simp: database_order t)
  have "references_ok (work (run_operation op1 s))"
    using assms le by (auto simp: tables_ok_def references_ok_def t image_Un elim: refers_in_mono)
  moreover have "catalog_ok (session_on (work (run_operation op1 s)) 0)"
    using run_operation_ok [of s op1] assms by (simp add: tables_ok_def flip: catalog_ok_work)
  ultimately show ?thesis using assms le by (simp add: tables_ok_def t)
qed

lemma step_sound:
  assumes "system_step E db db'" and "tables_ok db"
  shows "tables_ok db' \<and> db \<le> db'"
proof -
  have start: "sound db s" if "opened db s" for s
    using that assms(2) by (simp add: opened_def sound_def kept_def)
  have ends: "tables_ok (durable s) \<and> db \<le> durable s" if "sound db s" for s
    using that by (simp add: sound_def kept_def)
  from assms(1) show ?thesis
  proof cases
    case (ran D st rt now x rt')
    then show ?thesis
      using keepsD [OF soundness.run_kept [of db D] ran(5)] start ends by (auto simp: considerate_def opened_run_def)
  next
    case (killed D st rt point now u rt')
    then show ?thesis
      using keepsD [OF soundness.killed_kept [of db D] killed(5)] start ends by (auto simp: considerate_def opened_run_def)
  next
    case (decided s d r t)
    with decided_sound [of s d r t] assms(2) show ?thesis by (simp add: opened_def)
  next
    case (registered s op1)
    with registered_sound [of s op1] assms(2) show ?thesis by (simp add: opened_def)
  qed
qed

text \<open>
  No reference dangles, whatever the engine checks: each observation has its listing and its decisions,
  each job and each identity its listing, each listing its instrument.
\<close>

definition references_intact :: "database \<Rightarrow> bool" where
  "references_intact db \<longleftrightarrow> (\<forall>ob \<in> set (observations db). refers_in db ob)
     \<and> (\<forall>j \<in> set (jobs db). \<forall>l. job_listing_id j = Some l \<longrightarrow> l \<in> lst_id ` set (listings db))
     \<and> (\<forall>l \<in> set (listings db). lst_instrument_id l \<in> ins_id ` set (instruments db))
     \<and> (\<forall>x \<in> set (identities db). xid_listing_id x \<in> lst_id ` set (listings db))"

lemma enforced_references: "engine db = POSTGRESQL \<Longrightarrow> tables_ok db \<Longrightarrow> references_intact db"
  by (simp add: references_intact_def tables_ok_def references_ok_def catalog_ok_def fk_holds_def referenced_def session_on_def)

text \<open>
  C5. A sound database stays sound. Whatever sequence of runs of the scheduler, killed runs, decisions and
  registrations it goes through, with any deployment, settings, time, quota and interleaving of sessions that
  themselves obey the constraints: identifiers and keys stay unique, revisions and versions too, the
  policy registry stays gapless and the engine the same. On PostgreSQL no reference dangles either;
  on SQLite, which does not check foreign keys unless it is told to, that is not so, as
  \<open>sqlite_lets_references_dangle\<close> shows.
\<close>

theorem database_stays_sound:
  assumes "(system_step E)\<^sup>*\<^sup>* db db'" and "tables_ok db"
  shows "tables_ok db' \<and> engine db' = engine db \<and> (engine db = POSTGRESQL \<longrightarrow> references_intact db')"
proof -
  from assms have "tables_ok db' \<and> db \<le> db'"
    by (induction rule: rtranclp_induct) (use step_sound order_trans in blast)+
  then show ?thesis by (simp add: less_eq_database_ext_def enforced_references)
qed

text \<open>
  C6. Nothing that was recorded is lost. No such sequence removes or changes an observation, a decision,
  an instrument, a listing or an identity that was committed, nor removes a job or the record of a run;
  this holds of runs that raise and of runs that are killed at any point as well.
\<close>

theorem nothing_recorded_is_lost:
  assumes "(system_step E)\<^sup>*\<^sup>* db db'" and "tables_ok db"
  shows "db \<le> db'"
proof -
  from assms have "tables_ok db' \<and> db \<le> db'"
    by (induction rule: rtranclp_induct) (use step_sound order_trans in blast)+
  then show ?thesis ..
qed

text \<open>A run of the fake provider's deployment on a database with one pending job, and one killed in it.\<close>

definition pending_database :: database where
  "pending_database = (empty_database SQLITE)\<lparr>decisions := approved_decisions, jobs := [pending_row]\<rparr>"

definition demo_scheduler :: "(quota_book deployment \<times> settings) set" where
  "demo_scheduler = {(demo_deployment, default_settings)}"

lemma demo_considerate: "considerate db demo_deployment"
  by (simp add: considerate_def demo_deployment_def lawful_rows_def no_rivals_def)

lemma pending_opened: "opened_run pending_database (pending_rt [pending_row])"
  by (simp add: opened_run_def opened_def pending_database_def pending_rt_def session_on_def)

lemma pending_sound: "tables_ok pending_database"
proof -
  have "gapless decision_key dec_version approved_decisions"
    by (auto simp: gapless_def decision_key_def approved_decisions_def sample_decision_def)
  moreover have "distinct (map dec_id approved_decisions)" by (simp add: approved_decisions_def sample_decision_def)
  ultimately show ?thesis
    by (simp add: tables_ok_def pending_database_def empty_database_def rows_ok_def unique_versions_def references_ok_def
        catalog_ok_def keys_ok_def referenced_def fk_holds_def session_on_def)
qed

lemma demo_run:
  "(system_step demo_scheduler)\<^sup>*\<^sup>* pending_database
     (durable (rt_sess (snd (run_scheduler demo_deployment default_settings 5 (pending_rt [pending_row])))))"
  by (rule r_into_rtranclp, rule system_step.ran [OF _ demo_considerate pending_opened surjective_pairing])
    (simp add: demo_scheduler_def)

lemma demo_killed:
  "(system_step demo_scheduler)\<^sup>*\<^sup>* pending_database
     (durable (rt_sess (snd (killed_run (In_Batch 1) demo_deployment default_settings 5 (pending_rt [pending_row])))))"
  by (rule r_into_rtranclp, rule system_step.killed [OF _ demo_considerate pending_opened surjective_pairing])
    (simp add: demo_scheduler_def)

text \<open>The same run on a PostgreSQL database with the instrument and the listing of the job.\<close>

definition postgres_database :: database where
  "postgres_database = pending_database\<lparr>engine := POSTGRESQL, instruments := instruments crypto_database,
     listings := [crypto_listing]\<rparr>"

definition postgres_rt :: "quota_book rt" where
  "postgres_rt = (pending_rt [pending_row])\<lparr>rt_sess := session_on postgres_database 0\<rparr>"

lemma postgres_sound: "tables_ok postgres_database"
proof -
  have "catalog_ok (session_on postgres_database 0)"
    by (simp add: catalog_ok_def keys_ok_def referenced_def fk_holds_def session_on_def postgres_database_def
        pending_database_def empty_database_def)
      (simp add: crypto_database_def crypto_listing_def upper_def upper_char_upper is_upper_def)
  moreover have "references_ok postgres_database"
    by (simp add: references_ok_def postgres_database_def pending_database_def empty_database_def crypto_listing_def
        pending_row_fields)
  ultimately show ?thesis
    using pending_sound by (simp add: tables_ok_def) (simp add: postgres_database_def)
qed

theorem database_stays_sound_witness:
  "references_intact (durable (rt_sess (snd (run_scheduler demo_deployment default_settings 5 postgres_rt))))
   \<and> jobs postgres_database = [pending_row] \<and> job_listing_id pending_row = Some 7
   \<and> listings postgres_database = [crypto_listing] \<and> lst_id crypto_listing = 7"
proof -
  have "opened_run postgres_database postgres_rt"
    by (simp add: opened_run_def opened_def postgres_rt_def session_on_def pending_rt_def)
  then have "(system_step demo_scheduler)\<^sup>*\<^sup>* postgres_database
      (durable (rt_sess (snd (run_scheduler demo_deployment default_settings 5 postgres_rt))))"
    by (intro r_into_rtranclp system_step.ran [OF _ demo_considerate _ surjective_pairing]) (simp add: demo_scheduler_def)
  from database_stays_sound [OF this postgres_sound] show ?thesis
    by (simp add: postgres_database_def pending_database_def crypto_listing_def pending_row_fields)
qed

text \<open>
  SQLite checks the foreign keys that a schema declares only after \<open>PRAGMA foreign_keys=ON\<close>, which
  \<open>create_engine_from_settings\<close> leaves out: a listing of an instrument that is not there is registered.
\<close>

lemma sqlite_lets_references_dangle:
  "\<exists>db'. system_step E (empty_database SQLITE) db' \<and> tables_ok (empty_database SQLITE)
     \<and> references_intact (empty_database SQLITE) \<and> \<not> references_intact db'"
proof -
  let ?s = "session_on (empty_database SQLITE) 0" and ?i = "hd (instruments crypto_database)"
  let ?db = "durable (commit (run_operation (Add ?i ''KRAKEN'' ''BTC'' ''EUR'' None) ?s))"
  have "system_step E (empty_database SQLITE) ?db"
    by (rule system_step.registered) (simp add: opened_def session_on_def)
  moreover have "\<not> references_intact ?db"
    by (simp add: references_intact_def add_listing_def flush_insert_def insert_listing_def fk_holds_def session_on_def
        empty_database_def on_catalog_def crypto_database_def drawn_def commit_def)
  ultimately show ?thesis
    by (auto simp: tables_ok_def rows_ok_def unique_versions_def gapless_def references_ok_def references_intact_def
        catalog_ok_def keys_ok_def referenced_def fk_holds_def session_on_def empty_database_def)
qed

theorem nothing_recorded_is_lost_witness:
  "pending_database \<le> durable (rt_sess (snd (killed_run (In_Batch 1) demo_deployment default_settings 5 (pending_rt [pending_row]))))"
  by (rule nothing_recorded_is_lost [OF demo_killed pending_sound])

end
