(* ===== verification/Provenance.thy ===== *)
theory Provenance
  imports System
begin

text \<open>
  Every observation that a deployment ever stores names two decisions of the policy registry that
  approved its retrieval and its storage. What a job stores is known from \<open>Ingestion\<close>; here it is
  followed through batches, cycles, crashes and the life of the database. For that, the objects of a
  session have to show the source of their rows (\<open>objects_known\<close>), through every statement of a batch.
\<close>

section \<open>The objects of a session show their rows\<close>

definition rows_persist :: "job set \<Rightarrow> sess \<Rightarrow> bool" where
  "rows_persist rows s \<longleftrightarrow> distinct (map job_id (jobs (work s))) \<and> (\<forall>r \<in> rows. has_row r s)"

lemma rows_persist_cong: "jobs (work t) = jobs (work s) \<Longrightarrow> rows_persist rows t = rows_persist rows s"
  by (simp add: rows_persist_def has_row_def)

interpretation persistence: session_invariant "rows_persist rows" anything for rows
proof
  fix s p and f :: "job \<Rightarrow> job"
  assume s: "rows_persist rows s" "same_names f"
  have "map job_id (update_where p f (jobs (work s))) = map job_id (jobs (work s))"
    using s(2) by (rule same_names_map) (simp add: same_job_def)
  moreover have names: "same_job (f q) q" for q using s(2) unfolding same_names_def by blast
  have "has_row r (on_jobs (update_where p f) s)" if "has_row r s" for r
    by (rule has_row_update [OF that _ names, where p = p]) simp
  ultimately show "rows_persist rows (on_jobs (update_where p f) s)" using s(1) by (simp add: rows_persist_def)
next
  fix s j t
  assume s: "rows_persist rows s" "insert_job j s = Some t"
  then show "rows_persist rows t" using insert_job_SomeD [OF s(2)] by (auto simp: rows_persist_def has_row_def)
next
  fix s ob t
  assume "rows_persist rows s" "insert_observation ob s = Some t"
  then show "rows_persist rows t" using inserted(2) [of ob s t] rows_persist_cong [of t s] by simp
next
  fix s h
  assume "rows_persist rows s"
  then show "rows_persist rows (commit_elsewhere h s)" using rows_persist_cong [of "commit_elsewhere h s" s] by (simp add: table_facts)
qed (simp_all add: rows_persist_def has_row_def)

definition objects_known :: "'q rt \<Rightarrow> bool" where
  "objects_known rt \<longleftrightarrow> rows_persist (ran (rt_loaded rt)) (rt_sess rt) \<and> (\<forall>i j. rt_loaded rt i = Some j \<longrightarrow> job_id j = i)"

lemma objects_known_ok:
  assumes "objects_known rt"
  shows "objects_ok rt"
proof -
  have "same_job j r" if "rt_loaded rt i = Some j" "r \<in> set (jobs (work (rt_sess rt)))" "job_id r = i" for i j r
  proof -
    from that(1) assms have "has_row j (rt_sess rt)" "job_id j = i" by (auto simp: objects_known_def rows_persist_def ran_def)
    then obtain q where q: "q \<in> set (jobs (work (rt_sess rt)))" "same_job q j" "job_id q = i" by (auto simp: has_row_def same_job_def)
    with that assms have "q = r" using distinct_map_inj by (fastforce simp: objects_known_def rows_persist_def)
    with q(2) show ?thesis by (simp add: same_job_def)
  qed
  with assms show ?thesis by (auto simp: objects_ok_def objects_known_def rows_persist_def)
qed

lemma known_after:
  assumes "\<And>rows. keeps_run (rows_persist rows) m"
    and "\<And>rt x rt' i j. m rt = (x, rt') \<Longrightarrow> objects_known rt \<Longrightarrow> rt_loaded rt' i = Some j
      \<Longrightarrow> rt_loaded rt i = Some j \<or> job_id j = i \<and> has_row j (rt_sess rt')"
  shows "keeps objects_known m"
proof (rule keepsI)
  fix rt x rt'
  assume rt: "objects_known rt" "m rt = (x, rt')"
  then have "rows_persist (ran (rt_loaded rt)) (rt_sess rt')"
    using keepsD [OF assms(1) rt(2)] by (simp add: objects_known_def)
  with rt(1) assms(2) [OF rt(2,1)] show "objects_known rt'"
    unfolding objects_known_def rows_persist_def ran_def by blast
qed

lemma transition_loads: "transition i m rt = (x, rt') \<Longrightarrow> rt_loaded rt' k = Some j \<Longrightarrow> rt_loaded rt k = Some j"
  by (auto simp: transition_def split: prod.splits sum.splits if_splits)

lemma in_session_loads: "in_session m rt = (x, rt') \<Longrightarrow> rt_loaded rt' = rt_loaded rt"
  by (auto simp: in_session_def split: prod.splits)

text \<open>A claimed job is the row that was claimed.\<close>

lemma try_claim_row:
  assumes "try_claim_one lk i w now s = (Inr (Some c), t)" and "distinct (map job_id (jobs (work s)))"
  shows "has_row c t"
proof -
  have "claim_attempt i w now s = (Inr (Some c), t)" using assms(1) by (simp add: try_claim_one_eq split: if_splits)
  then have "c \<in> set (jobs (work t))" by (auto simp: claim_attempt_def Let_def dest: select_first_SomeD split: if_splits)
  moreover have "distinct (map job_id (jobs (work t)))"
    using keepsD [OF persistence.try_claim_kept assms(1), of "{}"] assms(2) by (simp add: rows_persist_def)
  ultimately show ?thesis by (rule has_rowI [rotated])
qed

lemma claim_each_rows:
  "claim_each lk w now limit ids claimed s = (Inr js, t) \<Longrightarrow> rows_persist (set claimed) s \<Longrightarrow> rows_persist (set js) t"
proof (induction ids arbitrary: claimed s)
  case (Cons i ids)
  obtain y u where y: "try_claim_one lk i w now s = (y, u)" by fastforce
  note u = keepsD [OF persistence.try_claim_kept y Cons.prems(2)]
  have "rows_persist (set (claimed @ [c])) u" if "y = Inr (Some c)" for c
    using u try_claim_row [OF y [unfolded that]] Cons.prems(2) by (simp add: rows_persist_def)
  with Cons y u show ?case by (auto split: if_splits sum.splits option.splits)
qed simp

lemma claim_next_rows:
  assumes "claim_next lk w now source limit lease s = (Inr js, t)" and "rows_persist {} s"
  shows "rows_persist (set js) t"
proof -
  have 1: "keeps (rows_persist {}) (andthen (recover_expired now lease) (\<lambda>_. andthen (promote_due_waiting now) (\<lambda>_.
      retry_on_lock lock_retry_attempts (\<lambda>n. when_locked (lk None n)
        (\<lambda>s. (Inr (candidate_ids now source limit (jobs (work s))), s))))))"
    by (intro keeps_andthen persistence.recover_kept persistence.promote_kept keeps_retry keeps_when_locked) (simp add: keeps_def)
  obtain ids u where "andthen (recover_expired now lease) (\<lambda>_. andthen (promote_due_waiting now) (\<lambda>_.
      retry_on_lock lock_retry_attempts (\<lambda>n. when_locked (lk None n)
        (\<lambda>s. (Inr (candidate_ids now source limit (jobs (work s))), s))))) s = (Inr ids, u)"
    "claim_each lk w now limit ids [] u = (Inr js, t)"
    using assms(1) by (auto simp: claim_next_def andthen_eq_Inr)
  with keepsD [OF 1] assms(2) claim_each_rows show ?thesis by fastforce
qed

interpretation objects: process_invariant "objects_known :: 'q rt \<Rightarrow> bool" anything
proof
  show "keeps objects_known (the_job i :: ('q, job) run)" for i
    by (rule known_after [OF persistence.run.reads])
      (auto simp: the_job_def objects_known_def rows_persist_def intro: has_rowI dest: select_first_SomeD split: option.splits if_splits)
  show "keeps objects_known (consume_quota R source)" for R :: "'q runner" and source
    by (rule known_after [OF persistence.run.consumes]) (auto simp: consume_quota_def split: prod.splits)
  show "keeps objects_known (in_session (assert_owned j w g) :: ('q, unit) run)" for j w g
    by (rule known_after [OF persistence.run.fences]) (auto dest: in_session_loads)
  show "keeps objects_known (transition i (mark_running j w g) :: ('q, unit) run)" for i j w g
    by (rule known_after [OF persistence.run.runs]) (auto dest: transition_loads)
  show "keeps objects_known (transition i (mark_done j w g now) :: ('q, unit) run)" for i j w g now
    by (rule known_after [OF persistence.run.finishes]) (auto dest: transition_loads)
  show "keeps objects_known (transition i (mark_failed j w g err now) :: ('q, unit) run)" for i j w g err now
    by (rule known_after [OF persistence.run.fails]) (auto dest: transition_loads)
  show "keeps objects_known (transition i (defer_for_quota j w g at1 now) :: ('q, unit) run)" for i j w g at1 now
    by (rule known_after [OF persistence.run.defers]) (auto dest: transition_loads)
  show "keeps objects_known (in_session (store_rows R j c auth now raws k l) :: ('q, nat \<times> nat) run)"
    for R :: "'q runner" and j c auth now raws k l
    by (rule known_after [OF persistence.run.stores]) (auto dest: in_session_loads)
  show "keeps objects_known (claim_pending R j w now)" for R :: "'q runner" and j w now
  proof (rule known_after [OF persistence.run.claims])
    fix rt rt' :: "'q rt" and x i k
    assume rt: "claim_pending R j w now rt = (x, rt')" "objects_known rt" "rt_loaded rt' i = Some k"
    show "rt_loaded rt i = Some k \<or> job_id k = i \<and> has_row k (rt_sess rt')"
    proof (cases "\<exists>c s. try_claim_one (locks R) (job_id j) w now (rt_sess rt) = (Inr (Some c), s) \<and> job_status j = PENDING")
      case True
      then obtain c s where c: "try_claim_one (locks R) (job_id j) w now (rt_sess rt) = (Inr (Some c), s)" "job_status j = PENDING" by blast
      with rt(1) have "rt_sess rt' = s" "rt_loaded rt' = (rt_loaded rt)(job_id c \<mapsto> c)"
        by (auto simp: claim_pending_def claim_job_def andthen_def in_session_def)
      with rt(2,3) try_claim_row [OF c(1)] show ?thesis by (auto simp: objects_known_def rows_persist_def split: if_splits)
    next
      case False
      with rt(1) have "rt_loaded rt' = rt_loaded rt"
        by (auto simp: claim_pending_def claim_job_def andthen_def in_session_def split: prod.splits sum.splits option.splits if_splits)
      with rt(3) show ?thesis by simp
    qed
  qed
  show "keeps objects_known (claim_batch D st w now n)" for D :: "'q deployment" and st w now n
  proof (rule known_after [OF persistence.run.batches])
    fix rt rt' :: "'q rt" and x i k
    assume rt: "claim_batch D st w now n rt = (x, rt')" "objects_known rt" "rt_loaded rt' i = Some k"
    obtain y s where y: "claim_next (lock_failures D) w now None n (job_lease_seconds st) (rt_sess rt) = (y, s)" by fastforce
    show "rt_loaded rt i = Some k \<or> job_id k = i \<and> has_row k (rt_sess rt')"
    proof (cases y)
      case (Inl e)
      with rt y show ?thesis by (auto simp: claim_batch_def andthen_def in_session_def)
    next
      case (Inr js)
      with rt(1) y have rt': "rt_sess rt' = s"
        "rt_loaded rt' i = (case select_first (\<lambda>j. job_id j = i) js of None \<Rightarrow> rt_loaded rt i | Some j \<Rightarrow> Some j)"
        by (auto simp: claim_batch_def andthen_def in_session_def split: option.split)
      have "rows_persist (set js) s"
        using claim_next_rows [OF y [unfolded Inr]] rt(2) by (simp add: objects_known_def rows_persist_def)
      with rt' rt(3) show ?thesis
        by (auto simp: rows_persist_def dest: select_first_SomeD split: option.splits)
    qed
  qed
qed

section \<open>Licences\<close>

text \<open>The two decisions that a row names, among the given ones.\<close>

definition licensed :: "policy_decision set \<Rightarrow> observation \<Rightarrow> bool" where
  "licensed ds ob \<longleftrightarrow>
     (\<exists>d \<in> ds. retrieval_policy_decision_id ob = Some (dec_id d) \<and> dec_source d = obs_source ob
        \<and> dec_capability d = RETRIEVE \<and> dec_status d = APPROVED)
     \<and> (\<exists>d \<in> ds. storage_policy_decision_id ob = Some (dec_id d) \<and> dec_source d = obs_source ob
        \<and> dec_capability d = STORE \<and> dec_status d = APPROVED)"

lemma licensed_mono: "licensed ds ob \<Longrightarrow> ds \<subseteq> es \<Longrightarrow> licensed es ob"
  unfolding licensed_def by blast

definition decided_by :: "policy_decision set \<Rightarrow> sess \<Rightarrow> bool" where
  "decided_by ds s \<longleftrightarrow> ds \<subseteq> set (decisions (work s)) \<and> set (decisions (durable s)) = set (decisions (work s))"

interpretation decided: cycle_invariant "decided_by ds" anything for ds
  by unfold_locales (auto simp: decided_by_def table_facts dest!: inserted)

definition all_licensed :: "sess \<Rightarrow> bool" where
  "all_licensed s \<longleftrightarrow> decided_by {} s
     \<and> (\<forall>ob \<in> set (observations (work s)) \<union> set (observations (durable s)). licensed (set (decisions (work s))) ob)"

interpretation licence_claims: claim_invariant all_licensed
  by unfold_locales (auto simp: all_licensed_def decided_by_def)

interpretation licence_queue: queue_invariant all_licensed
  by unfold_locales (auto simp: all_licensed_def decided_by_def dest!: inserted)

lemma all_licensed_simps [simp]:
  "all_licensed (on_runs k s) = all_licensed s" "all_licensed s \<Longrightarrow> all_licensed (commit s)"
  "all_licensed s \<Longrightarrow> all_licensed (rollback s)" "all_licensed (drawn s) = all_licensed s"
  by (simp_all add: all_licensed_def decided_by_def)

lemma authorized_licensed:
  assumes "authorize_ingestion s source = Inr auth" and "stored_from R r c auth now raw ob" and "job_source r = source"
  shows "licensed (set (decisions (work s))) ob"
proof -
  note a = authorize_ingestion_Inr [OF assms(1)]
  have "d \<in> set (decisions (work s)) \<and> dec_source d = source \<and> dec_capability d = cap"
    if "effective_decision s source cap = Some d" for cap d
    using first_max_SomeD [OF that [unfolded effective_decision_def]] by auto
  with a assms(2,3) show ?thesis by (auto simp: licensed_def stored_from_def natural_key_def)
qed

section \<open>Other sessions\<close>

text \<open>
  Sessions beside a batch that store no observation; they may move jobs, add jobs and record decisions,
  in the tables that they commit.
\<close>

definition stores_nothing_beside :: "'q deployment \<Rightarrow> bool" where
  "stores_nothing_beside D \<longleftrightarrow> rival_rows D = no_rivals
     \<and> (\<forall>n s. observations (work (concurrently D n s)) = observations (work s)
          \<and> observations (durable (concurrently D n s)) = observations (durable s)
          \<and> (\<forall>rows. rows_persist rows s \<longrightarrow> rows_persist rows (concurrently D n s))
          \<and> (\<forall>ds. decided_by ds s \<longrightarrow> decided_by ds (concurrently D n s)))"

lemma beside_bystanders:
  assumes "stores_nothing_beside D"
  shows "bystanders (runner_for D st ports)"
proof -
  have "has_row r (concurrently D n s)" if "has_row r s" for r n s
    using assms that unfolding stores_nothing_beside_def
    by (elim conjE allE [of _ n] allE [of _ s] allE [of _ "{r}"]) (auto simp: rows_persist_def has_row_def)
  with assms show ?thesis by (simp add: bystanders_def runner_for_def stores_nothing_beside_def)
qed

lemma known_endures:
  assumes "stores_nothing_beside D"
  shows "endures objects_known anything D st"
  using assms
  by (auto simp: endures_def objects_known_def call_provider_def runner_for_def stores_nothing_beside_def)

section \<open>What is durable while a job is processed\<close>

interpretation durable_rows: row_invariant "\<lambda>s. observations (durable s) = X" "\<lambda>h. \<forall>os. h os = []" for X
  by unfold_locales (auto simp: commit_elsewhere_def Let_def dest!: inserted)

interpretation durable_claim: claim_invariant "\<lambda>s. observations (work s) = W \<and> observations (durable s) \<in> {X, W}" for X W
  by unfold_locales auto

lemma process_durable:
  assumes "process (runner_for D st ports) i w at1 rt = (x, rt')" and "stores_nothing_beside D"
  shows "observations (durable (rt_sess rt')) \<in> {observations (durable (rt_sess rt)), observations (work (rt_sess rt))}"
proof -
  let ?R = "runner_for D st ports" and ?X = "observations (durable (rt_sess rt))" and ?W = "observations (work (rt_sess rt))"
  define now where "now = (case at1 of None \<Rightarrow> utcnow (rt_sess rt) | Some t \<Rightarrow> t)"
  let ?P = "\<lambda>s. observations (work s) = ?W \<and> observations (durable s) \<in> {?X, ?W}"
  have authorized: "observations (durable (rt_sess rt')) = Y"
    if "authorize_and_parse ?R j w now rt1 = (x, rt')" "observations (durable (rt_sess rt1)) = Y" for j rt1 Y
  proof -
    have "keeps_run (\<lambda>s. observations (durable s) = Y) (authorize_and_parse ?R j w now)"
      by (rule durable_rows.run.authorize_kept)
        (use assms(2) in \<open>simp_all add: call_provider_def runner_for_def stores_nothing_beside_def no_rivals_def\<close>)
    from keepsD [OF this that(1)] that(2) show ?thesis by simp
  qed
  obtain y rt1 where y: "andthen (the_job i) (\<lambda>j0. claim_pending ?R j0 w now) rt = (y, rt1)" by fastforce
  have "keeps_run ?P (andthen (the_job i) (\<lambda>j0. claim_pending ?R j0 w now))"
    by (intro keeps_andthen keeps_the_job durable_claim.claim_pending_kept)
  from keepsD [OF this y] have d: "observations (durable (rt_sess rt1)) \<in> {?X, ?W}" by simp
  have "process ?R i w at1 rt = andthen (andthen (the_job i) (\<lambda>j0. claim_pending ?R j0 w now)) (\<lambda>j. authorize_and_parse ?R j w now) rt"
    by (simp add: process_def Let_def now_def andthen_assoc)
  with assms(1) y d authorized show ?thesis by (cases y) (auto simp: andthen_def)
qed

lemma process_decided:
  assumes "process (runner_for D st ports) i w at1 rt = (x, rt')" and "stores_nothing_beside D" and "decided_by ds (rt_sess rt)"
  shows "decided_by ds (rt_sess rt')"
proof -
  have "keeps_run (decided_by ds) (process (runner_for D st ports) i w at1)"
    by (rule decided.run.process_kept) (use assms(2) in \<open>auto simp: call_provider_def runner_for_def stores_nothing_beside_def\<close>)
  from keepsD [OF this assms(1)] assms(3) show ?thesis by simp
qed

section \<open>Batches\<close>

definition licensed_batch :: "'q rt \<Rightarrow> bool" where
  "licensed_batch rt \<longleftrightarrow> objects_known rt \<and> all_licensed (rt_sess rt)"

lemma keeps_licensed: "keeps objects_known m \<Longrightarrow> keeps_run all_licensed m \<Longrightarrow> keeps licensed_batch m"
  unfolding licensed_batch_def [abs_def] by (rule keeps_conj)

interpretation licences: owner_invariant licensed_batch
  by unfold_locales
    (intro keeps_licensed objects.reads objects.consumes objects.fences objects.runs objects.finishes objects.fails objects.defers
      licence_claims.run.reads licence_claims.run.consumes licence_claims.run.fences licence_claims.run.runs
      licence_claims.run.finishes licence_claims.run.fails licence_claims.run.defers)+

lemma process_licensed:
  assumes "process (runner_for D st ports) i w (Some now) rt = (x, rt')" and "stores_nothing_beside D" and "licensed_batch rt"
  shows "all_licensed (rt_sess rt')"
proof (cases "\<exists>r \<in> set (jobs (work (rt_sess rt))). job_id r = i")
  case True
  then obtain r where r: "r \<in> set (jobs (work (rt_sess rt)))" "job_id r = i" by blast
  let ?ds = "set (decisions (work (rt_sess rt)))"
  have lic: "all_licensed (rt_sess rt)" using assms(3) by (simp add: licensed_batch_def)
  have "decided_by ?ds (rt_sess rt)" using lic by (simp add: all_licensed_def decided_by_def)
  from process_decided [OF assms(1,2) this] have ds: "decided_by ?ds (rt_sess rt')" .
  obtain new where new: "observations (work (rt_sess rt')) = observations (work (rt_sess rt)) @ new"
    "\<And>ob. ob \<in> set new \<Longrightarrow> licensed ?ds ob"
    using process_stored [OF assms(1) objects_known_ok r beside_bystanders [OF assms(2)]] assms(3) authorized_licensed
    by (fastforce simp: licensed_batch_def)
  have old: "licensed ?ds ob" if "ob \<in> set (observations (work (rt_sess rt))) \<union> set (observations (durable (rt_sess rt)))" for ob
    using lic that by (simp add: all_licensed_def)
  have "licensed ?ds ob" if "ob \<in> set (observations (work (rt_sess rt'))) \<union> set (observations (durable (rt_sess rt')))" for ob
    using that new old process_durable [OF assms(1,2)] by auto
  with ds show ?thesis unfolding all_licensed_def decided_by_def by (blast intro: licensed_mono)
next
  case False
  have "rt_loaded rt i = None"
  proof (rule ccontr)
    assume "rt_loaded rt i \<noteq> None"
    then obtain j where "has_row j (rt_sess rt)" "job_id j = i"
      using assms(3) by (auto simp: licensed_batch_def objects_known_def rows_persist_def ran_def)
    with False show False by (auto simp: has_row_def same_job_def)
  qed
  moreover have "select_first (\<lambda>r. job_id r = i) (jobs (work (rt_sess rt))) = None"
    using False by (simp add: select_first_None_iff)
  ultimately have "rt' = rt" using assms(1) by (simp add: process_def Let_def andthen_def the_job_def)
  with assms(3) show ?thesis by (simp add: licensed_batch_def)
qed

lemma process_one_licensed:
  assumes "stores_nothing_beside D"
  shows "keeps licensed_batch (process_one D st w now i)"
proof (rule keepsI)
  fix rt x rt'
  assume rt: "licensed_batch rt" "process_one D st w now i rt = (x, rt')"
  have known: "objects_known rt'"
    using keepsD [OF objects.process_one_kept [OF known_endures [OF assms]] rt(2)] rt(1) by (simp add: licensed_batch_def)
  obtain y rt1 where y: "the_job i rt = (y, rt1)" by fastforce
  have rt1: "licensed_batch rt1" using keepsD [OF licences.reads y rt(1)] .
  have "all_licensed (rt_sess rt')"
  proof (cases "\<exists>j ports. y = Inr j \<and> ports_of D (job_source j) = Inr ports")
    case True
    with rt(2) y obtain ports where "process (runner_for D st ports) i w (Some now) rt1 = (x, rt')"
      by (auto simp: process_one_def andthen_def)
    from process_licensed [OF this assms rt1] show ?thesis .
  next
    case False
    with rt(2) y have "rt' = rt1" by (auto simp: process_one_def andthen_def split: sum.splits)
    with rt1 show ?thesis by (simp add: licensed_batch_def)
  qed
  with known show "licensed_batch rt'" by (simp add: licensed_batch_def)
qed

lemma claim_batch_licensed: "keeps licensed_batch (claim_batch D st w now n)"
  by (rule keeps_licensed) (rule objects.batches licence_claims.claim_batch_kept)+

lemma batch_licensed:
  assumes "stores_nothing_beside D"
  shows "keeps licensed_batch (claim_and_process D st w now n)" "keeps licensed_batch (process_some D st w now k)"
  unfolding claim_and_process_def process_some_def
  by (intro keeps_andthen claim_batch_licensed licences.each_kept process_one_licensed assms)+

section \<open>Cycles\<close>

lemma known_cong:
  assumes "rt_loaded rt' = rt_loaded rt" and "jobs (work (rt_sess rt')) = jobs (work (rt_sess rt))"
  shows "objects_known rt' = objects_known rt"
  unfolding objects_known_def assms(1) using rows_persist_cong [OF assms(2)] by simp

lemma results_licensed [simp]:
  "all_licensed s \<Longrightarrow> all_licensed (record_scheduler_result i status code s)"
  "all_licensed s \<Longrightarrow> all_licensed (record_worker_result i status code s)"
  by (simp_all add: record_scheduler_result_def record_worker_result_def)

lemma started_licensed: "keeps licensed_batch (started_run now)"
proof (rule keepsI)
  fix rt x and rt' :: "'q rt"
  assume rt: "licensed_batch rt" "started_run now rt = (x, rt')"
  then have "rt_loaded rt' = rt_loaded rt" "jobs (work (rt_sess rt')) = jobs (work (rt_sess rt))" "all_licensed (rt_sess rt')"
    by (auto simp: started_run_def start_run_def licensed_batch_def)
  with rt(1) known_cong [of rt' rt] show "licensed_batch rt'" by (simp add: licensed_batch_def)
qed

lemma refresh_phase_licensed:
  assumes "refresh_phase D st limits n now i rt = (x, rt')" and "licensed_batch rt"
  shows "all_licensed (rt_sess rt')" and "x = Inr rf \<Longrightarrow> licensed_batch rt'"
proof -
  obtain y rt1 where y: "in_session (refresh_and_dispatch D st limits n now) rt = (y, rt1)" by fastforce
  have "keeps objects_known (in_session (refresh_and_dispatch D st limits n now) :: ('a, refresh_outcome) run)"
    by (rule known_after [OF keeps_in_session [OF persistence.refresh_kept]]) (auto dest: in_session_loads)
  from keeps_licensed [OF this keeps_in_session [OF licence_queue.refresh_kept]] have rt1: "licensed_batch rt1"
    using y assms(2) by (rule keepsD)
  then show "all_licensed (rt_sess rt')"
    using assms(1) y by (cases y) (auto simp: refresh_phase_def licensed_batch_def)
  assume "x = Inr rf"
  with assms(1) y have rt': "rt' = on_sess (record_scheduler_result i SUCCESS None) (on_sess commit rt1)"
    by (auto simp: refresh_phase_def split: sum.splits)
  have "objects_known rt' = objects_known rt1"
    by (rule known_cong) (simp_all add: rt' on_sess_def record_scheduler_result_def)
  with rt1 \<open>all_licensed (rt_sess rt')\<close> show "licensed_batch rt'" by (simp add: licensed_batch_def)
qed

lemma processing_phase_licensed:
  assumes "processing_phase D st w now i rf rt = (x, rt')" and "licensed_batch rt" and "stores_nothing_beside D"
  shows "all_licensed (rt_sess rt')"
proof -
  obtain y rt1 where y: "claim_and_process D st w now (nat (scheduler_batch_size st)) rt = (y, rt1)" by fastforce
  from keepsD [OF batch_licensed(1) [OF assms(3)] y assms(2)] have "all_licensed (rt_sess rt1)" by (simp add: licensed_batch_def)
  with assms(1) y show ?thesis by (cases y) (auto simp: processing_phase_def)
qed

lemma cycle_licensed:
  assumes "run_scheduler_cycle D st limits n w now rt = (x, rt')" and "licensed_batch rt" and "stores_nothing_beside D"
  shows "all_licensed (rt_sess rt')"
proof -
  obtain i s where start: "start_run now (rt_sess rt) = (i, s)" by fastforce
  then have "started_run now rt = (Inr i, rt\<lparr>rt_sess := s\<rparr>)" by (simp add: started_run_def)
  from keepsD [OF started_licensed this assms(2)] have rt0: "licensed_batch (rt\<lparr>rt_sess := s\<rparr>)" .
  obtain y rt1 where y: "refresh_phase D st limits n now i (rt\<lparr>rt_sess := s\<rparr>) = (y, rt1)" by fastforce
  note rt1 = refresh_phase_licensed [OF y rt0]
  from assms(1) start y rt1 show ?thesis
    by (cases y) (auto simp: run_scheduler_cycle_def andthen_def dest!: processing_phase_licensed [OF _ _ assms(3)])
qed

lemma run_licensed:
  assumes "run_scheduler D st now rt = (x, rt')" and "licensed_batch rt" and "stores_nothing_beside D"
  shows "all_licensed (rt_sess rt')"
  using assms(1) cycle_licensed [OF _ assms(2,3)]
  by (auto simp: run_scheduler_def session_scope_def split: prod.splits sum.splits)

lemma killed_licensed:
  assumes "killed_run point D st now rt = (x, rt')" and "licensed_batch rt" and "stores_nothing_beside D"
  shows "all_licensed (rt_sess rt')"
proof -
  have until: "keeps_run all_licensed (processing_until point D st w now)" if "\<forall>k. point \<noteq> In_Batch k" for w
    using that by (cases point) (auto intro!: keeps_andthen keeps_in_session licence_claims.recover_kept licence_claims.claim_some_kept)
  obtain y rt1 where y: "started_run now rt = (y, rt1)" by fastforce
  note rt1 = keepsD [OF started_licensed y assms(2)]
  obtain i where i: "y = Inr i" using y by (auto simp: started_run_def split: prod.splits)
  show ?thesis
  proof (cases "point = In_Refresh")
    case True
    with assms(1) y i rt1 show ?thesis by (simp add: killed_run_def andthen_def licensed_batch_def)
  next
    case False
    obtain z rt2 where z: "refresh_phase D st None max_listings_refreshed_per_source now i rt1 = (z, rt2)" by fastforce
    note rt2 = refresh_phase_licensed [OF z rt1]
    show ?thesis
    proof (cases z)
      case (Inl e)
      with assms(1) y i z False rt2 show ?thesis by (simp add: killed_run_def andthen_def)
    next
      case (Inr rf)
      with assms(1) y i z False have p: "processing_until point D st scheduler_worker_id now rt2 = (x, rt')"
        by (simp add: killed_run_def andthen_def)
      show ?thesis
      proof (cases "\<exists>k. point = In_Batch k")
        case True
        then obtain k where "point = In_Batch k" ..
        moreover have "keeps licensed_batch (andthen (process_some D st scheduler_worker_id now k) (\<lambda>_. ret ()))"
          by (intro keeps_andthen batch_licensed assms keeps_ret)
        ultimately show ?thesis using keepsD p rt2(2) [OF Inr] by (fastforce simp: licensed_batch_def)
      next
        case False
        with keepsD [OF until p] rt2(1) show ?thesis by blast
      qed
    qed
  qed
qed

section \<open>The life of a database\<close>

definition licensed_rows :: "database \<Rightarrow> bool" where
  "licensed_rows db \<longleftrightarrow> (\<forall>ob \<in> set (observations db). licensed (set (decisions db)) ob)"

lemma step_licensed:
  assumes "system_step E db db'" and "tables_ok db" and "licensed_rows db" and "\<And>D st. (D, st) \<in> E \<Longrightarrow> stores_nothing_beside D"
  shows "licensed_rows db'"
proof -
  have start: "licensed_batch rt" if "opened_run db rt" for rt :: "'a rt"
    using that assms(2,3)
    by (simp add: opened_run_def opened_def licensed_batch_def objects_known_def rows_persist_def all_licensed_def decided_by_def
        licensed_rows_def tables_ok_def)
  have ends: "licensed_rows (durable s)" if "all_licensed s" for s
    using that by (auto simp: all_licensed_def licensed_rows_def decided_by_def)
  from assms(1) show ?thesis
  proof cases
    case (ran D st rt now x rt')
    with run_licensed start ends assms(4) show ?thesis by blast
  next
    case (killed D st rt point now u rt')
    with killed_licensed start ends assms(4) show ?thesis by blast
  next
    case (decided s d r t)
    have "observations (work t) = observations (work s)" "set (decisions (work s)) \<subseteq> set (decisions (work t))"
      using decided(3) by (auto simp: record_decision_def insert_decision_def on_decisions_def split: option.splits if_splits)
    with decided assms(3) show ?thesis by (auto simp: opened_def licensed_rows_def intro: licensed_mono)
  next
    case (registered s op1)
    with run_operation_extends [of s op1] assms(3) show ?thesis
      by (auto simp: opened_def licensed_rows_def catalog_extended_def)
  qed
qed

text \<open>
  C7. Every stored row is licensed. In every database that a deployment reaches, each observation names an
  \<open>APPROVED\<close> decision on \<open>RETRIEVE\<close> and one on \<open>STORE\<close> for its own source, both in the registry: no
  run, crash or order of decisions and jobs brings in a row of a source that had not been approved.
  Sessions beside the runs may do anything but store observations themselves.
\<close>

theorem every_row_is_licensed:
  assumes "(system_step E)\<^sup>*\<^sup>* db db'" and "tables_ok db" and "licensed_rows db"
    and "\<And>D st. (D, st) \<in> E \<Longrightarrow> stores_nothing_beside D"
  shows "licensed_rows db'"
proof -
  from assms(1-3) have "tables_ok db' \<and> licensed_rows db'"
    by (induction rule: rtranclp_induct) (use step_sound step_licensed assms(4) in blast)+
  then show ?thesis ..
qed

theorem every_row_is_licensed_witness:
  "licensed_rows (durable (rt_sess (snd (run_scheduler demo_deployment default_settings 5 (pending_rt [pending_row])))))"
proof (rule every_row_is_licensed [OF demo_run pending_sound])
  show "licensed_rows pending_database" by (simp add: licensed_rows_def pending_database_def empty_database_def)
  show "stores_nothing_beside D" if "(D, st) \<in> demo_scheduler" for D and st :: settings
    using that by (simp add: demo_scheduler_def demo_deployment_def stores_nothing_beside_def)
qed

end
