(* ===== verification/Batch.thy ===== *)
theory Batch
  imports System
begin

text \<open>
  A whole batch of due jobs is done (\<open>scheduler_service.claim_and_process\<close>): what \<open>Ingestion\<close> shows of one
  job is carried along the loop over the claimed jobs. In between, the jobs that are left keep their
  claims, their sources their approval and their share of the quota.
\<close>

section \<open>What a batch leaves as it is\<close>

definition reference_tables :: "sess \<Rightarrow> policy_decision list \<times> listing list \<times> instrument list \<times> dialect" where
  "reference_tables s = (decisions (work s), listings (work s), instruments (work s), engine (work s))"

interpretation reference_rows: batch_invariant "\<lambda>s. reference_tables s = tables" anything for tables
  by unfold_locales (auto simp: reference_tables_def table_facts dest!: inserted)

lemma reference_tables_rows:
  assumes "reference_tables t = reference_tables s"
  shows "newest_approved t source cap = newest_approved s source cap"
    and "fk_holds t (listing_exists t l) = fk_holds s (listing_exists s l)"
proof -
  have same: "decisions (work t) = decisions (work s)" "listings (work t) = listings (work s)" "engine (work t) = engine (work s)"
    using assms by (simp_all add: reference_tables_def)
  show "newest_approved t source cap = newest_approved s source cap"
    unfolding newest_approved_iff [symmetric] by (simp add: effective_status_def effective_decision_def same)
  show "fk_holds t (listing_exists t l) = fk_holds s (listing_exists s l)"
    by (simp add: fk_holds_def listing_exists_def same)
qed

section \<open>Jobs that can be done\<close>

text \<open>
  Everything that a job needs, but for the quota: adapters that keep their contracts and answer whichever
  call of the run it is, approval, a readable cursor and a listing.
\<close>

definition servable :: "'q deployment \<Rightarrow> settings \<Rightarrow> sess \<Rightarrow> job \<Rightarrow> bool" where
  "servable D st s j \<longleftrightarrow>
     newest_approved s (job_source j) RETRIEVE \<and> newest_approved s (job_source j) STORE
     \<and> (\<exists>ports f c l. ports_of D (job_source j) = Inr ports \<and> quota_laws (snd ports) \<and> historical_port f
          \<and> parse_cursor (job_cursor j) = Inr c \<and> job_listing_id j = Some l \<and> fk_holds s (listing_exists s l)
          \<and> (\<forall>k. run_with_deadline (pipe_size D) (provider_timeout_seconds st)
                (fst ports k (cur_external_listing_id c) (cur_start c) (cur_end c))
              = Inr (f (cur_external_listing_id c) (cur_start c) (cur_end c))))"

lemma servable_cong:
  assumes "reference_tables t = reference_tables s" and "same_job r j"
  shows "servable D st t r = servable D st s j"
  using assms(2) by (simp add: servable_def reference_tables_rows [OF assms(1)] same_job_def)

definition jobs_of :: "string \<Rightarrow> job list \<Rightarrow> job list" where
  "jobs_of source js = filter (\<lambda>j. job_source j = source) js"

text \<open>The quota of every source suffices for its jobs, and spending at one source spends at no other.\<close>

definition quota_suffices :: "'q deployment \<Rightarrow> 'q \<Rightarrow> job list \<Rightarrow> bool" where
  "quota_suffices D b js \<longleftrightarrow> (\<forall>source ports. ports_of D source = Inr ports \<and> jobs_of source js \<noteq> []
     \<longrightarrow> (\<exists>q. quota_check (snd ports) source b = Inr q \<and> int (length (jobs_of source js)) \<le> qs_remaining q))"

lemma quota_sufficesD:
  assumes "quota_suffices D b js" and "ports_of D source = Inr ports" and "jobs_of source js \<noteq> []"
  obtains q where "quota_check (snd ports) source b = Inr q" "int (length (jobs_of source js)) \<le> qs_remaining q"
  using assms unfolding quota_suffices_def by blast

definition separate_quotas :: "'q deployment \<Rightarrow> bool" where
  "separate_quotas D \<longleftrightarrow> (\<forall>a b ports ports' cost r x y. a \<noteq> b \<and> ports_of D a = Inr ports \<and> ports_of D b = Inr ports'
     \<and> quota_consume (snd ports) a cost x = (r, y) \<longrightarrow> quota_check (snd ports') b y = quota_check (snd ports') b x)"

lemma quota_passed_on:
  assumes "quota_suffices D b (r # rs)" and "separate_quotas D" and "ports_of D (job_source r) = Inr ports"
    and "quota_check (snd ports) (job_source r) b = Inr q" and "quota_consume (snd ports) (job_source r) 1 b = (x, b')"
    and "quota_check (snd ports) (job_source r) b' = Inr q'" and "qs_remaining q' = qs_remaining q - 1"
  shows "quota_suffices D b' rs"
  unfolding quota_suffices_def
proof (intro allI impI, elim conjE)
  fix source ports1
  assume source: "ports_of D source = Inr ports1" "jobs_of source rs \<noteq> []"
  moreover have "jobs_of source (r # rs) \<noteq> []" using source(2) by (auto simp: jobs_of_def)
  ultimately obtain q1 where q1: "quota_check (snd ports1) source b = Inr q1" "int (length (jobs_of source (r # rs))) \<le> qs_remaining q1"
    using quota_sufficesD [OF assms(1)] by blast
  show "\<exists>q. quota_check (snd ports1) source b' = Inr q \<and> int (length (jobs_of source rs)) \<le> qs_remaining q"
  proof (cases "source = job_source r")
    case True
    with assms(3,4,6,7) source q1 show ?thesis by (auto simp: jobs_of_def)
  next
    case False
    then have "quota_check (snd ports1) source b' = Inr q1"
      using assms(2,3,5) source(1) q1(1) unfolding separate_quotas_def by metis
    with q1(2) show ?thesis by (auto simp: jobs_of_def split: if_splits)
  qed
qed

section \<open>Rows that are stored\<close>

text \<open>A price that the column and the comparison of values keep as it is.\<close>

definition exact_row :: "(decimal \<Rightarrow> decimal) \<Rightarrow> raw_observation \<Rightarrow> bool" where
  "exact_row col raw \<longleftrightarrow> list_all (\<lambda>x. col x = x \<and> x \<noteq> NaN)
     (raw_close raw # List.map_filter id [raw_open raw, raw_high raw, raw_low raw, raw_adjusted_close raw])"

lemma exact_row_kept: "kept_by col (row_input j l c auth now raw) = exact_row col raw"
  by (simp add: kept_by_def exact_row_def row_input_def)

text \<open>The row as the store has it: under its natural key for the job, with all its values.\<close>

definition stored_for :: "job \<Rightarrow> raw_observation \<Rightarrow> observation list \<Rightarrow> bool" where
  "stored_for j raw os \<longleftrightarrow> (\<exists>ob \<in> set os. \<exists>c. parse_cursor (job_cursor j) = Inr c
     \<and> natural_key ob = (job_source j, cur_credential_scope c, raw_external_listing_id raw, raw_session_date raw,
         raw_observation_type raw)
     \<and> obs_currency ob = upper (raw_currency raw) \<and> obs_close ob = raw_close raw \<and> obs_open ob = raw_open raw
     \<and> obs_high ob = raw_high raw \<and> obs_low ob = raw_low raw \<and> obs_adjusted_close ob = raw_adjusted_close raw
     \<and> quality_status ob = QS_OK)"

text \<open>What the provider of the job's source answers to its cursor at the \<open>k\<close>-th call of the run.\<close>

definition answer_to :: "'q deployment \<Rightarrow> settings \<Rightarrow> job \<Rightarrow> nat \<Rightarrow> raw_observation list" where
  "answer_to D st j k =
     (case (ports_of D (job_source j), parse_cursor (job_cursor j)) of
        (Inr ports, Inr c) \<Rightarrow>
          (case run_with_deadline (pipe_size D) (provider_timeout_seconds st)
              (fst ports k (cur_external_listing_id c) (cur_start c) (cur_end c)) of Inr raws \<Rightarrow> raws | Inl e \<Rightarrow> [])
      | _ \<Rightarrow> [])"

definition answer_stored :: "'q deployment \<Rightarrow> settings \<Rightarrow> job \<Rightarrow> sess \<Rightarrow> bool" where
  "answer_stored D st j s \<longleftrightarrow> (\<forall>k. \<forall>raw \<in> set (answer_to D st j k).
     exact_row (numeric_column D) raw \<longrightarrow> stored_for j raw (observations (work s)))"

lemma answer_stored_same_job: "same_job r j \<Longrightarrow> answer_stored D st r s = answer_stored D st j s"
  by (simp add: answer_stored_def answer_to_def stored_for_def same_job_def)

lemma duplicate_stored:
  assumes "duplicate_of s (row_input r l c auth now raw) \<noteq> None" and "parse_cursor (job_cursor r) = Inr c"
  shows "stored_for r raw (observations (work s))"
proof -
  from assms(1) obtain q where q: "duplicate_of s (row_input r l c auth now raw) = Some q" by blast
  note current = duplicate_of_SomeD [OF q]
  note row = effective_SomeD [OF conjunct1 [OF current, unfolded current_revision_log]]
  show ?thesis
    unfolding stored_for_def
    by (rule bexI [OF _ row(1)], rule exI [of _ c])
      (use row(2) current assms(2) in \<open>simp add: input_key_def row_input_def same_value_def dec_eq_iff dec_opt_eq_iff\<close>)
qed

text \<open>Rows stay, so what is stored stays stored.\<close>

interpretation stored_rows: batch_invariant "\<lambda>s. base \<subseteq> set (observations (work s))" anything for base
  by unfold_locales (auto simp: table_facts dest!: inserted)

lemma answer_stays_stored:
  "answer_stored D st j s \<Longrightarrow> set (observations (work s)) \<subseteq> set (observations (work t)) \<Longrightarrow> answer_stored D st j t"
  unfolding answer_stored_def stored_for_def by blast

section \<open>The loop over the batch\<close>

text \<open>Before the jobs \<open>rs\<close> of a batch: each is claimed, servable and has its share of the quota.\<close>

definition batch_ready :: "'q deployment \<Rightarrow> settings \<Rightarrow> string \<Rightarrow> 'q rt \<Rightarrow> job list \<Rightarrow> bool" where
  "batch_ready D st w rt rs \<longleftrightarrow> distinct (map job_id rs) \<and> fresh_ids (rt_sess rt) \<and> quota_suffices D (rt_quota rt) rs
     \<and> (\<forall>r \<in> set rs. holds_claim w rt r \<and> rt_loaded rt (job_id r) = Some r \<and> servable D st (rt_sess rt) r)"

definition nobody_else :: "'q deployment \<Rightarrow> bool" where
  "nobody_else D \<longleftrightarrow> rival_rows D = no_rivals \<and> (\<forall>n s. concurrently D n s = s)"

definition done_row :: "datetime \<Rightarrow> job \<Rightarrow> job" where
  "done_row now q = q\<lparr>job_status := DONE, last_error := None, job_updated_at := now\<rparr>"

lemma batch_step:
  assumes "batch_ready D st w rt (r # rs)" and "nobody_else D" and "separate_quotas D"
  obtains rt' where "process_step D st w now (job_id r) oc rt = (Inr (oc\<lparr>jobs_done := jobs_done oc + 1\<rparr>), rt')"
    "jobs (work (rt_sess rt')) = update_where (\<lambda>q. q = r) (done_row now) (jobs (work (rt_sess rt)))"
    "batch_ready D st w rt' rs" "answer_stored D st r (rt_sess rt')"
proof -
  let ?s = "rt_sess rt"
  from assms(1) have r: "holds_claim w rt r" "rt_loaded rt (job_id r) = Some r" "servable D st ?s r" "fresh_ids ?s"
    "quota_suffices D (rt_quota rt) (r # rs)" by (simp_all add: batch_ready_def)
  from r(3) obtain ports f c l where p: "ports_of D (job_source r) = Inr ports" "quota_laws (snd ports)" "historical_port f"
    "parse_cursor (job_cursor r) = Inr c" "job_listing_id r = Some l" "fk_holds ?s (listing_exists ?s l)"
    "\<And>k. run_with_deadline (pipe_size D) (provider_timeout_seconds st)
       (fst ports k (cur_external_listing_id c) (cur_start c) (cur_end c)) = Inr (f (cur_external_listing_id c) (cur_start c) (cur_end c))"
    by (auto simp: servable_def)
  have "jobs_of (job_source r) (r # rs) = r # jobs_of (job_source r) rs" by (simp add: jobs_of_def)
  then have mine: "jobs_of (job_source r) (r # rs) \<noteq> []" "0 < int (length (jobs_of (job_source r) (r # rs)))" by simp_all
  from quota_sufficesD [OF r(5) p(1) mine(1)] obtain q where
    "quota_check (snd ports) (job_source r) (rt_quota rt) = Inr q" "int (length (jobs_of (job_source r) (r # rs))) \<le> qs_remaining q" .
  with mine(2) have q: "quota_check (snd ports) (job_source r) (rt_quota rt) = Inr q" "0 < qs_remaining q" by linarith+
  let ?R = "runner_for D st ports"
  have laws: "quota_laws (quota ?R)" using p(2) by (simp add: runner_for_def)
  have ready: "ready ?R rt w r c l q"
    using r(1,3,4) p(4-6) q assms(2) by (simp add: ready_def undisturbed_def runner_for_def nobody_else_def servable_def)
  have ans: "answer ?R rt c = Inr (f (cur_external_listing_id c) (cur_start c) (cur_end c))"
    using p(7) by (simp add: answer_def runner_for_def)
  obtain rt' x where rt': "process_step D st w now (job_id r) oc rt = (Inr (oc\<lparr>jobs_done := jobs_done oc + 1\<rparr>), rt')"
    "jobs (work (rt_sess rt')) = update_where (\<lambda>q. q = r) (done_row now) (jobs (work ?s))"
    "process ?R (job_id r) w (Some now) rt = (x, rt')"
    using process_step_done [OF ready p(1) r(2) p(2,3) ans, where now = now and oc = oc] by (auto simp: done_row_def [abs_def])
  from healthy_job [OF ready laws p(3) ans rt'(3)] obtain q' where
    q': "quota_check (snd ports) (job_source r) (rt_quota rt') = Inr q'" "qs_remaining q' = qs_remaining q - 1"
    and on: "passed_on ?R r rt rt'" by (auto simp: runner_for_def)
  have known: "duplicate_of (rt_sess rt') (row_input r l c auth now raw) \<noteq> None"
    if "raw \<in> set (f (cur_external_listing_id c) (cur_start c) (cur_end c))" "exact_row (numeric_column D) raw" for raw auth
    using healthy_job [OF ready laws p(3) ans rt'(3)] that by (auto simp: exact_row_kept runner_for_def)
  have "answer_to D st r k = f (cur_external_listing_id c) (cur_start c) (cur_end c)" for k
    using p(1,4,7) by (simp add: answer_to_def)
  then have stored: "answer_stored D st r (rt_sess rt')"
    using duplicate_stored [OF known p(4)] by (simp add: answer_stored_def)
  from on obtain y where y: "quota_consume (snd ports) (job_source r) 1 (rt_quota rt) = (y, rt_quota rt')"
    by (auto simp: passed_on_def runner_for_def)
  have tables: "reference_tables (rt_sess rt') = reference_tables ?s"
    using keepsD [OF reference_rows.run.process_kept rt'(3), of "reference_tables ?s"] assms(2)
    by (simp add: call_provider_def runner_for_def nobody_else_def)
  have "holds_claim w rt' k \<and> rt_loaded rt' (job_id k) = Some k \<and> servable D st (rt_sess rt') k" if "k \<in> set rs" for k
  proof -
    from that have "k \<in> set (r # rs)" by simp
    with assms(1) have k: "holds_claim w rt k" "rt_loaded rt (job_id k) = Some k" "servable D st ?s k"
      unfolding batch_ready_def by blast+
    have other: "job_id k \<noteq> job_id r" using that assms(1) by (force simp: batch_ready_def)
    have "k \<in> set (jobs (work ?s))" "distinct (map job_id (jobs (work ?s)))"
      using k(1) by (simp_all add: holds_claim_def shows_row_def)
    moreover have "k \<noteq> r" using other by blast
    ultimately have "k \<in> set (jobs (work ?s))" "distinct (map job_id (jobs (work ?s)))" "k \<noteq> r" .
    then have "k \<in> set (jobs (work (rt_sess rt')))" "distinct (map job_id (jobs (work (rt_sess rt'))))"
      unfolding rt'(2) by (simp_all add: in_update_where_other map_update_where done_row_def)
    moreover have "rt_loaded rt' (job_id k) = Some k" using on k(2) other by (simp add: passed_on_def)
    ultimately show ?thesis
      using k(1,3) servable_cong [OF tables, of k k D st] by (simp add: holds_claim_def shows_row_def same_job_def)
  qed
  then have "batch_ready D st w rt' rs"
    using assms(1) on quota_passed_on [OF r(5) assms(3) p(1) q(1) y q'] by (simp add: batch_ready_def passed_on_def)
  with rt'(1,2) stored that show ?thesis by blast
qed

lemma batch_loop:
  assumes "nobody_else D" and "separate_quotas D"
  shows "batch_ready D st w rt rs \<Longrightarrow>
    \<exists>rt'. process_each D st w now (map job_id rs) oc rt = (Inr (oc\<lparr>jobs_done := jobs_done oc + length rs\<rparr>), rt')
      \<and> jobs (work (rt_sess rt')) = update_where (\<lambda>q. q \<in> set rs) (done_row now) (jobs (work (rt_sess rt)))
      \<and> (\<forall>r \<in> set rs. answer_stored D st r (rt_sess rt'))"
proof (induction rs arbitrary: rt oc)
  case (Cons r rs)
  obtain rt1 where rt1: "process_step D st w now (job_id r) oc rt = (Inr (oc\<lparr>jobs_done := jobs_done oc + 1\<rparr>), rt1)"
    "jobs (work (rt_sess rt1)) = update_where (\<lambda>q. q = r) (done_row now) (jobs (work (rt_sess rt)))" "batch_ready D st w rt1 rs"
    "answer_stored D st r (rt_sess rt1)"
    by (rule batch_step [OF Cons.prems assms])
  obtain rt' where rt': "process_each D st w now (map job_id rs) (oc\<lparr>jobs_done := jobs_done oc + 1\<rparr>) rt1
      = (Inr (oc\<lparr>jobs_done := jobs_done oc + 1 + length rs\<rparr>), rt')"
    "jobs (work (rt_sess rt')) = update_where (\<lambda>q. q \<in> set rs) (done_row now) (jobs (work (rt_sess rt1)))"
    "\<forall>k \<in> set rs. answer_stored D st k (rt_sess rt')"
    using Cons.IH [OF rt1(3), of "oc\<lparr>jobs_done := jobs_done oc + 1\<rparr>"] by auto
  have claimed: "job_status q = CLAIMED" if "q \<in> set rs" for q
    using that Cons.prems by (simp add: batch_ready_def holds_claim_def)
  have "done_row now r \<notin> set rs" using claimed by (force simp: done_row_def)
  then have "jobs (work (rt_sess rt')) = update_where (\<lambda>q. q \<in> set (r # rs)) (done_row now) (jobs (work (rt_sess rt)))"
    unfolding rt'(2) rt1(2) by (auto simp: update_where_def)
  moreover have "set (observations (work (rt_sess rt1))) \<subseteq> set (observations (work (rt_sess rt')))"
    by (rule keepsD [OF stored_rows.run.process_each_kept [OF stored_rows.endures_beside] rt'(1)])
      (use assms(1) in \<open>simp_all add: nobody_else_def\<close>)
  with rt1(4) have "answer_stored D st r (rt_sess rt')" by (rule answer_stays_stored)
  ultimately show ?case using rt1(1) rt'(1,3) by (simp add: andthen_def)
qed (simp add: ret_def update_where_def)

section \<open>A batch of due jobs\<close>

lemma claim_batch_free:
  assumes "\<And>i. \<exists>k < lock_retry_attempts. \<not> lock_failures D i k" and "distinct (map job_id (jobs (work (rt_sess rt))))"
    and "won = take n (claimable_jobs now None (refreshed_jobs now (job_lease_seconds st) (jobs (work (rt_sess rt)))))"
    and "rs = map (claimed_row w now (wall (rt_sess rt))) won"
  obtains rt1 where "claim_batch D st w now n rt = (Inr (map job_id rs), rt1)"
    "rt_sess rt1 = commit (on_jobs (\<lambda>_. update_where (\<lambda>j. j \<in> set won) (claimed_row w now (wall (rt_sess rt)))
       (refreshed_jobs now (job_lease_seconds st) (jobs (work (rt_sess rt))))) (rt_sess rt))"
    "rt_quota rt1 = rt_quota rt" "\<And>r. r \<in> set rs \<Longrightarrow> rt_loaded rt1 (job_id r) = Some r"
    "distinct (map job_id rs)" "\<And>r. r \<in> set rs \<Longrightarrow> holds_claim w rt1 r"
proof -
  let ?s = "rt_sess rt" and ?f = "claimed_row w now (wall (rt_sess rt))"
  let ?js = "refreshed_jobs now (job_lease_seconds st) (jobs (work ?s))"
  let ?s1 = "commit (on_jobs (\<lambda>_. update_where (\<lambda>j. j \<in> set won) ?f ?js) ?s)"
  let ?rt1 = "rt\<lparr>rt_sess := ?s1, rt_loaded := (\<lambda>i. case select_first (\<lambda>j. job_id j = i) rs of None \<Rightarrow> rt_loaded rt i | Some j \<Rightarrow> Some j)\<rparr>"
  have "claim_next (lock_failures D) w now None n (job_lease_seconds st) ?s = (Inr rs, ?s1)"
    using claim_next_free [OF assms(1,2), where now = now and source = None and lease = "job_lease_seconds st" and w = w and limit = n]
    by (simp add: Let_def assms(3,4))
  then have run: "claim_batch D st w now n rt = (Inr (map job_id rs), ?rt1)"
    by (simp add: claim_batch_def andthen_def in_session_def cong: option.case_cong)
  have js: "distinct (map job_id ?js)" using assms(2) by simp
  have "set won \<subseteq> set ?js" unfolding assms(3) claimable_jobs_def by (auto dest: in_set_takeD)
  moreover have "distinct ?js" using js unfolding distinct_map by blast
  then have "distinct won" unfolding assms(3) claimable_jobs_def by (intro distinct_take) simp
  ultimately have won: "set won \<subseteq> set ?js" "distinct won" .
  have ids: "map job_id rs = map job_id won" by (simp add: assms(4) claimed_row_def comp_def)
  have "inj_on job_id (set ?js)" using js unfolding distinct_map by blast
  then have "distinct (map job_id won)" using won unfolding distinct_map by (blast intro: inj_on_subset)
  then have rs: "distinct (map job_id rs)" by (simp add: ids)
  then have loaded: "rt_loaded ?rt1 (job_id r) = Some r" if "r \<in> set rs" for r
    using select_first_key [OF rs that] by simp
  have "map job_id (jobs (work ?s1)) = map job_id ?js" by (simp add: map_update_where claimed_row_def)
  then have table: "distinct (map job_id (jobs (work ?s1)))" using js by simp
  have "holds_claim w ?rt1 r" if "r \<in> set rs" for r
  proof -
    from that obtain j where j: "j \<in> set won" "r = ?f j" by (auto simp: assms(4))
    then have "r \<in> set (jobs (work ?s1))" using won(1) by (auto simp: in_update_where_image)
    with table loaded [OF that] j(2) show ?thesis by (simp add: holds_claim_def shows_row_def claimed_row_def)
  qed
  with run rs loaded show ?thesis using that by simp
qed

text \<open>
  C13. A batch of due jobs is done. The batch holds the oldest jobs that may be claimed, up to its limit. When
  each of them is servable, the quota of every source suffices for its jobs and no other session
  interferes, every one of them ends \<open>DONE\<close>, and every row that its provider answers to its cursor is
  in the store, under the natural key of the row for the job and with all its values, as far as the
  columns keep them exactly; the outcome counts all the jobs as done and nothing else.
\<close>

theorem due_batch_is_done:
  assumes "won = take n (claimable_jobs now None (refreshed_jobs now (job_lease_seconds st) (jobs (work (rt_sess rt)))))"
    and "distinct (map job_id (jobs (work (rt_sess rt))))" and "fresh_ids (rt_sess rt)"
    and "\<And>i. \<exists>k < lock_retry_attempts. \<not> lock_failures D i k" and "nobody_else D"
    and "\<And>j. j \<in> set won \<Longrightarrow> servable D st (rt_sess rt) j" and "quota_suffices D (rt_quota rt) won" and "separate_quotas D"
  shows "\<exists>rt'. claim_and_process D st w now n rt = (Inr ((claimed_only (length won))\<lparr>jobs_done := length won\<rparr>), rt')
    \<and> (\<forall>j \<in> set won. (\<exists>q \<in> set (jobs (work (rt_sess rt'))). job_id q = job_id j \<and> job_status q = DONE)
         \<and> (\<forall>k. \<forall>raw \<in> set (answer_to D st j k). exact_row (numeric_column D) raw
              \<longrightarrow> stored_for j raw (observations (work (rt_sess rt')))))"
proof -
  let ?rs = "map (claimed_row w now (wall (rt_sess rt))) won"
  obtain rt1 where rt1: "claim_batch D st w now n rt = (Inr (map job_id ?rs), rt1)"
    "rt_sess rt1 = commit (on_jobs (\<lambda>_. update_where (\<lambda>j. j \<in> set won) (claimed_row w now (wall (rt_sess rt)))
       (refreshed_jobs now (job_lease_seconds st) (jobs (work (rt_sess rt))))) (rt_sess rt))"
    "rt_quota rt1 = rt_quota rt" "\<And>r. r \<in> set ?rs \<Longrightarrow> rt_loaded rt1 (job_id r) = Some r"
    "distinct (map job_id ?rs)" "\<And>r. r \<in> set ?rs \<Longrightarrow> holds_claim w rt1 r"
    by (rule claim_batch_free [where w = w, OF assms(4,2,1) refl]) (rule that)
  have tables: "reference_tables (rt_sess rt1) = reference_tables (rt_sess rt)" by (simp add: rt1(2) reference_tables_def)
  have "servable D st (rt_sess rt1) r" if "r \<in> set ?rs" for r
  proof -
    from that obtain j where j: "j \<in> set won" "r = claimed_row w now (wall (rt_sess rt)) j" by auto
    then have "same_job r j" by (simp add: same_job_def claimed_row_def)
    from servable_cong [OF tables this, of D st] assms(6) [OF j(1)] show ?thesis by simp
  qed
  moreover have "jobs_of source ?rs = map (claimed_row w now (wall (rt_sess rt))) (jobs_of source won)" for source
    by (simp add: jobs_of_def filter_map comp_def claimed_row_def)
  then have "quota_suffices D (rt_quota rt1) ?rs" using assms(7) by (simp add: quota_suffices_def rt1(3))
  moreover have "fresh_ids (rt_sess rt1)" using assms(3) by (simp add: rt1(2) fresh_ids_def)
  ultimately have "batch_ready D st w rt1 ?rs" unfolding batch_ready_def using rt1(4-6) by blast
  from batch_loop [OF assms(5,8) this, of now "claimed_only (length won)"] obtain rt' where
    rt': "process_each D st w now (map job_id ?rs) (claimed_only (length won)) rt1
        = (Inr ((claimed_only (length won))\<lparr>jobs_done := length won\<rparr>), rt')"
      "jobs (work (rt_sess rt')) = update_where (\<lambda>q. q \<in> set ?rs) (done_row now) (jobs (work (rt_sess rt1)))"
      "\<forall>r \<in> set ?rs. answer_stored D st r (rt_sess rt')"
    by (auto simp: claimed_only_def)
  have stored: "answer_stored D st j (rt_sess rt')" if "j \<in> set won" for j
  proof -
    have "same_job (claimed_row w now (wall (rt_sess rt)) j) j" by (simp add: same_job_def claimed_row_def)
    moreover have "answer_stored D st (claimed_row w now (wall (rt_sess rt)) j) (rt_sess rt')" using rt'(3) that by simp
    ultimately show ?thesis by (simp add: answer_stored_same_job)
  qed
  have "\<exists>q \<in> set (jobs (work (rt_sess rt'))). job_id q = job_id j \<and> job_status q = DONE" if "j \<in> set won" for j
  proof -
    let ?r = "claimed_row w now (wall (rt_sess rt)) j"
    have r: "?r \<in> set ?rs" using that by simp
    then have "?r \<in> set (jobs (work (rt_sess rt1)))" using rt1(6) [OF r] by (simp add: holds_claim_def shows_row_def)
    then have "done_row now ?r \<in> set (jobs (work (rt_sess rt')))" unfolding rt'(2) using r by (rule in_update_where_image)
    then show ?thesis by (rule bexI [rotated]) (simp add: done_row_def claimed_row_def)
  qed
  with rt1(1) rt'(1) stored [unfolded answer_stored_def] show ?thesis by (simp add: claim_and_process_def andthen_def del: map_map)
qed

text \<open>Two jobs of the fake provider, which answers one row to each.\<close>

definition second_row :: job where
  "second_row = pending_row\<lparr>job_id := 2, dedupe_key := ''k2''\<rparr>"

lemma demo_source: "ports_of demo_deployment source = Inr ports \<Longrightarrow> source = ''fake'' \<and> ports = demo_ports"
  using demo_ports_of
  by (cases "source = ''fake''") (auto simp: ports_of_def demo_deployment_def get_historical_price_port_def get_quota_port_def
      get_port_def fake_registries_def fake_source_def)

lemma demo_servable:
  assumes "job_source j = ''fake''" and "job_cursor j = Some (serialize demo_cursor)" and "job_listing_id j = Some 7"
  shows "servable demo_deployment default_settings (rt_sess (pending_rt js)) j"
proof -
  have "newest_approved (rt_sess (pending_rt js)) source cap = newest_approved (rt_sess demo_rt) source cap" for source cap
    unfolding newest_approved_iff [symmetric] by (simp add: effective_status_def effective_decision_def pending_fields demo_fields)
  moreover have "run_with_deadline (pipe_size demo_deployment) (provider_timeout_seconds default_settings) (fst demo_ports k ext a b)
      = Inr (fake_fetch_range (\<lambda>seed. 0) ext a b)" for k ext a b
    by (simp add: demo_ports_def demo_deployment_def default_settings_def run_with_deadline_def)
  ultimately show ?thesis
    using assms demo_approved demo_ports_of demo_port_laws fake_prices.historical_port_axioms demo_cursor_parsed
    unfolding servable_def by (fastforce simp: fk_holds_def pending_fields)
qed

theorem due_batch_is_done_witness:
  "\<exists>rt'. claim_and_process demo_deployment default_settings ''w'' 5 7 (pending_rt [pending_row, second_row])
     = (Inr ((claimed_only 2)\<lparr>jobs_done := 2\<rparr>), rt')
     \<and> stored_for pending_row good_row (observations (work (rt_sess rt')))"
proof -
  let ?rt = "pending_rt [pending_row, second_row]"
  have won: "[pending_row, second_row] = take 7 (claimable_jobs 5 None (refreshed_jobs 5 (job_lease_seconds default_settings) (jobs (work (rt_sess ?rt)))))"
    by (simp add: pending_fields claimable_jobs_def refreshed_jobs_def lease_expired_def due_waiting_def second_row_def
        pending_row_fields candidate_for_def claim_order_def)
  have fresh: "fresh_ids (rt_sess ?rt)"
    by (simp add: fresh_ids_def pending_fields) (simp add: pending_rt_def session_on_def inj_def)
  have ids: "distinct (map job_id (jobs (work (rt_sess ?rt))))" by (simp add: pending_fields second_row_def pending_row_fields)
  have alone: "nobody_else demo_deployment" by (simp add: nobody_else_def demo_deployment_def)
  have servable: "servable demo_deployment default_settings (rt_sess ?rt) j" if "j \<in> set [pending_row, second_row]" for j
    using that by (intro demo_servable) (auto simp: second_row_def pending_row_fields)
  have "quota_check (snd demo_ports) ''fake'' (rt_quota ?rt) = Inr \<lparr>qs_source = ''fake'', qs_remaining = 5, qs_limit = 5, qs_reset_at = None\<rparr>"
    using demo_quota by (simp add: demo_ports_def pending_fields demo_fields)
  moreover have "int (length (jobs_of source [pending_row, second_row])) \<le> 5" for source by (simp add: jobs_of_def)
  ultimately have "\<exists>q. quota_check (snd ports) source (rt_quota ?rt) = Inr q
      \<and> int (length (jobs_of source [pending_row, second_row])) \<le> qs_remaining q"
    if "ports_of demo_deployment source = Inr ports" for source ports
    using demo_source [OF that] by auto
  then have quota: "quota_suffices demo_deployment (rt_quota ?rt) [pending_row, second_row]"
    unfolding quota_suffices_def by blast
  have separate: "separate_quotas demo_deployment"
    unfolding separate_quotas_def using demo_source by blast
  have "fake_fetch_range (\<lambda>seed. 0) (cur_external_listing_id demo_cursor) (cur_start demo_cursor) (cur_end demo_cursor) = [good_row]"
    by (simp add: demo_cursor_fields fake_fetch_range_def good_row_def weekday_def)
  then have answer: "good_row \<in> set (answer_to demo_deployment default_settings pending_row 0)"
    using demo_ports_of demo_cursor_parsed
    by (simp add: answer_to_def pending_row_fields demo_ports_def demo_deployment_def default_settings_def run_with_deadline_def)
  have exact: "exact_row (numeric_column demo_deployment) good_row"
    by (simp add: exact_row_def demo_deployment_def good_row_fields List.map_filter_def)
  from due_batch_is_done [OF won ids fresh demo_locks alone servable quota separate, of "''w''"]
  obtain rt' where rt': "claim_and_process demo_deployment default_settings ''w'' 5 7 ?rt
      = (Inr ((claimed_only 2)\<lparr>jobs_done := 2\<rparr>), rt')"
    "\<forall>j \<in> set [pending_row, second_row]. \<forall>k. \<forall>raw \<in> set (answer_to demo_deployment default_settings j k).
       exact_row (numeric_column demo_deployment) raw \<longrightarrow> stored_for j raw (observations (work (rt_sess rt')))"
    by (auto simp: numeral_2_eq_2)
  from rt'(2) answer exact have "stored_for pending_row good_row (observations (work (rt_sess rt')))" by auto
  with rt'(1) show ?thesis by blast
qed

end
