(* ===== verification/Selection.thy ===== *)
theory Selection
  imports Policy Observations
begin

text \<open>
  \<open>domain/observations/selection.py\<close>: which of several sources' observations is published for a
  listing, a date and a type. The query has no \<open>ORDER BY\<close>: the engine may return the rows in any
  order, so the order is a parameter \<open>arrange\<close> of the model, of which only permutation is assumed.
  The policy gate is an argument of the selector, as in the code.
\<close>

record source_priority_policy =
  policy_name :: string
  ordered_sources :: "string list"

record selection_result =
  selected :: observation
  applied_policy :: string
  alternatives :: "observation list"

definition has_discrepancy :: "selection_result \<Rightarrow> bool" where
  "has_discrepancy r \<longleftrightarrow> list_ex (\<lambda>alt. \<not> dec_eq (obs_close alt) (obs_close (selected r))) (alternatives r)"

definition account :: "observation \<Rightarrow> string \<times> string" where
  "account q = (obs_source q, credential_scope q)"

definition latest_by_key :: "observation list \<Rightarrow> ((string \<times> string) \<times> observation) list" where
  "latest_by_key rows = fold (\<lambda>row. keep_greater (account row) revision row) rows []"

definition rows_for :: "sess \<Rightarrow> uuid \<Rightarrow> date \<Rightarrow> ObservationType \<Rightarrow> observation list" where
  "rows_for s listing day otype =
     filter (\<lambda>q. obs_listing_id q = listing \<and> session_date q = day \<and> observation_type q = otype)
       (observations (work s))"

definition keep_publishable :: "(string \<Rightarrow> bool) \<Rightarrow> (string \<times> string) \<times> observation
    \<Rightarrow> (string \<times> observation) list \<Rightarrow> (string \<times> observation) list" where
  "keep_publishable authorized entry by_source =
     (case entry of ((source, scope), q) \<Rightarrow>
        if \<not> authorized source then by_source else keep_greater source retrieved_at q by_source)"

definition current_publishable_by_source :: "(sess \<Rightarrow> string \<Rightarrow> bool) \<Rightarrow> (observation list \<Rightarrow> observation list)
    \<Rightarrow> sess \<Rightarrow> uuid \<Rightarrow> date \<Rightarrow> ObservationType \<Rightarrow> (string \<times> observation) list" where
  "current_publishable_by_source gate arrange s listing day otype =
     fold (keep_publishable (gate s)) (latest_by_key (arrange (rows_for s listing day otype))) []"

fun first_in_order :: "(string \<times> observation) list \<Rightarrow> string list \<Rightarrow> observation option" where
  "first_in_order candidates [] = None"
| "first_in_order candidates (source # sources) =
     (case map_of candidates source of Some q \<Rightarrow> Some q | None \<Rightarrow> first_in_order candidates sources)"

definition select_observation :: "(sess \<Rightarrow> string \<Rightarrow> bool) \<Rightarrow> (observation list \<Rightarrow> observation list)
    \<Rightarrow> sess \<Rightarrow> uuid \<Rightarrow> date \<Rightarrow> ObservationType \<Rightarrow> source_priority_policy \<Rightarrow> exn + selection_result" where
  "select_observation gate arrange s listing day otype policy =
     (let candidates = current_publishable_by_source gate arrange s listing day otype
      in case first_in_order candidates (ordered_sources policy) of
           None \<Rightarrow> Inl NoEligibleObservationError
         | Some q \<Rightarrow> Inr \<lparr>selected = q, applied_policy = policy_name policy,
             alternatives = map snd (filter (\<lambda>(source, alt). obs_id alt \<noteq> obs_id q) candidates)\<rparr>)"

section \<open>What a source offers\<close>

text \<open>
  The reference: the newest row of each account of a source, and of these the one retrieved last.
\<close>

definition current_of_account :: "observation list \<Rightarrow> string \<times> string \<Rightarrow> observation option" where
  "current_of_account rows a = first_max revision (filter (\<lambda>q. account q = a) rows)"

definition is_current :: "observation list \<Rightarrow> observation \<Rightarrow> bool" where
  "is_current rows q \<longleftrightarrow> current_of_account rows (account q) = Some q"

lemma latest_distinct: "distinct (map fst (latest_by_key rows))"
  unfolding latest_by_key_def by (rule fold_keep_greater_distinct) simp

lemma map_of_latest: "map_of (latest_by_key rows) a = current_of_account rows a"
  by (simp add: latest_by_key_def current_of_account_def map_of_keep_greater)

lemma current_of_accountD:
  assumes "current_of_account rows a = Some q"
  shows "q \<in> set rows" "account q = a" "\<And>p. p \<in> set rows \<Longrightarrow> account p = a \<Longrightarrow> revision p \<le> revision q"
  using first_max_SomeD [OF assms [unfolded current_of_account_def]] by auto

lemma in_latest_iff: "(a, q) \<in> set (latest_by_key rows) \<longleftrightarrow> account q = a \<and> is_current rows q"
proof -
  have "(a, q) \<in> set (latest_by_key rows) \<longleftrightarrow> map_of (latest_by_key rows) a = Some q"
    using latest_distinct by (metis map_of_is_SomeI map_of_SomeD)
  then show ?thesis by (auto simp: map_of_latest is_current_def dest: current_of_accountD(2))
qed

definition current_rows :: "observation list \<Rightarrow> observation list" where
  "current_rows rows = map snd (latest_by_key rows)"

lemma set_current_rows: "set (current_rows rows) = {q. is_current rows q}"
proof -
  have "q \<in> set (current_rows rows) \<longleftrightarrow> (\<exists>a. (a, q) \<in> set (latest_by_key rows))" for q
    by (force simp: current_rows_def)
  then show ?thesis by (auto simp: in_latest_iff)
qed

lemma is_currentD:
  "is_current rows q \<Longrightarrow> q \<in> set rows \<and> (\<forall>p \<in> set rows. account p = account q \<longrightarrow> revision p \<le> revision q)"
  by (auto simp: is_current_def dest: current_of_accountD)

lemma exists_current: "q \<in> set rows \<Longrightarrow> \<exists>c. is_current rows c \<and> account c = account q"
proof (cases "current_of_account rows (account q)")
  case None
  moreover assume "q \<in> set rows"
  ultimately show ?thesis by (auto simp: current_of_account_def filter_empty_conv)
next
  case (Some c)
  with current_of_accountD(2) [OF Some] have "is_current rows c" by (simp add: is_current_def)
  with current_of_accountD(2) [OF Some] show ?thesis by blast
qed

lemma keep_publishable_fold:
  "list_all (\<lambda>(a, q). a = account q) es \<Longrightarrow>
    fold (keep_publishable ok) es d
      = fold (\<lambda>q. keep_greater (obs_source q) retrieved_at q) (filter (ok \<circ> obs_source) (map snd es)) d"
  by (induction es arbitrary: d) (auto simp: keep_publishable_def account_def)

lemma by_source_fold:
  "current_publishable_by_source gate arrange s listing day otype =
     fold (\<lambda>q. keep_greater (obs_source q) retrieved_at q)
       (filter (gate s \<circ> obs_source) (current_rows (arrange (rows_for s listing day otype)))) []"
  unfolding current_publishable_by_source_def current_rows_def
  by (rule keep_publishable_fold) (auto simp: list_all_iff in_latest_iff)

lemma by_source_distinct: "distinct (map fst (current_publishable_by_source gate arrange s listing day otype))"
  unfolding by_source_fold by (rule fold_keep_greater_distinct) simp

lemma map_of_by_source:
  "map_of (current_publishable_by_source gate arrange s listing day otype) source =
     (if gate s source then first_max retrieved_at (filter (\<lambda>q. obs_source q = source)
        (current_rows (arrange (rows_for s listing day otype)))) else None)"
proof -
  let ?rows = "current_rows (arrange (rows_for s listing day otype))"
  have "filter (\<lambda>q. obs_source q = source) (filter (gate s \<circ> obs_source) ?rows)
      = (if gate s source then filter (\<lambda>q. obs_source q = source) ?rows else [])"
    by (induction ?rows) (auto simp: filter_empty_conv intro: filter_cong)
  then show ?thesis by (simp add: by_source_fold map_of_keep_greater)
qed

lemma map_of_by_source_SomeD:
  assumes "map_of (current_publishable_by_source gate arrange s listing day otype) source = Some q"
  shows "gate s source" "obs_source q = source"
    "is_current (arrange (rows_for s listing day otype)) q"
    "\<And>p. is_current (arrange (rows_for s listing day otype)) p \<Longrightarrow> obs_source p = source
       \<Longrightarrow> retrieved_at p \<le> retrieved_at q"
  using assms first_max_SomeD [of retrieved_at _ q]
  by (fastforce simp: map_of_by_source set_current_rows split: if_splits)+

lemma map_of_by_source_None_iff:
  "map_of (current_publishable_by_source gate arrange s listing day otype) source = None \<longleftrightarrow>
     \<not> gate s source \<or> (\<forall>q \<in> set (arrange (rows_for s listing day otype)). obs_source q \<noteq> source)"
proof -
  let ?rows = "arrange (rows_for s listing day otype)"
  have "(\<exists>q. is_current ?rows q \<and> obs_source q = source) \<longleftrightarrow> (\<exists>q \<in> set ?rows. obs_source q = source)"
    using exists_current [of _ ?rows] is_currentD [of ?rows] by (fastforce simp: account_def)
  then show ?thesis by (auto simp: map_of_by_source filter_empty_conv set_current_rows)
qed

section \<open>What is selected\<close>

text \<open>An observation that may be published for the key, and is the newest of its account.\<close>

definition eligible :: "(sess \<Rightarrow> string \<Rightarrow> bool) \<Rightarrow> sess \<Rightarrow> uuid \<Rightarrow> date \<Rightarrow> ObservationType \<Rightarrow> string \<Rightarrow> bool" where
  "eligible gate s listing day otype source \<longleftrightarrow>
     gate s source \<and> (\<exists>q \<in> set (rows_for s listing day otype). obs_source q = source)"

lemma first_in_order_SomeD:
  "first_in_order d sources = Some q \<Longrightarrow>
     \<exists>before source after. sources = before @ source # after \<and> map_of d source = Some q
       \<and> (\<forall>x \<in> set before. map_of d x = None)"
proof (induction sources)
  case (Cons x xs)
  show ?case
  proof (cases "map_of d x")
    case None
    with Cons obtain before source after where "xs = before @ source # after"
      "map_of d source = Some q" "\<forall>x \<in> set before. map_of d x = None" by auto
    with None have "x # xs = (x # before) @ source # after \<and> map_of d source = Some q
        \<and> (\<forall>y \<in> set (x # before). map_of d y = None)" by simp
    then show ?thesis by blast
  next
    case (Some p)
    with Cons.prems have "x # xs = [] @ x # xs \<and> map_of d x = Some q" by simp
    then show ?thesis by force
  qed
qed simp

lemma first_in_order_None_iff: "first_in_order d sources = None \<longleftrightarrow> (\<forall>x \<in> set sources. map_of d x = None)"
  by (induction sources) (auto split: option.splits)

definition permutes_rows :: "(observation list \<Rightarrow> observation list) \<Rightarrow> bool" where
  "permutes_rows arrange \<longleftrightarrow> (\<forall>rows. mset (arrange rows) = mset rows)"

lemma permutes_rows_set: "permutes_rows arrange \<Longrightarrow> set (arrange rows) = set rows"
  by (metis permutes_rows_def set_mset_mset)

lemma not_eligible_iff:
  "permutes_rows arrange \<Longrightarrow>
     map_of (current_publishable_by_source gate arrange s listing day otype) source = None
       \<longleftrightarrow> \<not> eligible gate s listing day otype source"
  by (auto simp: map_of_by_source_None_iff eligible_def permutes_rows_set)

lemma selected_of:
  assumes "select_observation gate arrange s listing day otype policy = Inr r" and "permutes_rows arrange"
  shows "\<exists>before source after. ordered_sources policy = before @ source # after
    \<and> (\<forall>x \<in> set before. \<not> eligible gate s listing day otype x)
    \<and> map_of (current_publishable_by_source gate arrange s listing day otype) source = Some (selected r)
    \<and> applied_policy r = policy_name policy"
  using assms first_in_order_SomeD [of "current_publishable_by_source gate arrange s listing day otype"]
    not_eligible_iff [OF assms(2)]
  by (fastforce simp: select_observation_def Let_def split: option.splits)

lemma none_selected_iff:
  assumes "permutes_rows arrange"
  shows "select_observation gate arrange s listing day otype policy = Inl e \<longleftrightarrow>
    e = NoEligibleObservationError \<and> (\<forall>source \<in> set (ordered_sources policy). \<not> eligible gate s listing day otype source)"
proof -
  let ?d = "current_publishable_by_source gate arrange s listing day otype"
  have "first_in_order ?d (ordered_sources policy) = None
      \<longleftrightarrow> (\<forall>source \<in> set (ordered_sources policy). \<not> eligible gate s listing day otype source)"
    by (simp add: first_in_order_None_iff not_eligible_iff [OF assms])
  then show ?thesis
    by (cases "first_in_order ?d (ordered_sources policy)") (auto simp: select_observation_def Let_def)
qed

lemma in_alternativesD:
  assumes "select_observation gate arrange s listing day otype policy = Inr r" and "q \<in> set (alternatives r)"
  shows "\<exists>source. map_of (current_publishable_by_source gate arrange s listing day otype) source = Some q"
proof -
  from assms obtain source where "(source, q) \<in> set (current_publishable_by_source gate arrange s listing day otype)"
    by (auto simp: select_observation_def Let_def split: option.splits)
  with by_source_distinct show ?thesis by (metis map_of_is_SomeI)
qed

text \<open>What is true of every observation a candidate list offers.\<close>

definition publishable_row :: "(sess \<Rightarrow> string \<Rightarrow> bool) \<Rightarrow> sess \<Rightarrow> uuid \<Rightarrow> date \<Rightarrow> ObservationType \<Rightarrow> observation \<Rightarrow> bool" where
  "publishable_row gate s listing day otype q \<longleftrightarrow>
     gate s (obs_source q) \<and> q \<in> set (observations (work s))
     \<and> obs_listing_id q = listing \<and> session_date q = day \<and> observation_type q = otype
     \<and> (\<forall>p \<in> set (rows_for s listing day otype). account p = account q \<longrightarrow> revision p \<le> revision q)"

lemma candidate_publishable:
  assumes "map_of (current_publishable_by_source gate arrange s listing day otype) source = Some q"
    and "permutes_rows arrange"
  shows "publishable_row gate s listing day otype q \<and> obs_source q = source"
proof -
  note q = map_of_by_source_SomeD [OF assms(1)]
  from is_currentD [OF q(3)] permutes_rows_set [OF assms(2)]
  have "q \<in> set (rows_for s listing day otype)"
    "\<forall>p \<in> set (rows_for s listing day otype). account p = account q \<longrightarrow> revision p \<le> revision q" by auto
  with q(1,2) show ?thesis by (simp add: publishable_row_def) (simp add: rows_for_def)
qed

section \<open>The order of the rows\<close>

text \<open>
  No two rows of an account have the same revision and no two current rows of a source were
  retrieved at the same time.
\<close>

definition no_ties :: "observation list \<Rightarrow> bool" where
  "no_ties rows \<longleftrightarrow>
     (\<forall>p \<in> set rows. \<forall>q \<in> set rows. account p = account q \<and> revision p = revision q \<longrightarrow> p = q)
     \<and> (\<forall>p \<in> set rows. \<forall>q \<in> set rows. is_current rows p \<and> is_current rows q
           \<and> obs_source p = obs_source q \<and> retrieved_at p = retrieved_at q \<longrightarrow> p = q)"

lemma is_current_unique_iff:
  assumes "\<forall>p \<in> set rows. \<forall>q \<in> set rows. account p = account q \<and> revision p = revision q \<longrightarrow> p = q"
  shows "is_current rows q \<longleftrightarrow>
    q \<in> set rows \<and> (\<forall>p \<in> set rows. account p = account q \<longrightarrow> revision p \<le> revision q)"
proof
  assume q: "q \<in> set rows \<and> (\<forall>p \<in> set rows. account p = account q \<longrightarrow> revision p \<le> revision q)"
  have "inj_on revision (set (filter (\<lambda>p. account p = account q) rows))"
    using assms by (auto simp: inj_on_def)
  with q have "current_of_account rows (account q) = Some q"
    unfolding current_of_account_def by (intro first_max_key) auto
  then show "is_current rows q" by (simp add: is_current_def)
qed (rule is_currentD)

lemma is_current_permuted:
  assumes "no_ties rows" and "permutes_rows arrange"
  shows "is_current (arrange rows) q \<longleftrightarrow> is_current rows q"
  using assms(1) by (simp add: no_ties_def is_current_unique_iff permutes_rows_set [OF assms(2)])

lemma by_source_permuted:
  assumes "no_ties (rows_for s listing day otype)" and "permutes_rows arrange"
  shows "map_of (current_publishable_by_source gate arrange s listing day otype) source
    = map_of (current_publishable_by_source gate (\<lambda>rows. rows) s listing day otype) source"
proof -
  let ?rows = "rows_for s listing day otype"
  have same: "is_current (arrange ?rows) q \<longleftrightarrow> is_current ?rows q" for q
    using assms by (rule is_current_permuted)
  have "first_max retrieved_at (filter (\<lambda>q. obs_source q = source) (current_rows (arrange ?rows)))
      = first_max retrieved_at (filter (\<lambda>q. obs_source q = source) (current_rows ?rows))" (is "?x = ?y")
  proof (cases ?y)
    case None
    then have "\<forall>q. is_current ?rows q \<longrightarrow> obs_source q \<noteq> source"
      by (auto simp: filter_empty_conv set_current_rows)
    then have "?x = None" by (auto simp: filter_empty_conv set_current_rows same)
    with None show ?thesis by simp
  next
    case (Some q)
    note q = first_max_SomeD [OF Some]
    have "?x = Some q"
    proof (rule first_max_key)
      show "inj_on retrieved_at (set (filter (\<lambda>q. obs_source q = source) (current_rows (arrange ?rows))))"
        using assms(1) is_currentD [of ?rows]
        by (auto simp: inj_on_def no_ties_def set_current_rows same)
    qed (use q in \<open>auto simp: set_current_rows same\<close>)
    with Some show ?thesis by simp
  qed
  then show ?thesis by (simp add: map_of_by_source)
qed

lemma select_permuted:
  assumes "no_ties (rows_for s listing day otype)" and "permutes_rows arrange"
  shows "map_sum id selected (select_observation gate arrange s listing day otype policy)
    = map_sum id selected (select_observation gate (\<lambda>rows. rows) s listing day otype policy)"
proof -
  have "first_in_order (current_publishable_by_source gate arrange s listing day otype) sources
      = first_in_order (current_publishable_by_source gate (\<lambda>rows. rows) s listing day otype) sources" for sources
    by (induction sources) (auto simp: by_source_permuted [OF assms] split: option.splits)
  then show ?thesis by (simp add: select_observation_def Let_def split: option.splits)
qed

section \<open>Selection relies on the policy only\<close>

context publication_policy
begin

lemma select_unaffected_by_jobs:
  "select_observation authorized arrange (on_jobs f s) = select_observation authorized arrange s"
proof -
  have "authorized (on_jobs f s) = authorized s" by (rule ext) (rule unaffected_by_jobs)
  then show ?thesis
    by (intro ext) (simp add: select_observation_def current_publishable_by_source_def rows_for_def)
qed

lemma refused_source_not_shown:
  assumes "\<not> authorized t source" and "permutes_rows arrange"
    and "select_observation authorized arrange t listing day otype policy = Inr r"
    and "q = selected r \<or> q \<in> set (alternatives r)"
  shows "obs_source q \<noteq> source"
proof -
  from assms(4) obtain x where
    "map_of (current_publishable_by_source authorized arrange t listing day otype) x = Some q"
    using selected_of [OF assms(3,2)] in_alternativesD [OF assms(3)] by blast
  from map_of_by_source_SomeD(1,2) [OF this] assms(1) show ?thesis by auto
qed

end

section \<open>Rows that may not be published\<close>

text \<open>The session without the rows of sources that \<open>ok\<close> refuses.\<close>

definition without_refused :: "(string \<Rightarrow> bool) \<Rightarrow> sess \<Rightarrow> sess" where
  "without_refused ok s = on_observations (filter (\<lambda>q. ok (obs_source q))) s"

lemma rows_for_without: "rows_for (without_refused ok s) i day otype = filter (\<lambda>q. ok (obs_source q)) (rows_for s i day otype)"
  by (auto simp: rows_for_def without_refused_def intro: filter_cong)

lemma current_rows_filter: "current_rows (filter (\<lambda>q. ok (obs_source q)) rows) = filter (\<lambda>q. ok (obs_source q)) (current_rows rows)"
proof -
  have "latest_by_key (filter (\<lambda>q. ok (obs_source q)) rows) = filter (\<lambda>e. ok (fst (fst e))) (latest_by_key rows)"
    using fold_keep_greater_filter [of account revision "\<lambda>a. ok (fst a)" rows "[]"]
    by (simp add: latest_by_key_def account_def)
  also have "map snd \<dots> = filter (\<lambda>q. ok (obs_source q)) (current_rows rows)"
    unfolding current_rows_def filter_map
    by (rule arg_cong [where f = "map snd"], rule filter_cong) (auto simp: in_latest_iff account_def o_def)
  finally show ?thesis by (simp add: current_rows_def)
qed

text \<open>
  Two engines read alike when what the one returns without the refused rows is what the other returns
  with them, the refused ones left out.
\<close>

definition reads_alike :: "(string \<Rightarrow> bool) \<Rightarrow> sess \<Rightarrow> (observation list \<Rightarrow> observation list)
    \<Rightarrow> (observation list \<Rightarrow> observation list) \<Rightarrow> bool" where
  "reads_alike ok s without arrange \<longleftrightarrow> (\<forall>i day otype.
     without (rows_for (without_refused ok s) i day otype)
       = filter (\<lambda>q. ok (obs_source q)) (arrange (rows_for s i day otype)))"

lemma select_without_refused:
  assumes "gate (without_refused (gate s) s) = gate s" and "reads_alike (gate s) s without arrange"
  shows "select_observation gate without (without_refused (gate s) s) = select_observation gate arrange s"
proof -
  have "current_publishable_by_source gate without (without_refused (gate s) s) i day otype
      = current_publishable_by_source gate arrange s i day otype" for i day otype
    using assms(2) by (simp add: by_source_fold assms(1) reads_alike_def current_rows_filter o_def)
  then show ?thesis by (intro ext) (simp add: select_observation_def)
qed

text \<open>
  For every engine on the one database there is an engine on the other that reads alike: the rows of a
  query name its listing, date and type, so that an order of the remaining rows can follow the order in
  which all of them would have come.
\<close>

definition rows_beside :: "sess \<Rightarrow> observation list \<Rightarrow> observation list" where
  "rows_beside s rows = (case rows of [] \<Rightarrow> []
     | q # _ \<Rightarrow> rows_for s (obs_listing_id q) (session_date q) (observation_type q))"

definition leaving_out :: "(string \<Rightarrow> bool) \<Rightarrow> sess \<Rightarrow> (observation list \<Rightarrow> observation list)
    \<Rightarrow> observation list \<Rightarrow> observation list" where
  "leaving_out ok s arrange rows =
     (if rows = filter (\<lambda>q. ok (obs_source q)) (rows_beside s rows)
      then filter (\<lambda>q. ok (obs_source q)) (arrange (rows_beside s rows)) else rows)"

definition putting_back :: "(string \<Rightarrow> bool) \<Rightarrow> (observation list \<Rightarrow> observation list)
    \<Rightarrow> observation list \<Rightarrow> observation list" where
  "putting_back ok without rows =
     without (filter (\<lambda>q. ok (obs_source q)) rows) @ filter (\<lambda>q. \<not> ok (obs_source q)) rows"

lemma permutes_rows_filter:
  "permutes_rows arrange \<Longrightarrow> mset (filter p (arrange rows)) = mset (filter p rows)"
  by (simp add: permutes_rows_def mset_filter)

lemma leaving_out_permutes: "permutes_rows arrange \<Longrightarrow> permutes_rows (leaving_out ok s arrange)"
  using permutes_rows_filter [of arrange] by (auto simp: permutes_rows_def leaving_out_def simp flip: mset_filter)

lemma putting_back_permutes: "permutes_rows without \<Longrightarrow> permutes_rows (putting_back ok without)"
  by (auto simp: permutes_rows_def putting_back_def intro: multiset_eqI)

lemma rows_beside_filter:
  "filter p (rows_for s i day otype) \<noteq> [] \<Longrightarrow> rows_beside s (filter p (rows_for s i day otype)) = rows_for s i day otype"
proof -
  assume "filter p (rows_for s i day otype) \<noteq> []"
  then obtain q qs where q: "filter p (rows_for s i day otype) = q # qs" by (cases "filter p (rows_for s i day otype)") auto
  then have "q \<in> set (rows_for s i day otype)" by (metis filter_is_subset list.set_intros(1) subsetD)
  then show ?thesis by (simp add: q rows_beside_def) (simp add: rows_for_def)
qed

lemma leaving_out_reads_alike:
  assumes "permutes_rows arrange" shows "reads_alike ok s (leaving_out ok s arrange) arrange"
  unfolding reads_alike_def
proof (intro allI)
  fix i day otype
  let ?rows = "rows_for s i day otype" and ?p = "\<lambda>q. ok (obs_source q)"
  show "leaving_out ok s arrange (rows_for (without_refused ok s) i day otype) = filter ?p (arrange ?rows)"
  proof (cases "filter ?p ?rows = []")
    case True
    then have "filter ?p (arrange ?rows) = []" using permutes_rows_filter [OF assms, of ?p ?rows] by simp
    moreover have "arrange [] = []" using assms by (metis mset_zero_iff permutes_rows_def)
    ultimately show ?thesis by (simp only: rows_for_without True) (simp add: leaving_out_def rows_beside_def)
  next
    case False
    from rows_beside_filter [OF this] show ?thesis by (simp add: rows_for_without leaving_out_def)
  qed
qed

lemma putting_back_reads_alike: "permutes_rows without \<Longrightarrow> reads_alike ok s without (putting_back ok without)"
proof -
  assume "permutes_rows without"
  then have "set (without rows) = set rows" for rows by (rule permutes_rows_set)
  then have "filter (\<lambda>q. ok (obs_source q)) (without (filter (\<lambda>q. ok (obs_source q)) rows))
      = without (filter (\<lambda>q. ok (obs_source q)) rows)" for rows
    by (simp add: filter_id_conv)
  then show ?thesis by (simp add: reads_alike_def rows_for_without putting_back_def filter_empty_conv)
qed

section \<open>Properties of the selection\<close>

definition sample_row :: "uuid \<Rightarrow> string \<Rightarrow> string \<Rightarrow> string \<Rightarrow> nat \<Rightarrow> rat \<Rightarrow> observation" where
  "sample_row i source scope ext v c = \<lparr>obs_id = i, obs_listing_id = 1, obs_source = source, credential_scope = scope,
     external_listing_id = ext, session_date = 738000, observation_type = EOD_CLOSE, revision = v,
     obs_currency = ''EUR'', obs_close = Fin c, obs_open = None, obs_high = None, obs_low = None,
     obs_adjusted_close = None, quality_status = QS_OK, retrieved_at = 0, retrieval_policy_decision_id = None,
     storage_policy_decision_id = None, obs_created_at = 0\<rparr>"

definition published_session :: "observation list \<Rightarrow> sess" where
  "published_session os =
     session_on ((empty_database SQLITE)\<lparr>decisions := approved_decisions, observations := os\<rparr>) 0"

definition only_fake :: source_priority_policy where
  "only_fake = \<lparr>policy_name = ''p'', ordered_sources = [''other'', ''fake'']\<rparr>"

lemma published_approved: "is_publication_authorized (published_session os) ''fake''"
  by (simp add: is_publication_authorized_def effective_status_def effective_decision_def published_session_def
      approved_decisions_def sample_decision_def session_on_def)

lemma permutes_id: "permutes_rows (\<lambda>rows. rows)" "permutes_rows rev"
  by (simp_all add: permutes_rows_def)

definition revised_rows :: "observation list" where
  "revised_rows = [sample_row 1 ''fake'' ''default'' ''X'' 1 5, sample_row 2 ''fake'' ''default'' ''X'' 2 6]"

lemma select_revised:
  "select_observation is_publication_authorized (\<lambda>rows. rows) (published_session revised_rows) 1 738000 EOD_CLOSE only_fake
     = Inr \<lparr>selected = sample_row 2 ''fake'' ''default'' ''X'' 2 6, applied_policy = ''p'', alternatives = []\<rparr>"
proof -
  have "rows_for (published_session revised_rows) 1 738000 EOD_CLOSE = revised_rows"
    by (simp add: rows_for_def published_session_def session_on_def revised_rows_def sample_row_def)
  moreover have "latest_by_key revised_rows = [((''fake'', ''default''), sample_row 2 ''fake'' ''default'' ''X'' 2 6)]"
    by (simp add: latest_by_key_def revised_rows_def keep_greater_def account_def sample_row_def)
  ultimately show ?thesis
    by (simp add: select_observation_def current_publishable_by_source_def keep_publishable_def keep_greater_def
        published_approved only_fake_def)
qed

text \<open>
  C23. Selection follows the policy. What is selected comes from the first source of the policy that is
  eligible, it may be published now, belongs to the listing, the date and the type asked for, and is
  the newest revision of its account; the alternatives too may be published and are newest revisions.
\<close>

theorem selection_follows_policy:
  assumes "select_observation gate arrange s listing day otype policy = Inr r" and "permutes_rows arrange"
  shows "(\<exists>before source after. ordered_sources policy = before @ source # after
        \<and> obs_source (selected r) = source \<and> (\<forall>x \<in> set before. \<not> eligible gate s listing day otype x))
    \<and> publishable_row gate s listing day otype (selected r)
    \<and> (\<forall>q \<in> set (alternatives r). publishable_row gate s listing day otype q)
    \<and> applied_policy r = policy_name policy"
proof -
  from selected_of [OF assms] obtain before source after where
    sel: "ordered_sources policy = before @ source # after" "\<forall>x \<in> set before. \<not> eligible gate s listing day otype x"
      "map_of (current_publishable_by_source gate arrange s listing day otype) source = Some (selected r)"
      "applied_policy r = policy_name policy" by blast
  have "\<forall>q \<in> set (alternatives r). publishable_row gate s listing day otype q"
    using in_alternativesD [OF assms(1)] candidate_publishable assms(2) by blast
  with sel candidate_publishable [OF sel(3) assms(2)] show ?thesis by blast
qed

theorem selection_follows_policy_witness:
  "publishable_row is_publication_authorized (published_session revised_rows) 1 738000 EOD_CLOSE
     (sample_row 2 ''fake'' ''default'' ''X'' 2 6)"
  using selection_follows_policy [OF select_revised permutes_id(1)] by simp

text \<open>
  Selection fails exactly when no source of the policy is eligible, and then with
  \<open>NoEligibleObservationError\<close>: a source that the policy does not name is never used.
\<close>

theorem selection_fails_iff:
  assumes "permutes_rows arrange"
  shows "(select_observation gate arrange s listing day otype policy = Inl e) =
    (e = NoEligibleObservationError \<and> filter (eligible gate s listing day otype) (ordered_sources policy) = [])"
  using none_selected_iff [OF assms] by (auto simp: filter_empty_conv)

theorem selection_fails_iff_witness:
  "select_observation is_publication_authorized rev (published_session []) 1 738000 EOD_CLOSE only_fake
     = Inl NoEligibleObservationError"
proof -
  have "filter (eligible is_publication_authorized (published_session []) 1 738000 EOD_CLOSE) (ordered_sources only_fake) = []"
    by (simp add: eligible_def rows_for_def published_session_def session_on_def)
  with selection_fails_iff [OF permutes_id(2)] show ?thesis by simp
qed

text \<open>
  Revocation is immediate. As soon as a decision other than \<open>APPROVED\<close> is recorded for \<open>STORE\<close>,
  \<open>DISPLAY\<close> or \<open>REDISTRIBUTE\<close> of a source, its observations are neither selected nor shown as
  alternatives, and no observation has been changed for it.
\<close>

theorem revoked_source_not_shown:
  assumes "record_decision d s = (Inr dec, t)" and "di_status d \<noteq> APPROVED"
    and "di_capability d \<in> {STORE, DISPLAY, REDISTRIBUTE}" and "permutes_rows arrange"
    and "select_observation is_publication_authorized arrange t listing day otype policy = Inr r"
  shows "obs_source (selected r) \<noteq> di_source d
    \<and> (\<forall>q \<in> set (alternatives r). obs_source q \<noteq> di_source d)
    \<and> observations (work t) = observations (work s)"
proof -
  have "effective_status t (di_source d) (di_capability d) \<noteq> APPROVED"
    using record_decision_effective [OF assms(1)] assms(1,2)
    by (cases rule: record_decision_cases [of d s]) (auto simp: effective_status_def)
  then have "\<not> is_publication_authorized t (di_source d)"
    using assms(3) by (auto simp: is_publication_authorized_def)
  from publication_gate.refused_source_not_shown [OF this assms(4,5)]
  have "obs_source (selected r) \<noteq> di_source d" "\<forall>q \<in> set (alternatives r). obs_source q \<noteq> di_source d" by auto
  moreover have "observations (work t) = observations (work s)"
    using assms(1) by (auto simp: record_decision_def insert_decision_def split: if_splits)
  ultimately show ?thesis by blast
qed

definition other_input :: decision_input where
  "other_input = revoking_input\<lparr>di_source := ''other''\<rparr>"

theorem revoked_source_not_shown_witness:
  "obs_source (sample_row 2 ''fake'' ''default'' ''X'' 2 6) \<noteq> ''other''"
proof -
  let ?s = "published_session revised_rows"
  let ?t = "snd (record_decision other_input ?s)"
  have rec: "record_decision other_input ?s = (Inr (new_decision other_input ?s), ?t)"
    "?t = on_decisions (\<lambda>ds. ds @ [new_decision other_input ?s]) (drawn ?s)"
    by (simp_all add: record_decision_def insert_decision_def published_session_def session_on_def
        approved_decisions_def sample_decision_def uuid4_def other_input_def revoking_input_def)
  have "is_publication_authorized ?t ''fake'' = is_publication_authorized ?s ''fake''"
    by (rule publication_gate.own_source [OF rec(1)]) (simp add: other_input_def revoking_input_def)
  moreover have "observations (work ?t) = observations (work ?s)" by (subst rec(2)) simp
  then have "rows_for ?t 1 738000 EOD_CLOSE = revised_rows"
    unfolding rows_for_def by (simp add: published_session_def session_on_def revised_rows_def sample_row_def)
  moreover have "latest_by_key revised_rows = [((''fake'', ''default''), sample_row 2 ''fake'' ''default'' ''X'' 2 6)]"
    by (simp add: latest_by_key_def revised_rows_def keep_greater_def account_def sample_row_def)
  ultimately have "select_observation is_publication_authorized (\<lambda>rows. rows) ?t 1 738000 EOD_CLOSE only_fake
      = Inr \<lparr>selected = sample_row 2 ''fake'' ''default'' ''X'' 2 6, applied_policy = ''p'', alternatives = []\<rparr>"
    by (simp add: select_observation_def current_publishable_by_source_def keep_publishable_def keep_greater_def
        published_approved only_fake_def)
  from revoked_source_not_shown [OF rec(1) _ _ permutes_id(1) this] show ?thesis
    by (simp add: other_input_def revoking_input_def)
qed

text \<open>
  Determinism without ties. When no two rows of an account share a revision and no two current
  rows of a source a retrieval time, the selection does not depend on the order in which the engine
  returns the rows.
\<close>

theorem selection_ignores_row_order:
  assumes "no_ties (rows_for s listing day otype)" and "permutes_rows arrange" and "permutes_rows arrange'"
  shows "map_sum id selected (select_observation gate arrange s listing day otype policy)
    = map_sum id selected (select_observation gate arrange' s listing day otype policy)"
  using select_permuted [OF assms(1,2)] select_permuted [OF assms(1,3)] by simp

theorem selection_ignores_row_order_witness:
  "map_sum id selected (select_observation is_publication_authorized rev (published_session revised_rows) 1 738000 EOD_CLOSE only_fake)
     = Inr (sample_row 2 ''fake'' ''default'' ''X'' 2 6)"
proof -
  have rows: "rows_for (published_session revised_rows) 1 738000 EOD_CLOSE = revised_rows"
    by (simp add: rows_for_def published_session_def session_on_def revised_rows_def sample_row_def)
  have "no_ties revised_rows"
    by (simp add: no_ties_def revised_rows_def is_current_def current_of_account_def account_def sample_row_def)
  with selection_ignores_row_order [OF _ permutes_id(2) permutes_id(1), of "published_session revised_rows"] rows
  show ?thesis by (simp add: select_revised del: One_nat_def)
qed

text \<open>
  With a tie it does depend on it: a listing known to one source under two external identifiers
  has rows of one account with the same revision, and which of the two values is published is the
  engine's choice.
\<close>

definition tied_rows :: "observation list" where
  "tied_rows = [sample_row 1 ''fake'' ''default'' ''X'' 1 5, sample_row 2 ''fake'' ''default'' ''Y'' 1 6]"

theorem tie_depends_on_row_order:
  "unique_versions natural_key revision tied_rows
   \<and> map_sum id (obs_close \<circ> selected) (select_observation is_publication_authorized (\<lambda>rows. rows)
       (published_session tied_rows) 1 738000 EOD_CLOSE only_fake) = Inr (Fin 5)
   \<and> map_sum id (obs_close \<circ> selected) (select_observation is_publication_authorized rev
       (published_session tied_rows) 1 738000 EOD_CLOSE only_fake) = Inr (Fin 6)"
proof -
  have "rows_for (published_session tied_rows) 1 738000 EOD_CLOSE = tied_rows"
    by (simp add: rows_for_def published_session_def session_on_def tied_rows_def sample_row_def)
  moreover have "latest_by_key tied_rows = [((''fake'', ''default''), sample_row 1 ''fake'' ''default'' ''X'' 1 5)]"
    "latest_by_key (rev tied_rows) = [((''fake'', ''default''), sample_row 2 ''fake'' ''default'' ''Y'' 1 6)]"
    by (simp_all add: latest_by_key_def tied_rows_def keep_greater_def account_def sample_row_def)
  ultimately show ?thesis
    by (simp add: select_observation_def current_publishable_by_source_def keep_publishable_def keep_greater_def
        published_approved only_fake_def unique_versions_def natural_key_def)
      (simp add: tied_rows_def sample_row_def)
qed

end
