(* ===== verification/Consumers.thy ===== *)
theory Consumers
  imports Settings
begin

text \<open>
  \<open>domain/governance/consumer_auth.py\<close> and the dependencies of \<open>api/deps.py\<close>: who may call the API.
  The environment is the map that \<open>os.environ\<close> is; a header arrives decoded as Latin-1, so every
  character of it is one of the model. \<open>respond\<close> is what a client sees of a handler's result: the
  status and the detail, without the headers and the random correlation id of an error.
\<close>

record consumer_credential =
  cred_consumer_id :: string
  cred_env_var :: string
  cred_scopes :: "string list"

record consumer_identity =
  consumer_id :: string
  scopes :: "string list"

definition build_consumer_credentials :: "settings \<Rightarrow> consumer_credential list" where
  "build_consumer_credentials st =
     map (\<lambda>entry. \<lparr>cred_consumer_id = cc_consumer_id entry, cred_env_var = cc_env_var entry,
        cred_scopes = cc_scopes entry\<rparr>) (consumer_credentials st)"

definition reference_of :: "consumer_credential \<Rightarrow> credential_reference" where
  "reference_of c = \<lparr>ref_source = ''consumer:'' @ cred_consumer_id c, ref_scope = ''api-key'',
     ref_env_var = cred_env_var c\<rparr>"

definition identity_of :: "consumer_credential \<Rightarrow> consumer_identity" where
  "identity_of c = \<lparr>consumer_id = cred_consumer_id c, scopes = cred_scopes c\<rparr>"

definition has_scope :: "consumer_identity \<Rightarrow> string \<Rightarrow> bool" where
  "has_scope identity scope \<longleftrightarrow> scope \<in> set (scopes identity)"

section \<open>Authentication\<close>

text \<open>\<open>hmac.compare_digest\<close> of two texts takes ASCII only and raises \<open>TypeError\<close> otherwise.\<close>

definition ascii :: "string \<Rightarrow> bool" where
  "ascii s \<longleftrightarrow> list_all (\<lambda>c. code_point c < 128) s"

definition compare_digest :: "string \<Rightarrow> string \<Rightarrow> exn + bool" where
  "compare_digest a b = (if ascii a \<and> ascii b then Inr (a = b) else Inl (ForeignError ''TypeError''))"

text \<open>The loop over all credentials, with \<open>matched\<close> as its accumulator.\<close>

fun match_credentials :: "(string \<rightharpoonup> string) \<Rightarrow> string \<Rightarrow> consumer_credential list
    \<Rightarrow> consumer_identity option \<Rightarrow> exn + consumer_identity option" where
  "match_credentials environ key [] matched = Inr matched"
| "match_credentials environ key (c # cs) matched =
     (case resolve environ (reference_of c) of
        Inl (CredentialNotFoundError _) \<Rightarrow> match_credentials environ key cs matched
      | Inl e \<Rightarrow> Inl e
      | Inr configured \<Rightarrow>
          (case compare_digest configured key of
             Inl e \<Rightarrow> Inl e
           | Inr same \<Rightarrow> match_credentials environ key cs (if same then Some (identity_of c) else matched)))"

definition authenticate :: "(string \<rightharpoonup> string) \<Rightarrow> consumer_credential list \<Rightarrow> string option \<Rightarrow> exn + consumer_identity" where
  "authenticate environ credentials presented =
     (case presented of
        None \<Rightarrow> Inl (ConsumerAuthenticationError ''Missing consumer credential.'')
      | Some key \<Rightarrow>
          if key = [] then Inl (ConsumerAuthenticationError ''Missing consumer credential.'')
          else case match_credentials environ key credentials None of
                 Inl e \<Rightarrow> Inl e
               | Inr None \<Rightarrow> Inl (ConsumerAuthenticationError ''Invalid consumer credential.'')
               | Inr (Some identity) \<Rightarrow> Inr identity)"

definition authorize :: "consumer_identity \<Rightarrow> string \<Rightarrow> exn + unit" where
  "authorize identity required =
     (if has_scope identity required then Inr () else Inl (ConsumerAuthorizationError (consumer_id identity) required))"

section \<open>The dependency of every handler\<close>

definition bearer_prefix :: string where
  "bearer_prefix = ''Bearer ''"

definition extract_bearer_token :: "string option \<Rightarrow> string option" where
  "extract_bearer_token header =
     (case header of
        None \<Rightarrow> None
      | Some v \<Rightarrow> if starts_with bearer_prefix v then Some (drop (length bearer_prefix) v) else None)"

definition require_scope :: "(string \<rightharpoonup> string) \<Rightarrow> consumer_credential list \<Rightarrow> string \<Rightarrow> string option
    \<Rightarrow> exn + consumer_identity" where
  "require_scope environ credentials scope header =
     (case (case authenticate environ credentials (extract_bearer_token header) of
              Inl e \<Rightarrow> Inl e
            | Inr identity \<Rightarrow> map_sum id (\<lambda>_. identity) (authorize identity scope)) of
        Inl (ConsumerAuthenticationError _) \<Rightarrow> Inl (HTTPException 401 ''Not authenticated.'')
      | Inl (ConsumerAuthorizationError _ _) \<Rightarrow> Inl (HTTPException 403 ''Access denied.'')
      | r \<Rightarrow> r)"

datatype 'a reply = Success 'a | Rejected nat string

text \<open>FastAPI answers an \<open>HTTPException\<close>, the handler of \<open>create_app\<close> everything else.\<close>

definition respond :: "exn + 'a \<Rightarrow> 'a reply" where
  "respond r = (case r of
     Inr x \<Rightarrow> Success x
   | Inl (HTTPException status detail) \<Rightarrow> Rejected status detail
   | Inl _ \<Rightarrow> Rejected 500 ''Internal error.'')"

definition guarded :: "(string \<rightharpoonup> string) \<Rightarrow> settings \<Rightarrow> string \<Rightarrow> string option \<Rightarrow> (consumer_identity \<Rightarrow> exn + 'a) \<Rightarrow> 'a reply" where
  "guarded environ st scope header handler =
     respond (case require_scope environ (build_consumer_credentials st) scope header of
                Inl e \<Rightarrow> Inl e | Inr identity \<Rightarrow> handler identity)"

section \<open>What the loop finds\<close>

definition holds_key :: "(string \<rightharpoonup> string) \<Rightarrow> string \<Rightarrow> consumer_credential \<Rightarrow> bool" where
  "holds_key environ key c \<longleftrightarrow> environ (cred_env_var c) = Some key"

definition configured :: "(string \<rightharpoonup> string) \<Rightarrow> consumer_credential \<Rightarrow> bool" where
  "configured environ c \<longleftrightarrow> (\<exists>v. environ (cred_env_var c) = Some v \<and> v \<noteq> [])"

text \<open>No configured secret and not the key either stops the comparison.\<close>

definition comparable :: "(string \<rightharpoonup> string) \<Rightarrow> string \<Rightarrow> consumer_credential list \<Rightarrow> bool" where
  "comparable environ key cs \<longleftrightarrow>
     list_all (\<lambda>c. \<not> configured environ c \<or> ascii key \<and> ascii (the (environ (cred_env_var c)))) cs"

definition last_holder :: "(string \<rightharpoonup> string) \<Rightarrow> string \<Rightarrow> consumer_credential list \<Rightarrow> consumer_credential option" where
  "last_holder environ key cs = find (holds_key environ key) (rev cs)"

lemma resolve_reference:
  "resolve environ (reference_of c) =
     (if configured environ c then Inr (the (environ (cred_env_var c)))
      else Inl (CredentialNotFoundError (cred_env_var c)))"
  by (auto simp: resolve_def reference_of_def configured_def split: option.split)

lemma find_append: "find p (xs @ ys) = (case find p xs of None \<Rightarrow> find p ys | Some x \<Rightarrow> Some x)"
  by (induction xs) auto

lemma match_credentials_eq:
  "key \<noteq> [] \<Longrightarrow> match_credentials environ key cs matched =
     (if comparable environ key cs
      then Inr (case last_holder environ key cs of None \<Rightarrow> matched | Some c \<Rightarrow> Some (identity_of c))
      else Inl (ForeignError ''TypeError''))"
proof (induction cs arbitrary: matched)
  case Nil
  then show ?case by (simp add: comparable_def last_holder_def)
next
  case (Cons c cs)
  show ?case
  proof (cases "configured environ c")
    case False
    with Cons.prems have "\<not> holds_key environ key c" by (auto simp: configured_def holds_key_def)
    with False Cons show ?thesis
      by (simp add: resolve_reference comparable_def last_holder_def find_append split: option.split)
  next
    case True
    then obtain v where v: "environ (cred_env_var c) = Some v" by (auto simp: configured_def)
    with True Cons show ?thesis
      by (simp add: resolve_reference comparable_def last_holder_def find_append compare_digest_def holds_key_def
          split: option.split)
  qed
qed

lemma last_holder_Some_iff:
  "last_holder environ key cs = Some c \<longleftrightarrow>
     (\<exists>before after. cs = before @ c # after \<and> holds_key environ key c \<and> (\<forall>x \<in> set after. \<not> holds_key environ key x))"
proof
  assume "last_holder environ key cs = Some c"
  then obtain i where i: "i < length cs" "holds_key environ key (rev cs ! i)" "c = rev cs ! i"
    "\<forall>j < i. \<not> holds_key environ key (rev cs ! j)"
    by (auto simp: last_holder_def find_Some_iff)
  let ?n = "length cs - Suc i"
  have "cs = take ?n cs @ c # drop (Suc ?n) cs"
    using i(1,3) by (simp add: rev_nth id_take_nth_drop)
  moreover have "\<forall>x \<in> set (drop (Suc ?n) cs). \<not> holds_key environ key x"
  proof
    fix x assume "x \<in> set (drop (Suc ?n) cs)"
    then have "x \<in> set (take i (rev cs))" using i(1) by (simp add: take_rev Suc_diff_Suc)
    then obtain j where "j < i" "x = rev cs ! j" using i(1) by (auto simp: in_set_conv_nth)
    with i(4) show "\<not> holds_key environ key x" by simp
  qed
  ultimately show "\<exists>before after. cs = before @ c # after \<and> holds_key environ key c
      \<and> (\<forall>x \<in> set after. \<not> holds_key environ key x)" using i(2,3) by blast
next
  assume "\<exists>before after. cs = before @ c # after \<and> holds_key environ key c \<and> (\<forall>x \<in> set after. \<not> holds_key environ key x)"
  then obtain before after where c: "cs = before @ c # after" "holds_key environ key c"
    "\<forall>x \<in> set after. \<not> holds_key environ key x" by blast
  then have "find (holds_key environ key) (rev after) = None" by (simp add: find_None_iff)
  with c(1,2) show "last_holder environ key cs = Some c" by (simp add: last_holder_def find_append)
qed

lemma last_holder_None_iff: "last_holder environ key cs = None \<longleftrightarrow> (\<forall>c \<in> set cs. \<not> holds_key environ key c)"
  by (auto simp: last_holder_def find_None_iff)

lemma authenticate_eq:
  "authenticate environ cs (Some key) =
     (if key = [] then Inl (ConsumerAuthenticationError ''Missing consumer credential.'')
      else if \<not> comparable environ key cs then Inl (ForeignError ''TypeError'')
      else case last_holder environ key cs of
             None \<Rightarrow> Inl (ConsumerAuthenticationError ''Invalid consumer credential.'')
           | Some c \<Rightarrow> Inr (identity_of c))"
  by (simp add: authenticate_def match_credentials_eq split: option.split)

lemma require_scope_eq:
  "require_scope environ cs scope header =
     (case extract_bearer_token header of
        None \<Rightarrow> Inl (HTTPException 401 ''Not authenticated.'')
      | Some key \<Rightarrow>
          if key = [] then Inl (HTTPException 401 ''Not authenticated.'')
          else if \<not> comparable environ key cs then Inl (ForeignError ''TypeError'')
          else case last_holder environ key cs of
                 None \<Rightarrow> Inl (HTTPException 401 ''Not authenticated.'')
               | Some c \<Rightarrow> if scope \<in> set (cred_scopes c) then Inr (identity_of c)
                           else Inl (HTTPException 403 ''Access denied.''))"
proof (cases "extract_bearer_token header")
  case None
  then show ?thesis by (simp add: require_scope_def authenticate_def)
next
  case (Some key)
  show ?thesis
    by (cases "last_holder environ key cs")
      (simp_all add: Some require_scope_def authenticate_eq authorize_def has_scope_def identity_of_def)
qed

lemma extract_Some_iff: "extract_bearer_token header = Some key \<longleftrightarrow> header = Some (bearer_prefix @ key)"
proof (cases header)
  case (Some v)
  have "bearer_prefix @ key = v \<longleftrightarrow> take (length bearer_prefix) v = bearer_prefix \<and> drop (length bearer_prefix) v = key"
    unfolding append_eq_conv_conj by (auto dest: sym)
  with Some show ?thesis by (auto simp: extract_bearer_token_def starts_with_def)
qed (simp add: extract_bearer_token_def)

section \<open>Properties of the authentication\<close>

text \<open>A deployment in which Holdria's key is set and the operators' is not.\<close>

definition sample_environ :: "string \<rightharpoonup> string" where
  "sample_environ = [cc_env_var holdria_config \<mapsto> ''k1'']"

definition default_credentials :: "consumer_credential list" where
  "default_credentials = build_consumer_credentials default_settings"

text \<open>
  Access needs the key and the scope. A request is let through exactly when its header is
  \<open>Bearer\<close> with the non-empty value of a registered credential whose scopes contain the one
  required, provided that the key and every configured secret is ASCII; the identity is that of the
  last credential with this value. No other header, value or order of the credentials gives access.
\<close>

theorem access_needs_key_and_scope:
  "(require_scope environ cs scope header = Inr identity) =
     (\<exists>key before c after. header = Some (bearer_prefix @ key) \<and> key \<noteq> [] \<and> cs = before @ c # after
        \<and> environ (cred_env_var c) = Some key \<and> (\<forall>x \<in> set after. environ (cred_env_var x) \<noteq> Some key)
        \<and> scope \<in> set (cred_scopes c) \<and> identity = identity_of c \<and> comparable environ key cs)"
proof (cases "extract_bearer_token header")
  case None
  then have "header \<noteq> Some (bearer_prefix @ key)" for key by (metis extract_Some_iff option.distinct(1))
  with None show ?thesis by (simp add: require_scope_eq)
next
  case (Some key)
  then have header: "header = Some (bearer_prefix @ key)" by (simp add: extract_Some_iff)
  have "require_scope environ cs scope header = Inr identity \<longleftrightarrow> key \<noteq> [] \<and> comparable environ key cs
      \<and> (\<exists>c. last_holder environ key cs = Some c \<and> scope \<in> set (cred_scopes c) \<and> identity = identity_of c)"
    by (auto simp: require_scope_eq Some split: option.split)
  then show ?thesis by (auto simp: header last_holder_Some_iff holds_key_def)
qed

theorem access_needs_key_and_scope_witness:
  "require_scope sample_environ default_credentials ''catalog:read'' (Some ''Bearer k1'')
     = Inr \<lparr>consumer_id = ''holdria'', scopes = cc_scopes holdria_config\<rparr>"
proof (rule iffD2 [OF access_needs_key_and_scope], intro exI conjI)
  show "Some ''Bearer k1'' = Some (bearer_prefix @ ''k1'')" by (simp add: bearer_prefix_def)
  show "default_credentials = [] @ hd default_credentials # tl default_credentials"
    by (simp add: default_credentials_def build_consumer_credentials_def default_settings_def)
qed (simp_all add: default_credentials_def build_consumer_credentials_def default_settings_def sample_environ_def
    holdria_config_def ops_config_def identity_of_def comparable_def configured_def ascii_def)

text \<open>Whether comparing the key with the secrets raises: one of a configured pair is not ASCII.\<close>

definition comparison_raises :: "(string \<rightharpoonup> string) \<Rightarrow> string \<Rightarrow> consumer_credential list \<Rightarrow> bool" where
  "comparison_raises environ key cs \<longleftrightarrow>
     list_ex (\<lambda>c. configured environ c \<and> \<not> (ascii key \<and> ascii (the (environ (cred_env_var c))))) cs"

lemma comparison_raises_iff: "comparison_raises environ key cs \<longleftrightarrow> \<not> comparable environ key cs"
  by (auto simp: comparison_raises_def comparable_def list_ex_iff list_all_iff)

text \<open>
  C30. The replies of the guard. Whatever the header, the environment and the settings are, a client that
  is not let through sees one of three fixed replies: 401 when it sends no key or a key that no
  credential has, 403 when the last credential with its key lacks the scope, and 500 exactly when the
  comparison raises, because the key it sends or a configured secret is not ASCII. The handler is run
  for nobody else than the last credential with the key and the scope. So a rejection of an ASCII key,
  all secrets being ASCII, depends on the credential with this key only, neither on the others nor on
  whether they have a value; that a key outside ASCII does reveal this is shown below.
\<close>

theorem rejection_replies_are_fixed:
  "guarded environ st scope header handler =
     (case extract_bearer_token header of
        None \<Rightarrow> Rejected 401 ''Not authenticated.''
      | Some key \<Rightarrow>
          if key = [] then Rejected 401 ''Not authenticated.''
          else if comparison_raises environ key (build_consumer_credentials st) then Rejected 500 ''Internal error.''
          else case last_holder environ key (build_consumer_credentials st) of
                 None \<Rightarrow> Rejected 401 ''Not authenticated.''
               | Some c \<Rightarrow> if scope \<notin> set (cred_scopes c) then Rejected 403 ''Access denied.''
                           else respond (handler (identity_of c)))"
proof (cases "extract_bearer_token header")
  case None
  then show ?thesis by (simp add: guarded_def require_scope_eq respond_def)
next
  case (Some key)
  then show ?thesis
    by (cases "last_holder environ key (build_consumer_credentials st)")
      (simp_all add: guarded_def require_scope_eq comparison_raises_iff respond_def)
qed

theorem rejection_replies_are_fixed_witness:
  "guarded sample_environ default_settings ''catalog:read'' (Some ''Bearer guess'') (\<lambda>_. Inr ()) = Rejected 401 ''Not authenticated.''
   \<and> guarded sample_environ default_settings ''operations:metrics'' (Some ''Bearer k1'') (\<lambda>_. Inr ()) = Rejected 403 ''Access denied.''
   \<and> guarded sample_environ default_settings ''catalog:read'' (Some ''Bearer k1'') (\<lambda>_. Inr ()) = Success ()"
proof -
  have "extract_bearer_token (Some ''Bearer guess'') = Some ''guess''" "extract_bearer_token (Some ''Bearer k1'') = Some ''k1''"
    by (simp_all add: extract_Some_iff bearer_prefix_def)
  then show ?thesis
    unfolding rejection_replies_are_fixed
    by (simp add: build_consumer_credentials_def default_settings_def sample_environ_def holdria_config_def
        ops_config_def comparison_raises_def configured_def ascii_def last_holder_def holds_key_def respond_def)
qed

text \<open>
  A key outside ASCII does reveal something. The reply to it is an internal error exactly when some
  registered credential has a value in the environment, and 401 when none has: comparing it raises
  \<open>TypeError\<close>, which the dependency does not collapse into the other rejections.
\<close>

theorem non_ascii_key_reveals_configuration:
  assumes "\<not> ascii key"
  shows "guarded environ st scope (Some (bearer_prefix @ key)) handler =
     (if list_ex (configured environ) (build_consumer_credentials st) then Rejected 500 ''Internal error.''
      else Rejected 401 ''Not authenticated.'')"
proof -
  let ?cs = "build_consumer_credentials st"
  have key: "extract_bearer_token (Some (bearer_prefix @ key)) = Some key" "key \<noteq> []"
    using assms by (auto simp: extract_Some_iff ascii_def)
  have comparable: "comparable environ key ?cs \<longleftrightarrow> \<not> list_ex (configured environ) ?cs"
    using assms by (auto simp: comparable_def list_all_iff list_ex_iff)
  show ?thesis
  proof (cases "list_ex (configured environ) ?cs")
    case True
    with key comparable show ?thesis by (simp add: guarded_def require_scope_eq respond_def)
  next
    case False
    then have "last_holder environ key ?cs = None"
      using key(2) by (auto simp: last_holder_None_iff holds_key_def configured_def list_ex_iff)
    with False key comparable show ?thesis by (simp add: guarded_def require_scope_eq respond_def)
  qed
qed

theorem non_ascii_key_reveals_configuration_witness:
  "guarded sample_environ default_settings ''catalog:read'' (Some (bearer_prefix @ [char_of (233 :: nat)])) (\<lambda>_. Inr ())
     = Rejected 500 ''Internal error.''"
proof -
  have "\<not> ascii [char_of (233 :: nat)]" by (simp add: ascii_def)
  from non_ascii_key_reveals_configuration [OF this, of sample_environ default_settings "''catalog:read''" "\<lambda>_. Inr ()"] show ?thesis
    by (simp add: build_consumer_credentials_def default_settings_def sample_environ_def holdria_config_def
        ops_config_def configured_def)
qed

end
