(* ===== verification/Views.thy ===== *)
theory Views
  imports Selection Scheduler Consumers
begin

text \<open>
  \<open>api/services/observation_view.py\<close> and the schemas of \<open>api/schemas.py\<close> it fills: what the API says of
  a listing on a date, on the newest date and over a range. \<open>view\<close> is the context that these functions
  share: the session, the settings, the calendar of the listing and the order in which the engine
  returns rows. Pydantic's checks of the values are not part of the model: what is stored has the types
  of the schemas.
\<close>

section \<open>Schemas\<close>

text \<open>The members of \<open>ObservationAvailability\<close>, three of which share their names with other enumerations.\<close>

datatype ObservationAvailability = AV_OK | AV_NO_SESSION | AV_WAITING_FOR_PUBLICATION | AV_UNAVAILABLE

record observation_value_out =
  vo_observation_type :: ObservationType
  vo_is_eod :: bool
  vo_currency :: string
  vo_close :: decimal
  vo_source :: string
  vo_revision :: nat
  vo_retrieved_at :: datetime
  vo_requires_attribution :: bool
  vo_attribution :: "string option"
  vo_has_discrepancy :: bool

record observation_out =
  oo_listing_id :: uuid
  oo_session_date :: date
  oo_availability :: ObservationAvailability
  oo_value :: "observation_value_out option"

section \<open>One date\<close>

record view =
  v_sess :: sess
  v_settings :: settings
  v_calendar :: calendar
  v_arrange :: "observation list \<Rightarrow> observation list"

definition latest_lookback_days :: nat where
  "latest_lookback_days = 10"

fun availability_by_expectation :: "SessionExpectation \<Rightarrow> ObservationAvailability" where
  "availability_by_expectation NO_SESSION = AV_NO_SESSION"
| "availability_by_expectation WAITING_SESSION = AV_WAITING_FOR_PUBLICATION"
| "availability_by_expectation EXPECTED_PUBLISHED = AV_UNAVAILABLE"

definition priority_policy :: "settings \<Rightarrow> source_priority_policy" where
  "priority_policy st = \<lparr>policy_name = ''configured-sources'', ordered_sources = enabled_sources st\<rparr>"

definition session_expectation :: "view \<Rightarrow> listing \<Rightarrow> date \<Rightarrow> exn + SessionExpectation" where
  "session_expectation V l day =
     (case asset_class_of l (v_sess V) of
        Inl e \<Rightarrow> Inl e
      | Inr ac \<Rightarrow> (case v_calendar V ac (lst_venue l) (lst_mic l) day day of
          Inl e \<Rightarrow> Inl e
        | Inr [] \<Rightarrow> Inl IndexError
        | Inr (c # _) \<Rightarrow> Inr (expectation c)))"

definition attribution_for :: "sess \<Rightarrow> string \<Rightarrow> bool \<times> string option" where
  "attribution_for s source =
     (let requires = requires_attribution s source
      in (requires, if requires then Some (''Source: '' @ source @ ''.'') else None))"

definition value_out :: "sess \<Rightarrow> selection_result \<Rightarrow> observation_value_out" where
  "value_out s r =
     (let q = selected r; (requires, attribution) = attribution_for s (obs_source q)
      in \<lparr>vo_observation_type = observation_type q, vo_is_eod = True, vo_currency = obs_currency q,
          vo_close = obs_close q, vo_source = obs_source q, vo_revision = revision q, vo_retrieved_at = retrieved_at q,
          vo_requires_attribution = requires, vo_attribution = attribution, vo_has_discrepancy = has_discrepancy r\<rparr>)"

definition select_for :: "view \<Rightarrow> uuid \<Rightarrow> ObservationType \<Rightarrow> date \<Rightarrow> exn + selection_result" where
  "select_for V i otype day =
     select_observation is_publication_authorized (v_arrange V) (v_sess V) i day otype (priority_policy (v_settings V))"

definition build_observation_out :: "view \<Rightarrow> listing \<Rightarrow> ObservationType \<Rightarrow> date \<Rightarrow> exn + observation_out" where
  "build_observation_out V l otype day =
     (case select_for V (lst_id l) otype day of
        Inl NoEligibleObservationError \<Rightarrow>
          (case session_expectation V l day of
             Inl e \<Rightarrow> Inl e
           | Inr x \<Rightarrow> Inr \<lparr>oo_listing_id = lst_id l, oo_session_date = day,
               oo_availability = availability_by_expectation x, oo_value = None\<rparr>)
      | Inl e \<Rightarrow> Inl e
      | Inr r \<Rightarrow> Inr \<lparr>oo_listing_id = lst_id l, oo_session_date = day, oo_availability = AV_OK,
          oo_value = Some (value_out (v_sess V) r)\<rparr>)"

section \<open>The newest date\<close>

text \<open>The loop over the offsets: the first date with a value, or \<open>None\<close> at its end.\<close>

fun first_available :: "(date \<Rightarrow> exn + observation_out) \<Rightarrow> date list \<Rightarrow> exn + observation_out option" where
  "first_available build [] = Inr None"
| "first_available build (d # ds) =
     (case build d of
        Inl e \<Rightarrow> Inl e
      | Inr out \<Rightarrow> if oo_availability out = AV_OK then Inr (Some out) else first_available build ds)"

definition lookback_dates :: "date \<Rightarrow> date list" where
  "lookback_dates today = map (\<lambda>offset. today - int offset) [0..<latest_lookback_days + 1]"

definition find_latest_observation :: "view \<Rightarrow> listing \<Rightarrow> ObservationType \<Rightarrow> date \<Rightarrow> exn + observation_out" where
  "find_latest_observation V l otype today =
     (case first_available (build_observation_out V l otype) (lookback_dates today) of
        Inl e \<Rightarrow> Inl e
      | Inr (Some out) \<Rightarrow> Inr out
      | Inr None \<Rightarrow> build_observation_out V l otype today)"

definition authorized_sources :: "view \<Rightarrow> string list" where
  "authorized_sources V = filter (is_publication_authorized (v_sess V)) (enabled_sources (v_settings V))"

definition latest_publishable_session_date :: "view \<Rightarrow> listing \<Rightarrow> ObservationType \<Rightarrow> date option" where
  "latest_publishable_session_date V l otype =
     (if authorized_sources V = [] then None
      else select_max (\<lambda>q. obs_listing_id q = lst_id l \<and> observation_type q = otype
               \<and> obs_source q \<in> set (authorized_sources V)) session_date (observations (work (v_sess V))))"

section \<open>A range of dates\<close>

text \<open>\<open>date.max\<close>, beyond which adding a day raises \<open>OverflowError\<close>.\<close>

definition max_date :: date where
  "max_date = 3652059"

function range_from :: "(date \<Rightarrow> exn + observation_out) \<Rightarrow> date \<Rightarrow> date \<Rightarrow> exn + observation_out list" where
  "range_from build current end_date =
     (if current \<le> end_date
      then (case build current of
          Inl e \<Rightarrow> Inl e
        | Inr out \<Rightarrow>
            if current = max_date then Inl (ForeignError ''OverflowError'')
            else map_sum id ((#) out) (range_from build (current + 1) end_date))
      else Inr [])"
  by pat_completeness auto
termination
  by (relation "measure (\<lambda>(build, current, end_date). nat (end_date - current + 1))") auto

declare range_from.simps [simp del]

definition build_observation_range :: "view \<Rightarrow> listing \<Rightarrow> ObservationType \<Rightarrow> date \<Rightarrow> date \<Rightarrow> exn + observation_out list" where
  "build_observation_range V l otype start end_date = range_from (build_observation_out V l otype) start end_date"

section \<open>Dates on which something is published\<close>

definition published_on :: "view \<Rightarrow> uuid \<Rightarrow> ObservationType \<Rightarrow> date \<Rightarrow> bool" where
  "published_on V i otype day \<longleftrightarrow> (\<exists>r. select_for V i otype day = Inr r)"

lemma published_on_iff:
  assumes "permutes_rows (v_arrange V)"
  shows "published_on V i otype day \<longleftrightarrow>
    (\<exists>q \<in> set (observations (work (v_sess V))). obs_listing_id q = i \<and> observation_type q = otype
       \<and> session_date q = day \<and> obs_source q \<in> set (authorized_sources V))"
proof -
  let ?S = "v_sess V"
  have "published_on V i otype day \<longleftrightarrow> \<not> (\<exists>e. select_for V i otype day = Inl e)"
    unfolding published_on_def by (cases "select_for V i otype day") auto
  also have "\<dots> \<longleftrightarrow> (\<exists>source \<in> set (enabled_sources (v_settings V)). eligible is_publication_authorized ?S i day otype source)"
    by (simp add: select_for_def none_selected_iff [OF assms] priority_policy_def)
  also have "\<dots> \<longleftrightarrow> (\<exists>q \<in> set (observations (work ?S)). obs_listing_id q = i \<and> observation_type q = otype
       \<and> session_date q = day \<and> obs_source q \<in> set (authorized_sources V))"
    by (auto simp: eligible_def rows_for_def authorized_sources_def)
  finally show ?thesis .
qed

lemma build_cases:
  assumes "permutes_rows (v_arrange V)" and "build_observation_out V l otype day = Inr out"
  obtains (published) r where "select_for V (lst_id l) otype day = Inr r" "oo_availability out = AV_OK"
      "oo_value out = Some (value_out (v_sess V) r)" "oo_session_date out = day" "oo_listing_id out = lst_id l"
  | (absent) "\<not> published_on V (lst_id l) otype day" "oo_availability out \<noteq> AV_OK" "oo_value out = None"
      "oo_session_date out = day" "oo_listing_id out = lst_id l"
proof (cases "select_for V (lst_id l) otype day")
  case (Inr r)
  with assms(2) have "out = \<lparr>oo_listing_id = lst_id l, oo_session_date = day, oo_availability = AV_OK,
          oo_value = Some (value_out (v_sess V) r)\<rparr>"
    by (simp add: build_observation_out_def)
  with Inr published show ?thesis by simp
next
  case (Inl e)
  then have e: "e = NoEligibleObservationError"
    unfolding select_for_def none_selected_iff [OF assms(1)] by simp
  with Inl assms(2) obtain x where
    "out = \<lparr>oo_listing_id = lst_id l, oo_session_date = day, oo_availability = availability_by_expectation x, oo_value = None\<rparr>"
    by (auto simp: build_observation_out_def split: sum.splits)
  moreover have "availability_by_expectation x \<noteq> AV_OK" by (cases x) simp_all
  moreover have "\<not> published_on V (lst_id l) otype day" using Inl by (simp add: published_on_def)
  ultimately show ?thesis using absent by simp
qed

section \<open>Only what may be published\<close>

definition sample_view :: "observation list \<Rightarrow> view" where
  "sample_view os = \<lparr>v_sess = published_session os, v_settings = default_settings\<lparr>enabled_sources := [''other'', ''fake'']\<rparr>,
     v_calendar = fake_sessions_in_range, v_arrange = (\<lambda>rows. rows)\<rparr>"

definition sample_listing :: listing where
  "sample_listing = \<lparr>lst_id = 1, lst_instrument_id = 1, lst_mic = None, lst_venue = ''KRAKEN'', lst_ticker = ''BTC'',
     lst_currency = ''EUR'', lst_created_at = 0, lst_updated_at = 0\<rparr>"

lemma sample_view_simps [simp]:
  "v_sess (sample_view os) = published_session os" "v_arrange (sample_view os) = (\<lambda>rows. rows)"
  "enabled_sources (v_settings (sample_view os)) = [''other'', ''fake'']"
  "v_calendar (sample_view os) = fake_sessions_in_range"
  by (simp_all add: sample_view_def)

lemma policy_name_only:
  "select_observation gate arrange s i day otype (policy\<lparr>policy_name := n\<rparr>)
     = map_sum id (\<lambda>r. r\<lparr>applied_policy := n\<rparr>) (select_observation gate arrange s i day otype policy)"
  by (auto simp: select_observation_def Let_def split: option.split)

lemma select_for_sample:
  "select_for (sample_view revised_rows) 1 EOD_CLOSE 738000 =
     Inr \<lparr>selected = sample_row 2 ''fake'' ''default'' ''X'' 2 6, applied_policy = ''configured-sources'', alternatives = []\<rparr>"
proof -
  have "priority_policy (v_settings (sample_view revised_rows)) = only_fake\<lparr>policy_name := ''configured-sources''\<rparr>"
    by (simp add: priority_policy_def only_fake_def)
  then show ?thesis by (simp add: select_for_def policy_name_only select_revised del: One_nat_def)
qed

definition sample_out :: observation_out where
  "sample_out = \<lparr>oo_listing_id = 1, oo_session_date = 738000, oo_availability = AV_OK, oo_value = Some (value_out
      (published_session revised_rows) \<lparr>selected = sample_row 2 ''fake'' ''default'' ''X'' 2 6,
        applied_policy = ''configured-sources'', alternatives = []\<rparr>)\<rparr>"

lemma build_sample: "build_observation_out (sample_view revised_rows) sample_listing EOD_CLOSE 738000 = Inr sample_out"
  by (simp add: build_observation_out_def select_for_sample sample_listing_def sample_out_def del: One_nat_def)

text \<open>
  C9. Only what may be published. When the view of a date has a value, it is that of an observation of
  the listing, the date and the type asked for, of a source that is enabled and may be published now,
  and of the newest revision of its account; no source enabled before it is eligible; and the
  attribution names the source exactly when the policy requires one. Otherwise there is no value at all.
\<close>

theorem published_value_is_authorized:
  assumes "build_observation_out V l otype day = Inr out" and "permutes_rows (v_arrange V)"
  shows "oo_listing_id out = lst_id l \<and> oo_session_date out = day
    \<and> (case oo_value out of
         None \<Rightarrow> oo_availability out \<noteq> AV_OK
       | Some v \<Rightarrow> oo_availability out = AV_OK
           \<and> (\<exists>q before after. publishable_row is_publication_authorized (v_sess V) (lst_id l) day otype q
                \<and> vo_close v = obs_close q \<and> vo_currency v = obs_currency q \<and> vo_revision v = revision q
                \<and> vo_source v = obs_source q \<and> vo_retrieved_at v = retrieved_at q \<and> vo_observation_type v = otype
                \<and> enabled_sources (v_settings V) = before @ vo_source v # after
                \<and> filter (eligible is_publication_authorized (v_sess V) (lst_id l) day otype) before = [])
           \<and> vo_attribution v = (if vo_requires_attribution v then Some (''Source: '' @ vo_source v @ ''.'') else None)
           \<and> vo_requires_attribution v = requires_attribution (v_sess V) (vo_source v))"
  using assms(2,1)
proof (cases rule: build_cases)
  case (published r)
  let ?v = "value_out (v_sess V) r"
  from selected_of [OF published(1) [unfolded select_for_def] assms(2)] obtain before source after where
    order: "enabled_sources (v_settings V) = before @ source # after"
      "\<forall>x \<in> set before. \<not> eligible is_publication_authorized (v_sess V) (lst_id l) day otype x"
      "map_of (current_publishable_by_source is_publication_authorized (v_arrange V) (v_sess V) (lst_id l) day otype) source
        = Some (selected r)"
    by (auto simp: priority_policy_def)
  from candidate_publishable [OF order(3) assms(2)]
  have row: "publishable_row is_publication_authorized (v_sess V) (lst_id l) day otype (selected r)"
    and source: "obs_source (selected r) = source" by simp_all
  have "\<exists>q before after. publishable_row is_publication_authorized (v_sess V) (lst_id l) day otype q
      \<and> vo_close ?v = obs_close q \<and> vo_currency ?v = obs_currency q \<and> vo_revision ?v = revision q
      \<and> vo_source ?v = obs_source q \<and> vo_retrieved_at ?v = retrieved_at q \<and> vo_observation_type ?v = otype
      \<and> enabled_sources (v_settings V) = before @ vo_source ?v # after
      \<and> filter (eligible is_publication_authorized (v_sess V) (lst_id l) day otype) before = []"
    by (rule exI [of _ "selected r"], rule exI [of _ before], rule exI [of _ after])
      (use row order(1,2) source in \<open>simp add: value_out_def attribution_for_def Let_def publishable_row_def filter_empty_conv\<close>)
  with published show ?thesis by (simp add: value_out_def attribution_for_def Let_def)
next
  case absent
  then show ?thesis by simp
qed

theorem published_value_is_authorized_witness:
  "requires_attribution (published_session revised_rows) ''fake'' = vo_requires_attribution
     (value_out (published_session revised_rows)
       \<lparr>selected = sample_row 2 ''fake'' ''default'' ''X'' 2 6, applied_policy = ''configured-sources'', alternatives = []\<rparr>)"
proof -
  let ?V = "sample_view revised_rows"
  have "build_observation_out ?V sample_listing EOD_CLOSE 738000 = Inr sample_out" by (rule build_sample)
  from published_value_is_authorized [OF this] show ?thesis
    by (simp add: permutes_id sample_out_def value_out_def attribution_for_def Let_def) (simp add: sample_row_def)
qed

section \<open>The last effective date\<close>

text \<open>The date that the status reports is the greatest one on which a value of the type is published.\<close>

lemma status_date:
  assumes "permutes_rows (v_arrange V)"
  shows "(latest_publishable_session_date V l otype = Some d) =
      (published_on V (lst_id l) otype d \<and> {d'. published_on V (lst_id l) otype d' \<and> d < d'} = {})
    \<and> (latest_publishable_session_date V l otype = None) = ({d'. published_on V (lst_id l) otype d'} = {})"
proof -
  let ?p = "\<lambda>q. obs_listing_id q = lst_id l \<and> observation_type q = otype \<and> obs_source q \<in> set (authorized_sources V)"
  let ?rows = "observations (work (v_sess V))"
  have dates: "published_on V (lst_id l) otype day \<longleftrightarrow> (\<exists>q \<in> set ?rows. ?p q \<and> session_date q = day)" for day
    unfolding published_on_iff [OF assms] by blast
  have eq: "latest_publishable_session_date V l otype = select_max ?p session_date ?rows"
    by (cases "authorized_sources V = []")
      (simp_all add: latest_publishable_session_date_def select_max_def)
  have "select_max ?p session_date ?rows = Some d \<longleftrightarrow> published_on V (lst_id l) otype d
      \<and> (\<forall>d'. published_on V (lst_id l) otype d' \<longrightarrow> d' \<le> d)"
    unfolding select_max_Some_iff dates by blast
  moreover have "select_max ?p session_date ?rows = None \<longleftrightarrow> (\<forall>d'. \<not> published_on V (lst_id l) otype d')"
    unfolding select_max_None_iff dates by blast
  ultimately show ?thesis unfolding eq by (auto simp: not_less)
qed

section \<open>The newest observation\<close>

lemma first_available_None:
  "first_available build ds = Inr None \<Longrightarrow> d \<in> set ds \<Longrightarrow> \<exists>out. build d = Inr out \<and> oo_availability out \<noteq> AV_OK"
  by (induction ds) (auto split: sum.splits if_splits)

lemma first_available_Some:
  "first_available build ds = Inr (Some out) \<Longrightarrow> \<exists>before d after. ds = before @ d # after \<and> build d = Inr out
     \<and> oo_availability out = AV_OK \<and> (\<forall>x \<in> set before. \<exists>o1. build x = Inr o1 \<and> oo_availability o1 \<noteq> AV_OK)"
proof (induction ds)
  case (Cons d ds)
  then obtain o1 where o1: "build d = Inr o1" by (auto split: sum.splits)
  show ?case
  proof (cases "oo_availability o1 = AV_OK")
    case True
    with Cons.prems o1 have "out = o1" by simp
    with True o1 have "d # ds = [] @ d # ds \<and> build d = Inr out \<and> oo_availability out = AV_OK" by simp
    then show ?thesis by fastforce
  next
    case False
    with Cons o1 obtain before d' after where "ds = before @ d' # after" "build d' = Inr out"
      "oo_availability out = AV_OK" "\<forall>x \<in> set before. \<exists>o1. build x = Inr o1 \<and> oo_availability o1 \<noteq> AV_OK" by auto
    with False o1 have "d # ds = (d # before) @ d' # after \<and> build d' = Inr out \<and> oo_availability out = AV_OK
        \<and> (\<forall>x \<in> set (d # before). \<exists>o1. build x = Inr o1 \<and> oo_availability o1 \<noteq> AV_OK)" by simp
    then show ?thesis by blast
  qed
qed simp

lemma build_ok_iff:
  assumes "permutes_rows (v_arrange V)" and "build_observation_out V l otype day = Inr out"
  shows "oo_availability out = AV_OK \<longleftrightarrow> published_on V (lst_id l) otype day" "oo_session_date out = day"
  using assms by (cases rule: build_cases; auto simp: published_on_def)+

lemma lookback_split:
  assumes "lookback_dates today = before @ d # after"
  shows "today - 10 \<le> d" "d \<le> today" "x \<in> set before \<longleftrightarrow> d < x \<and> x \<le> today"
proof -
  let ?n = "length before"
  have n: "?n < 11" using arg_cong [OF assms, of length] by (simp add: lookback_dates_def latest_lookback_days_def)
  have at: "lookback_dates today ! i = today - int i" if "i < 11" for i
    using that by (simp add: lookback_dates_def latest_lookback_days_def del: upt_Suc)
  have d: "d = today - int ?n" using at [OF n] by (simp add: assms)
  with n show "today - 10 \<le> d" "d \<le> today" by simp_all
  have "before = take ?n (lookback_dates today)" by (simp add: assms)
  also have "\<dots> = map (\<lambda>k. today - int k) [0..<?n]"
    using n by (simp add: lookback_dates_def latest_lookback_days_def take_map take_upt del: upt_Suc)
  finally have "set before = (\<lambda>k. today - int k) ` {0..<?n}" by (metis set_map set_upt)
  moreover have "x \<in> (\<lambda>k. today - int k) ` {0..<?n} \<longleftrightarrow> d < x \<and> x \<le> today"
  proof
    assume "d < x \<and> x \<le> today"
    then have "x = today - int (nat (today - x))" "nat (today - x) \<in> {0..<?n}" by (auto simp: d)
    then show "x \<in> (\<lambda>k. today - int k) ` {0..<?n}" by blast
  qed (auto simp: d)
  ultimately show "x \<in> set before \<longleftrightarrow> d < x \<and> x \<le> today" by simp
qed

lemma set_lookback: "set (lookback_dates today) = {today - 10..today}"
proof -
  have "set (lookback_dates today) = (\<lambda>k. today - int k) ` {0..<11}"
    by (simp add: lookback_dates_def latest_lookback_days_def del: upt_Suc)
  moreover have "x \<in> (\<lambda>k. today - int k) ` {0..<11}" if "today - 10 \<le> x" "x \<le> today" for x
    using that by (intro image_eqI [of _ _ "nat (today - x)"]) auto
  ultimately show ?thesis by auto
qed

definition recent_dates :: "view \<Rightarrow> uuid \<Rightarrow> ObservationType \<Rightarrow> date \<Rightarrow> date set" where
  "recent_dates V i otype today = {d. today - 10 \<le> d \<and> d \<le> today \<and> published_on V i otype d}"

lemma finite_recent_dates: "finite (recent_dates V i otype today)"
  by (rule finite_subset [of _ "{today - 10..today}"]) (auto simp: recent_dates_def)

lemma latest_newest:
  assumes "find_latest_observation V l otype today = Inr out" and "permutes_rows (v_arrange V)"
  shows "oo_session_date out =
      (if recent_dates V (lst_id l) otype today = {} then today else Max (recent_dates V (lst_id l) otype today))
    \<and> (oo_availability out = AV_OK) = (recent_dates V (lst_id l) otype today \<noteq> {})
    \<and> build_observation_out V l otype (oo_session_date out) = Inr out"
proof -
  let ?D = "recent_dates V (lst_id l) otype today"
  let ?build = "build_observation_out V l otype"
  from assms(1) consider
      (found) "first_available ?build (lookback_dates today) = Inr (Some out)"
    | (none) "first_available ?build (lookback_dates today) = Inr None" "?build today = Inr out"
    by (auto simp: find_latest_observation_def split: sum.splits option.splits)
  then show ?thesis
  proof cases
    case found
    from first_available_Some [OF this] obtain before d after where
      f: "lookback_dates today = before @ d # after" "?build d = Inr out" "oo_availability out = AV_OK"
        "\<forall>x \<in> set before. \<exists>o1. ?build x = Inr o1 \<and> oo_availability o1 \<noteq> AV_OK" by blast
    have "\<not> published_on V (lst_id l) otype x" if "x \<in> set before" for x
      using f(4) that build_ok_iff(1) [OF assms(2)] by blast
    then have later: "\<not> published_on V (lst_id l) otype x" if "d < x" "x \<le> today" for x
      using that lookback_split(3) [OF f(1)] by blast
    have "d \<in> ?D" using f(3) build_ok_iff(1) [OF assms(2) f(2)] lookback_split(1,2) [OF f(1)] by (simp add: recent_dates_def)
    moreover have "x \<le> d" if "x \<in> ?D" for x using later [of x] that by (auto simp: recent_dates_def not_less [symmetric])
    ultimately have "Max ?D = d" "?D \<noteq> {}" using finite_recent_dates by (auto intro!: Max_eqI)
    with f(2,3) build_ok_iff(2) [OF assms(2) f(2)] show ?thesis by simp
  next
    case none
    have "\<not> published_on V (lst_id l) otype d" if "today - 10 \<le> d" "d \<le> today" for d
      using first_available_None [OF none(1), of d] that build_ok_iff(1) [OF assms(2)] by (auto simp: set_lookback)
    then have "?D = {}" "\<not> published_on V (lst_id l) otype today" by (auto simp: recent_dates_def)
    then show ?thesis using none(2) build_ok_iff [OF assms(2) none(2)] by simp
  qed
qed

lemma lookback_Cons: "lookback_dates today = today # map (\<lambda>offset. today - int offset) [1..<11]"
  by (simp add: lookback_dates_def latest_lookback_days_def upt_conv_Cons)

text \<open>
  The latest observation is the newest. The answer is the value of the greatest date on which one is
  published, among today and the ten days before it; when there is none it is today's state of
  absence, never a value that is older than the window.
\<close>

theorem latest_is_newest:
  assumes "find_latest_observation V l otype today = Inr out" and "permutes_rows (v_arrange V)"
  shows "oo_session_date out =
      (if recent_dates V (lst_id l) otype today = {} then today else Max (recent_dates V (lst_id l) otype today))
    \<and> (oo_availability out = AV_OK) = (recent_dates V (lst_id l) otype today \<noteq> {})
    \<and> build_observation_out V l otype (oo_session_date out) = Inr out"
  by (rule latest_newest [OF assms])

theorem latest_is_newest_witness:
  "recent_dates (sample_view revised_rows) 1 EOD_CLOSE 738000 \<noteq> {}"
proof -
  have "find_latest_observation (sample_view revised_rows) sample_listing EOD_CLOSE 738000 = Inr sample_out"
    by (simp add: find_latest_observation_def lookback_Cons build_sample) (simp add: sample_out_def)
  from latest_is_newest [OF this] show ?thesis by (simp add: permutes_id sample_listing_def sample_out_def)
qed

section \<open>The range is exact\<close>

lemma upto_Cons: "a \<le> b \<Longrightarrow> [a..b] = a # [a + 1..b]" for a b :: int
  by (simp add: upto.simps)

lemma range_from_Inr_iff:
  "range_from build a b = Inr outs \<longleftrightarrow> map build [a..b] = map Inr outs \<and> \<not> (a \<le> max_date \<and> max_date \<le> b)"
proof (induction build a b arbitrary: outs rule: range_from.induct)
  case (1 build a b)
  show ?case
  proof (cases "a \<le> b")
    case False
    then show ?thesis by (auto simp: range_from.simps [of build a b])
  next
    case True
    note step = range_from.simps [of build a b] upto_Cons [OF True]
    show ?thesis
    proof (cases "build a")
      case (Inl e)
      with True show ?thesis by (auto simp: step Cons_eq_map_conv)
    next
      case (Inr out)
      show ?thesis
      proof (cases "a = max_date")
        case True
        with Inr \<open>a \<le> b\<close> show ?thesis unfolding step(1) by simp
      next
        case False
        have IH: "range_from build (a + 1) b = Inr os \<longleftrightarrow>
            map build [a + 1..b] = map Inr os \<and> \<not> (a + 1 \<le> max_date \<and> max_date \<le> b)" for os
          using "1.IH" [OF True Inr False] .
        have "range_from build a b = Inr outs \<longleftrightarrow> (\<exists>os. outs = out # os \<and> range_from build (a + 1) b = Inr os)"
          using True Inr False by (cases "range_from build (a + 1) b") (auto simp: step)
        also have "\<dots> \<longleftrightarrow> (\<exists>os. outs = out # os \<and> map build [a + 1..b] = map Inr os) \<and> \<not> (a \<le> max_date \<and> max_date \<le> b)"
          unfolding IH using False by auto
        also have "(\<exists>os. outs = out # os \<and> map build [a + 1..b] = map Inr os) \<longleftrightarrow> map build [a..b] = map Inr outs"
          using Inr by (cases outs) (auto simp: step)
        finally show ?thesis .
      qed
    qed
  qed
qed

text \<open>
  The loop returns exactly when every date of the range has an answer and the range does not reach the
  last date there is; the answers are then those of the dates from the first to the last, in order.
\<close>

lemma range_exact:
  assumes "permutes_rows (v_arrange V)"
  shows "(build_observation_range V l otype start end_date = Inr outs) =
    (map oo_session_date outs = [start..end_date]
     \<and> filter (\<lambda>out. build_observation_out V l otype (oo_session_date out) \<noteq> Inr out) outs = []
     \<and> \<not> (start \<le> max_date \<and> max_date \<le> end_date))"
proof -
  let ?build = "build_observation_out V l otype"
  have "map ?build ds = map Inr outs \<longleftrightarrow>
      map oo_session_date outs = ds \<and> (\<forall>out \<in> set outs. ?build (oo_session_date out) = Inr out)" for ds
  proof (induction outs arbitrary: ds)
    case (Cons out outs)
    then show ?case using build_ok_iff(2) [OF assms] by (cases ds) auto
  qed auto
  then show ?thesis by (simp add: build_observation_range_def range_from_Inr_iff filter_empty_conv)
qed

section \<open>Sources that are not enabled\<close>

text \<open>
  The value never comes from a source that the settings do not name, but the flag beside it may: the
  alternatives are those of all publishable sources, so a disagreement with a source that is not
  enabled is shown as a discrepancy.
\<close>

definition disagreeing_view :: view where
  "disagreeing_view = \<lparr>v_sess = session_on ((empty_database SQLITE)\<lparr>
       decisions := approved_decisions @ map (\<lambda>d. d\<lparr>dec_source := ''other''\<rparr>) approved_decisions,
       observations := [sample_row 1 ''fake'' ''default'' ''X'' 1 5, sample_row 2 ''other'' ''default'' ''Y'' 1 6]\<rparr>) 0,
     v_settings = default_settings, v_calendar = fake_sessions_in_range, v_arrange = (\<lambda>rows. rows)\<rparr>"

lemma disabled_source_flags_discrepancy:
  "\<exists>v. map_sum id oo_value (build_observation_out disagreeing_view sample_listing EOD_CLOSE 738000) = Inr (Some v)
     \<and> vo_source v = ''fake'' \<and> vo_has_discrepancy v \<and> enabled_sources (v_settings disagreeing_view) = [''fake'']"
proof -
  let ?q = "sample_row 1 ''fake'' ''default'' ''X'' 1 5" and ?p = "sample_row 2 ''other'' ''default'' ''Y'' 1 6"
  let ?S = "v_sess disagreeing_view"
  have rows: "rows_for ?S 1 738000 EOD_CLOSE = [?q, ?p]"
    by (simp add: rows_for_def disagreeing_view_def session_on_def sample_row_def)
  have gate: "is_publication_authorized ?S ''fake''" "is_publication_authorized ?S ''other''"
    by (simp_all add: is_publication_authorized_def effective_status_def effective_decision_def disagreeing_view_def
        approved_decisions_def sample_decision_def session_on_def)
  have "latest_by_key [?q, ?p] = [((''fake'', ''default''), ?q), ((''other'', ''default''), ?p)]"
    by (simp add: latest_by_key_def keep_greater_def account_def sample_row_def)
  then have "current_publishable_by_source is_publication_authorized (\<lambda>rows. rows) ?S 1 738000 EOD_CLOSE
      = [(''fake'', ?q), (''other'', ?p)]"
    by (simp add: current_publishable_by_source_def rows gate keep_publishable_def keep_greater_def del: One_nat_def)
  then have "select_for disagreeing_view 1 EOD_CLOSE 738000 =
      Inr \<lparr>selected = ?q, applied_policy = ''configured-sources'', alternatives = [?p]\<rparr>"
    by (simp add: select_for_def select_observation_def priority_policy_def disagreeing_view_def default_settings_def
        sample_row_def del: One_nat_def)
  then show ?thesis
    by (simp add: build_observation_out_def sample_listing_def value_out_def attribution_for_def Let_def
        has_discrepancy_def dec_eq_iff del: One_nat_def) (simp add: sample_row_def disagreeing_view_def default_settings_def)
qed

end
