(* ===== verification/Metrics.thy ===== *)
theory Metrics
  imports Scheduler "HOL-Library.Char_ord" "HOL-Library.List_Lexorder"
begin

text \<open>
  \<open>domain/ingestion/metrics.py\<close>: the operational snapshot of the queue, the quotas and the recorded
  runs. Dictionaries are lists of pairs with distinct keys.
\<close>

record source_quota_snapshot =
  sq_source :: string
  sq_remaining :: "int option"
  sq_limit :: "int option"
  sq_exhausted :: bool
  sq_error :: "string option"

record scheduler_metrics_snapshot =
  pending_jobs :: nat
  pending_jobs_by_source :: "(string \<times> nat) list"
  oldest_pending_seconds :: "rat option"
  done_jobs :: nat
  failed_jobs_by_source :: "(string \<times> nat) list"
  quota_by_source :: "source_quota_snapshot list"
  stalled_sources :: "string list"
  scheduler_success_count :: nat
  worker_success_count :: nat

definition quota_snapshot :: "'q deployment \<Rightarrow> 'q \<Rightarrow> string \<Rightarrow> source_quota_snapshot" where
  "quota_snapshot D q source =
     (case (case get_quota_port (adapters D) source of Inl e \<Rightarrow> Inl e | Inr port \<Rightarrow> quota_check port source q) of
        Inl e \<Rightarrow> \<lparr>sq_source = source, sq_remaining = None, sq_limit = None, sq_exhausted = False,
                   sq_error = Some (adapter_error_code e)\<rparr>
      | Inr st \<Rightarrow> \<lparr>sq_source = source, sq_remaining = Some (qs_remaining st), sq_limit = Some (qs_limit st),
                   sq_exhausted = exhausted st, sq_error = None\<rparr>)"

definition count_runs_with_status :: "(scheduler_run \<Rightarrow> SchedulerRunStatus option) \<Rightarrow> sess \<Rightarrow> nat" where
  "count_runs_with_status phase s = length (filter (\<lambda>r. phase r = Some SUCCESS) (runs (work s)))"

definition collect_scheduler_metrics :: "'q deployment \<Rightarrow> 'q \<Rightarrow> datetime \<Rightarrow> int \<Rightarrow> string list \<Rightarrow> sess
    \<Rightarrow> scheduler_metrics_snapshot" where
  "collect_scheduler_metrics D q now threshold sources s =
     (let pending = pending_by_source s; ages = oldest_pending_age_by_source s now
      in \<lparr>pending_jobs = sum_list (map snd pending), pending_jobs_by_source = pending,
          oldest_pending_seconds = max_opt (map snd ages), done_jobs = done_count s,
          failed_jobs_by_source = failed_by_source s, quota_by_source = map (quota_snapshot D q) sources,
          stalled_sources = sort (map fst (filter (\<lambda>(source, age). of_int threshold < age) ages)),
          scheduler_success_count = count_runs_with_status scheduler_status s,
          worker_success_count = count_runs_with_status worker_status s\<rparr>)"

section \<open>The snapshot agrees with the queue\<close>

lemma sum_by_key:
  assumes "finite A"
  shows "k ` set (filter p xs) \<subseteq> A \<Longrightarrow> length (filter p xs) = (\<Sum>x\<in>A. length (filter (\<lambda>j. p j \<and> k j = x) xs))"
proof (induction xs)
  case (Cons y xs)
  then have IH: "length (filter p xs) = (\<Sum>x\<in>A. length (filter (\<lambda>j. p j \<and> k j = x) xs))" by (auto split: if_splits)
  show ?case
  proof (cases "p y")
    case True
    with Cons.prems have "k y \<in> A" by simp
    have "(\<Sum>x\<in>A. length (filter (\<lambda>j. p j \<and> k j = x) (y # xs)))
        = (\<Sum>x\<in>A. (if x = k y then 1 else 0) + length (filter (\<lambda>j. p j \<and> k j = x) xs))"
      using True by (intro sum.cong) auto
    also have "\<dots> = 1 + length (filter p xs)" using \<open>k y \<in> A\<close> assms IH by (simp add: sum.distrib)
    finally show ?thesis using True by simp
  next
    case False
    with IH show ?thesis by simp
  qed
qed simp

lemma count_by_source_total: "sum_list (map snd (count_by_source p s)) = length (filter p (jobs (work s)))"
proof -
  let ?js = "jobs (work s)" and ?n = "\<lambda>x. length (filter (\<lambda>j. p j \<and> job_source j = x) (jobs (work s)))"
  have "sum_list (map snd (count_by_source p s)) = (\<Sum>x\<in>set (sources_of p s). ?n x)"
    by (simp add: count_by_source_def o_def sources_of_def sum_list_distinct_conv_sum_set)
  also have "\<dots> = length (filter p ?js)"
    by (subst sum_by_key [where k = job_source]) (auto simp: sources_of_def)
  finally show ?thesis .
qed

lemma total_seconds_mono [simp]: "total_seconds a \<le> total_seconds b \<longleftrightarrow> a \<le> b" "total_seconds a < total_seconds b \<longleftrightarrow> a < b"
  by (simp_all add: total_seconds_def)

text \<open>The age of a source's oldest pending job, over its pending jobs.\<close>

definition pending_ages :: "sess \<Rightarrow> datetime \<Rightarrow> (string \<times> rat) set" where
  "pending_ages s now = (\<lambda>j. (job_source j, total_seconds (now - job_created_at j)))
     ` set (filter (\<lambda>j. job_status j = PENDING) (jobs (work s)))"

lemma age_in:
  assumes "(source, age) \<in> set (oldest_pending_age_by_source s now)"
  shows "(source, age) \<in> pending_ages s now \<and> (\<forall>a. (source, a) \<in> pending_ages s now \<longrightarrow> a \<le> age)"
proof -
  let ?C = "set (map job_created_at (filter (\<lambda>j. job_status j = PENDING \<and> job_source j = source) (jobs (work s))))"
  from assms have "?C \<noteq> {}" and age: "age = total_seconds (now - Min ?C)"
    by (auto simp: oldest_pending_age_by_source_def sources_of_def)
  have "Min ?C \<in> ?C" using \<open>?C \<noteq> {}\<close> by (intro Min_in) simp
  then obtain j where "j \<in> set (jobs (work s))" "job_status j = PENDING" "job_source j = source" "job_created_at j = Min ?C"
    by auto
  then have "(source, age) \<in> pending_ages s now" using age by (auto simp: pending_ages_def image_iff intro!: bexI [of _ j])
  moreover have "a \<le> age" if "(source, a) \<in> pending_ages s now" for a
  proof -
    from that obtain r where "r \<in> set (jobs (work s))" "job_status r = PENDING" "job_source r = source"
      "a = total_seconds (now - job_created_at r)" by (auto simp: pending_ages_def)
    moreover from this have "Min ?C \<le> job_created_at r" by (intro Min_le) auto
    ultimately show ?thesis using age by simp
  qed
  ultimately show ?thesis by blast
qed

lemma source_has_age:
  assumes "(source, a) \<in> pending_ages s now"
  shows "\<exists>age. (source, age) \<in> set (oldest_pending_age_by_source s now)"
  using assms by (auto simp: pending_ages_def oldest_pending_age_by_source_def sources_of_def)

lemma snapshot_pending: "pending_jobs (collect_scheduler_metrics D q now threshold sources s) = depth s None"
  by (simp add: collect_scheduler_metrics_def Let_def pending_by_source_def count_by_source_total depth_def)

lemma snapshot_oldest:
  "oldest_pending_seconds (collect_scheduler_metrics D q now threshold sources s) = oldest_pending_age_seconds s now"
proof -
  let ?ages = "oldest_pending_age_by_source s now" and ?P = "filter (\<lambda>j. job_status j = PENDING) (jobs (work s))"
  show ?thesis
  proof (cases "sort_key job_created_at ?P")
    case Nil
    then have "?P = []" by (metis length_0_conv length_sort)
    then have "?ages = []" "oldest_pending_age_seconds s now = None"
      by (simp_all add: oldest_pending_age_by_source_def sources_of_def oldest_pending_age_seconds_def)
    then show ?thesis by (simp add: collect_scheduler_metrics_def Let_def)
  next
    case (Cons j js)
    have sorted: "sorted (map job_created_at (j # js))" unfolding Cons [symmetric] by (rule sorted_sort_key)
    have P: "set (j # js) = set ?P" unfolding Cons [symmetric] by (rule set_sort)
    have "job_created_at j \<le> job_created_at r" if "r \<in> set (j # js)" for r
      using that sorted by auto
    then have j: "j \<in> set ?P" "\<And>r. r \<in> set ?P \<Longrightarrow> job_created_at j \<le> job_created_at r"
      unfolding P [symmetric] by simp_all
    let ?a = "total_seconds (now - job_created_at j)"
    have here: "(job_source j, ?a) \<in> pending_ages s now" using j(1) by (auto simp: pending_ages_def)
    have top: "a \<le> ?a" if "(x, a) \<in> pending_ages s now" for x a
      using that j(2) by (auto simp: pending_ages_def)
    obtain b where b: "(job_source j, b) \<in> set ?ages" using source_has_age [OF here] by blast
    have "b \<le> ?a" using age_in [OF b] top by blast
    moreover have "?a \<le> b" using age_in [OF b] here by blast
    ultimately have "(job_source j, ?a) \<in> set ?ages" using b by simp
    then have "snd (job_source j, ?a) \<in> set (map snd ?ages)" unfolding list.set_map by (rule imageI)
    then have "?a \<in> set (map snd ?ages)" by (simp only: snd_conv)
    moreover have "b' \<le> ?a" if "b' \<in> set (map snd ?ages)" for b'
    proof -
      from that obtain x where "(x, b') \<in> set ?ages" by auto
      then show ?thesis using age_in top by blast
    qed
    ultimately have "max_opt (map snd ?ages) = Some ?a" by (simp only: max_opt_Some_iff) blast
    with Cons show ?thesis by (simp add: collect_scheduler_metrics_def Let_def oldest_pending_age_seconds_def)
  qed
qed

lemma snapshot_stalled:
  "set (stalled_sources (collect_scheduler_metrics D q now threshold sources s))
     = {job_source j |j. j \<in> set (jobs (work s)) \<and> job_status j = PENDING
          \<and> of_int threshold < total_seconds (now - job_created_at j)}"
proof -
  let ?ages = "oldest_pending_age_by_source s now"
  have stalled: "(\<exists>age. (x, age) \<in> set ?ages \<and> of_int threshold < age)
      \<longleftrightarrow> (\<exists>a. (x, a) \<in> pending_ages s now \<and> of_int threshold < a)" for x
  proof
    assume "\<exists>age. (x, age) \<in> set ?ages \<and> of_int threshold < age"
    then show "\<exists>a. (x, a) \<in> pending_ages s now \<and> of_int threshold < a" using age_in by blast
  next
    assume "\<exists>a. (x, a) \<in> pending_ages s now \<and> of_int threshold < a"
    then obtain a where a: "(x, a) \<in> pending_ages s now" "of_int threshold < a" by blast
    then obtain age where age: "(x, age) \<in> set ?ages" using source_has_age by blast
    moreover have "a \<le> age" using age_in [OF age] a(1) by blast
    ultimately show "\<exists>age. (x, age) \<in> set ?ages \<and> of_int threshold < age" using a(2) by force
  qed
  have "set (stalled_sources (collect_scheduler_metrics D q now threshold sources s))
      = {x. \<exists>age. (x, age) \<in> set ?ages \<and> of_int threshold < age}"
    by (force simp: collect_scheduler_metrics_def Let_def)
  also have "\<dots> = {job_source j |j. j \<in> set (jobs (work s)) \<and> job_status j = PENDING
          \<and> of_int threshold < total_seconds (now - job_created_at j)}"
    unfolding stalled by (auto simp: pending_ages_def)
  finally show ?thesis .
qed

text \<open>How many rows of a table satisfy a condition, none of them counted when no row does.\<close>

definition how_many :: "('a \<Rightarrow> bool) \<Rightarrow> 'a list \<Rightarrow> nat" where
  "how_many p rows = card {i. i < length rows \<and> p (rows ! i)}"

definition if_any :: "nat \<Rightarrow> nat option" where
  "if_any n = (if n = 0 then None else Some n)"

lemma how_many_filter: "how_many p rows = length (filter p rows)"
  by (simp add: how_many_def length_filter_conv_card)

lemma count_by_source_lookup:
  "map_of (count_by_source p s) source = if_any (how_many (\<lambda>j. p j \<and> job_source j = source) (jobs (work s)))"
proof -
  have "source \<in> set (sources_of p s) \<longleftrightarrow> filter (\<lambda>j. p j \<and> job_source j = source) (jobs (work s)) \<noteq> []"
    by (auto simp: sources_of_def filter_empty_conv)
  then show ?thesis
    by (simp add: count_by_source_def map_of_map_restrict [unfolded o_def] restrict_map_def how_many_filter if_any_def)
qed

text \<open>
  C37. The snapshot agrees with the queue and with the record of the runs. The pending jobs are the queue's
  depth and the oldest age is the queue's own, though both are computed source by source; a source is
  reported as stalled exactly when a pending job of it is older than the threshold; the jobs done, the
  outstanding jobs, pending or claimed, and the jobs failed of each source are counted exactly; the executions counted as
  successes are the runs whose phase of the refresh, or of the processing, is recorded as \<open>SUCCESS\<close>; and
  there is one entry on the quota of each source asked for.
\<close>

theorem metrics_agree_with_queue:
  "pending_jobs (collect_scheduler_metrics D q now threshold sources s) = depth s None
   \<and> oldest_pending_seconds (collect_scheduler_metrics D q now threshold sources s) = oldest_pending_age_seconds s now
   \<and> set (stalled_sources (collect_scheduler_metrics D q now threshold sources s))
     = {job_source j |j. j \<in> set (jobs (work s)) \<and> job_status j = PENDING
          \<and> of_int threshold < total_seconds (now - job_created_at j)}
   \<and> done_jobs (collect_scheduler_metrics D q now threshold sources s)
     = how_many (\<lambda>j. job_status j = DONE) (jobs (work s))
   \<and> map_of (pending_jobs_by_source (collect_scheduler_metrics D q now threshold sources s)) source
     = if_any (how_many (\<lambda>j. job_status j \<in> {PENDING, CLAIMED} \<and> job_source j = source) (jobs (work s)))
   \<and> map_of (failed_jobs_by_source (collect_scheduler_metrics D q now threshold sources s)) source
     = if_any (how_many (\<lambda>j. job_status j = FAILED \<and> job_source j = source) (jobs (work s)))
   \<and> scheduler_success_count (collect_scheduler_metrics D q now threshold sources s)
     = how_many (\<lambda>r. scheduler_status r = Some SUCCESS) (runs (work s))
   \<and> worker_success_count (collect_scheduler_metrics D q now threshold sources s)
     = how_many (\<lambda>r. worker_status r = Some SUCCESS) (runs (work s))
   \<and> map sq_source (quota_by_source (collect_scheduler_metrics D q now threshold sources s)) = sources"
proof (intro conjI snapshot_pending snapshot_oldest snapshot_stalled)
  have "sq_source (quota_snapshot D q x) = x" for x by (simp add: quota_snapshot_def split: sum.split)
  then show "map sq_source (quota_by_source (collect_scheduler_metrics D q now threshold sources s)) = sources"
    by (simp add: collect_scheduler_metrics_def Let_def o_def)
qed (simp_all add: collect_scheduler_metrics_def Let_def done_count_def failed_by_source_def pending_by_source_def
    count_by_source_lookup count_runs_with_status_def how_many_filter outstanding_def)

end
