(* ===== verification/Api.thy ===== *)
theory Api
  imports Views Metrics
begin

text \<open>
  \<open>api/routers\<close> and \<open>api/app.py\<close>: the handlers of the API over the catalog, the views, the queue and the
  metrics, and \<open>serve\<close>, what the application answers to a request. A request has passed FastAPI's
  conversion of its parameters. The instant \<open>now\<close> is the one that \<open>utcnow\<close> reads and \<open>today\<close> the one
  that \<open>date.today\<close> reads, in the local time zone of the process.
\<close>

record 'q api =
  api_deployment :: "'q deployment"
  api_environ :: "string \<rightharpoonup> string"
  api_settings :: settings
  api_arrange :: "observation list \<Rightarrow> observation list"
  api_quota :: 'q

definition if_ok :: "exn + 'a \<Rightarrow> ('a \<Rightarrow> exn + 'b) \<Rightarrow> exn + 'b" where
  "if_ok r f = (case r of Inl e \<Rightarrow> Inl e | Inr x \<Rightarrow> f x)"

lemma if_ok_simps [simp]: "if_ok (Inl e) f = Inl e" "if_ok (Inr x) f = f x"
  by (simp_all add: if_ok_def)

lemma if_ok_Inr_iff: "if_ok r f = Inr y \<longleftrightarrow> (\<exists>x. r = Inr x \<and> f x = Inr y)"
  by (cases r) auto

definition api_view :: "'q api \<Rightarrow> calendar \<Rightarrow> sess \<Rightarrow> view" where
  "api_view A cal s = \<lparr>v_sess = s, v_settings = api_settings A, v_calendar = cal, v_arrange = api_arrange A\<rparr>"

definition calendar_of :: "'q api \<Rightarrow> listing \<Rightarrow> exn + calendar" where
  "calendar_of A l =
     get_calendar_for_listing (routes (api_deployment A)) (adapters (api_deployment A)) (lst_mic l) (lst_venue l)"

section \<open>The catalog\<close>

record instrument_out =
  io_instrument_id :: uuid
  io_asset_class :: AssetClass
  io_name :: string
  io_isin :: "string option"
  io_figi :: "string option"

record listing_out =
  lo_listing_id :: uuid
  lo_instrument :: instrument_out
  lo_venue :: string
  lo_mic :: "string option"
  lo_ticker :: string
  lo_currency :: string

definition instrument_out_of :: "instrument \<Rightarrow> instrument_out" where
  "instrument_out_of i = \<lparr>io_instrument_id = ins_id i, io_asset_class = asset_class i, io_name = ins_name i,
     io_isin = ins_isin i, io_figi = ins_figi i\<rparr>"

text \<open>\<open>listing.instrument\<close> is \<open>None\<close> when its row is missing, and then has no attribute.\<close>

definition listing_out_of :: "sess \<Rightarrow> listing \<Rightarrow> exn + listing_out" where
  "listing_out_of s l =
     (case instrument_of s l of
        None \<Rightarrow> Inl (ForeignError ''AttributeError'')
      | Some i \<Rightarrow> Inr \<lparr>lo_listing_id = lst_id l, lo_instrument = instrument_out_of i, lo_venue = lst_venue l,
          lo_mic = lst_mic l, lo_ticker = lst_ticker l, lo_currency = lst_currency l\<rparr>)"

fun listing_outs :: "sess \<Rightarrow> listing list \<Rightarrow> exn + listing_out list" where
  "listing_outs s [] = Inr []"
| "listing_outs s (l # ls) = if_ok (listing_out_of s l) (\<lambda>out. map_sum id ((#) out) (listing_outs s ls))"

definition search_instruments :: "listing_search_criteria \<Rightarrow> sess \<Rightarrow> exn + listing_out list" where
  "search_instruments criteria s = listing_outs s (find_listings s criteria)"

definition resolve_listing :: "uuid \<Rightarrow> sess \<Rightarrow> exn + listing" where
  "resolve_listing i s =
     (case get_listing i s of None \<Rightarrow> Inl (HTTPException 404 ''Listing not found.'') | Some l \<Rightarrow> Inr l)"

definition listing_detail :: "uuid \<Rightarrow> sess \<Rightarrow> exn + listing_out" where
  "listing_detail i s = if_ok (resolve_listing i s) (listing_out_of s)"

section \<open>Observations\<close>

definition max_range_days :: int where
  "max_range_days = 366"

record observation_range_response =
  or_listing_id :: uuid
  or_observation_type :: ObservationType
  or_start :: date
  or_end :: date
  or_observations :: "observation_out list"

definition latest_observation :: "'q api \<Rightarrow> uuid \<Rightarrow> ObservationType \<Rightarrow> date \<Rightarrow> sess \<Rightarrow> exn + observation_out" where
  "latest_observation A i otype today s =
     if_ok (resolve_listing i s) (\<lambda>l.
     if_ok (calendar_of A l) (\<lambda>cal. find_latest_observation (api_view A cal s) l otype today))"

definition observation_range :: "'q api \<Rightarrow> uuid \<Rightarrow> date \<Rightarrow> date \<Rightarrow> ObservationType \<Rightarrow> sess
    \<Rightarrow> exn + observation_range_response" where
  "observation_range A i start end_date otype s =
     (if end_date < start then Inl (HTTPException 422 ''`end` cannot be earlier than `start`.'')
      else if max_range_days < end_date - start
      then Inl (HTTPException 422 (''The maximum range per request is '' @ str_nat (nat max_range_days) @ '' days.''))
      else
        if_ok (resolve_listing i s) (\<lambda>l.
        if_ok (calendar_of A l) (\<lambda>cal.
        if_ok (build_observation_range (api_view A cal s) l otype start end_date) (\<lambda>outs.
          Inr \<lparr>or_listing_id = i, or_observation_type = otype, or_start = start, or_end = end_date,
            or_observations = outs\<rparr>))))"

section \<open>Status\<close>

fun environment_value :: "Environment \<Rightarrow> string" where
  "environment_value LOCAL = ''local''"
| "environment_value TEST = ''test''"
| "environment_value PRODUCTION = ''production''"

record operational_status_out =
  os_environment :: string
  os_pending_jobs :: nat
  os_oldest_pending_seconds :: "int option"
  os_stalled :: bool

text \<open>\<open>int(x)\<close> truncates towards zero.\<close>

definition truncated :: "rat \<Rightarrow> int" where
  "truncated x = (if x < 0 then - \<lfloor>- x\<rfloor> else \<lfloor>x\<rfloor>)"

definition operational_status :: "settings \<Rightarrow> datetime \<Rightarrow> sess \<Rightarrow> operational_status_out" where
  "operational_status st now s =
     (let oldest = map_option (\<lambda>age. max (truncated age) 0) (oldest_pending_age_seconds s now)
      in \<lparr>os_environment = environment_value (environment st), os_pending_jobs = depth s None,
          os_oldest_pending_seconds = oldest,
          os_stalled = (case oldest of None \<Rightarrow> False | Some n \<Rightarrow> stalled_job_threshold_seconds st < n)\<rparr>)"

record source_quota_out =
  qo_source :: string
  qo_remaining :: "int option"
  qo_limit :: "int option"
  qo_exhausted :: bool
  qo_error :: "string option"

record scheduler_metrics_out =
  sm_pending_jobs :: nat
  sm_pending_jobs_by_source :: "(string \<times> nat) list"
  sm_oldest_pending_seconds :: "rat option"
  sm_done_jobs :: nat
  sm_failed_jobs_by_source :: "(string \<times> nat) list"
  sm_quota_by_source :: "source_quota_out list"
  sm_stalled_sources :: "string list"
  sm_scheduler_success_count :: nat
  sm_worker_success_count :: nat

definition source_quota_out_of :: "source_quota_snapshot \<Rightarrow> source_quota_out" where
  "source_quota_out_of q =
     \<lparr>qo_source = sq_source q, qo_remaining = sq_remaining q, qo_limit = sq_limit q,
      qo_exhausted = sq_exhausted q, qo_error = sq_error q\<rparr>"

definition scheduler_metrics :: "'q api \<Rightarrow> datetime \<Rightarrow> sess \<Rightarrow> scheduler_metrics_out" where
  "scheduler_metrics A now s =
     (let snapshot = collect_scheduler_metrics (api_deployment A) (api_quota A) now
            (stalled_job_threshold_seconds (api_settings A)) (enabled_sources (api_settings A)) s
      in \<lparr>sm_pending_jobs = pending_jobs snapshot,
          sm_pending_jobs_by_source = pending_jobs_by_source snapshot,
          sm_oldest_pending_seconds = oldest_pending_seconds snapshot,
          sm_done_jobs = done_jobs snapshot,
          sm_failed_jobs_by_source = failed_jobs_by_source snapshot,
          sm_quota_by_source = map source_quota_out_of (quota_by_source snapshot),
          sm_stalled_sources = stalled_sources snapshot,
          sm_scheduler_success_count = scheduler_success_count snapshot,
          sm_worker_success_count = worker_success_count snapshot\<rparr>)"

record data_status_out =
  ds_listing_id :: uuid
  ds_observation_type :: ObservationType
  ds_last_effective_date :: "date option"
  ds_has_publishable_data :: bool

definition data_status :: "'q api \<Rightarrow> uuid \<Rightarrow> ObservationType \<Rightarrow> date \<Rightarrow> sess \<Rightarrow> exn + data_status_out" where
  "data_status A i otype today s =
     if_ok (resolve_listing i s) (\<lambda>l.
     if_ok (calendar_of A l) (\<lambda>cal.
     if_ok (find_latest_observation (api_view A cal s) l otype today) (\<lambda>latest.
       Inr \<lparr>ds_listing_id = i, ds_observation_type = otype,
         ds_last_effective_date = latest_publishable_session_date (api_view A cal s) l otype,
         ds_has_publishable_data = (oo_availability latest = AV_OK)\<rparr>)))"

section \<open>The application\<close>

datatype request =
    Health
  | SearchInstruments listing_search_criteria
  | ListingDetail uuid
  | LatestObservation uuid ObservationType
  | ObservationRange uuid date date ObservationType
  | OperationalStatus
  | SchedulerMetrics
  | DataStatus uuid ObservationType

datatype response =
    HealthOut string string
  | SearchOut "listing_out list"
  | ListingOut listing_out
  | ObservationOut observation_out
  | RangeOut observation_range_response
  | OperationalStatusOut operational_status_out
  | SchedulerMetricsOut scheduler_metrics_out
  | DataStatusOut data_status_out

definition catalog_read_scope :: string where
  "catalog_read_scope = ''catalog:read''"

definition observations_read_scope :: string where
  "observations_read_scope = ''observations:read''"

definition operations_read_scope :: string where
  "operations_read_scope = ''operations:read''"

definition operations_metrics_scope :: string where
  "operations_metrics_scope = ''operations:metrics''"

fun required_scope :: "request \<Rightarrow> string option" where
  "required_scope Health = None"
| "required_scope (SearchInstruments c) = Some catalog_read_scope"
| "required_scope (ListingDetail i) = Some catalog_read_scope"
| "required_scope (LatestObservation i otype) = Some observations_read_scope"
| "required_scope (ObservationRange i a b otype) = Some observations_read_scope"
| "required_scope OperationalStatus = Some operations_read_scope"
| "required_scope SchedulerMetrics = Some operations_metrics_scope"
| "required_scope (DataStatus i otype) = Some catalog_read_scope"

fun handle :: "'q api \<Rightarrow> date \<Rightarrow> datetime \<Rightarrow> sess \<Rightarrow> request \<Rightarrow> exn + response" where
  "handle A today now s Health =
     Inr (HealthOut (service_name (api_settings A)) (environment_value (environment (api_settings A))))"
| "handle A today now s (SearchInstruments c) = map_sum id SearchOut (search_instruments c s)"
| "handle A today now s (ListingDetail i) = map_sum id ListingOut (listing_detail i s)"
| "handle A today now s (LatestObservation i otype) = map_sum id ObservationOut (latest_observation A i otype today s)"
| "handle A today now s (ObservationRange i a b otype) = map_sum id RangeOut (observation_range A i a b otype s)"
| "handle A today now s OperationalStatus = Inr (OperationalStatusOut (operational_status (api_settings A) now s))"
| "handle A today now s SchedulerMetrics = Inr (SchedulerMetricsOut (scheduler_metrics A now s))"
| "handle A today now s (DataStatus i otype) = map_sum id DataStatusOut (data_status A i otype today s)"

definition serve :: "'q api \<Rightarrow> date \<Rightarrow> datetime \<Rightarrow> sess \<Rightarrow> string option \<Rightarrow> request \<Rightarrow> response reply" where
  "serve A today now s header req =
     (case required_scope req of
        None \<Rightarrow> respond (handle A today now s req)
      | Some scope \<Rightarrow> guarded (api_environ A) (api_settings A) scope header (\<lambda>_. handle A today now s req))"

section \<open>A sample application\<close>

definition sample_api :: "unit api" where
  "sample_api = \<lparr>api_deployment = \<lparr>adapters = fake_registries () (\<lambda>n ext a b. undefined) fake_sessions_in_range undefined,
     routes = calendar_routes, pipe_size = 0, concurrently = (\<lambda>n s. s), numeric_column = id, rival_rows = (\<lambda>n os. os),
     lock_failures = (\<lambda>i n. False), query_fails = (\<lambda>x s. None)\<rparr>,
     api_environ = sample_environ, api_settings = default_settings, api_arrange = (\<lambda>rows. rows), api_quota = ()\<rparr>"

section \<open>Who is answered\<close>

lemma respond_Success_iff: "respond r = Success x \<longleftrightarrow> r = Inr x"
  by (auto simp: respond_def split: sum.splits exn.splits)

lemma guarded_Success:
  assumes "guarded environ st scope header handler = Success out"
  shows "\<exists>identity. require_scope environ (build_consumer_credentials st) scope header = Inr identity \<and> handler identity = Inr out"
  using assms by (auto simp: guarded_def respond_Success_iff split: sum.splits)

lemma require_scope_InrD:
  assumes "require_scope environ cs scope header = Inr identity"
  shows "\<exists>key c. c \<in> set cs \<and> key \<noteq> [] \<and> header = Some (bearer_prefix @ key) \<and> environ (cred_env_var c) = Some key
    \<and> scope \<in> set (cred_scopes c)"
proof -
  from assms obtain key c where "extract_bearer_token header = Some key" "key \<noteq> []"
    "last_holder environ key cs = Some c" "scope \<in> set (cred_scopes c)"
    by (auto simp: require_scope_eq split: option.splits if_splits)
  then show ?thesis
    by (auto simp: extract_Some_iff last_holder_Some_iff holds_key_def)
qed

text \<open>
  C17. Every request but \<open>/health\<close> is guarded. A request is answered with data only when its header carries
  the non-empty value of a configured credential whose scopes contain that of the endpoint; what it is
  answered then is what the handler returns, whichever credential it was.
\<close>

theorem answers_need_scope:
  assumes "serve A today now s header req = Success out" and "req \<noteq> Health"
  shows "(\<exists>key c. c \<in> set (consumer_credentials (api_settings A)) \<and> key \<noteq> [] \<and> header = Some (bearer_prefix @ key)
      \<and> api_environ A (cc_env_var c) = Some key \<and> the (required_scope req) \<in> set (cc_scopes c))
    \<and> handle A today now s req = Inr out"
proof -
  obtain scope where scope: "required_scope req = Some scope" using assms(2) by (cases req) auto
  with assms(1) have "guarded (api_environ A) (api_settings A) scope header (\<lambda>_. handle A today now s req) = Success out"
    by (simp add: serve_def)
  from guarded_Success [OF this] obtain identity where
    id: "require_scope (api_environ A) (build_consumer_credentials (api_settings A)) scope header = Inr identity"
    and out: "handle A today now s req = Inr out" by auto
  from require_scope_InrD [OF id] obtain key c where
    "c \<in> set (consumer_credentials (api_settings A))" "key \<noteq> []" "header = Some (bearer_prefix @ key)"
    "api_environ A (cc_env_var c) = Some key" "scope \<in> set (cc_scopes c)"
    by (auto simp: build_consumer_credentials_def)
  with out scope show ?thesis by auto
qed

lemma sample_key: "require_scope sample_environ default_credentials ''operations:read'' (Some ''Bearer k1'')
    = Inr \<lparr>consumer_id = ''holdria'', scopes = cc_scopes holdria_config\<rparr>"
proof -
  have "extract_bearer_token (Some ''Bearer k1'') = Some ''k1''" by (simp add: extract_Some_iff bearer_prefix_def)
  then show ?thesis
    by (simp add: require_scope_eq default_credentials_def build_consumer_credentials_def default_settings_def
        sample_environ_def holdria_config_def ops_config_def identity_of_def comparable_def configured_def ascii_def
        last_holder_def holds_key_def)
qed

theorem answers_need_scope_witness:
  "handle sample_api 0 0 (published_session []) OperationalStatus
     = Inr (OperationalStatusOut (operational_status default_settings 0 (published_session [])))"
proof -
  have "serve sample_api 0 0 (published_session []) (Some ''Bearer k1'') OperationalStatus
      = Success (OperationalStatusOut (operational_status default_settings 0 (published_session [])))"
    using sample_key
    by (simp add: serve_def guarded_def sample_api_def operations_read_scope_def respond_def default_credentials_def)
  from answers_need_scope [OF this] show ?thesis by simp
qed

section \<open>What may not be published leaves no trace\<close>

lemma without_refused_tables:
  "instruments (work (without_refused ok s)) = instruments (work s)" "listings (work (without_refused ok s)) = listings (work s)"
  "jobs (work (without_refused ok s)) = jobs (work s)" "runs (work (without_refused ok s)) = runs (work s)"
  "decisions (work (without_refused ok s)) = decisions (work s)"
  by (simp_all add: without_refused_def on_observations_def)

definition visible :: "sess \<Rightarrow> sess" where
  "visible s = without_refused (is_publication_authorized s) s"

lemma visible_authorized: "is_publication_authorized (visible s) = is_publication_authorized s"
  by (rule ext) (simp add: visible_def without_refused_def publication_gate.unaffected_by_observations)

lemma visible_attribution: "requires_attribution (visible s) = requires_attribution s"
proof -
  have "effective_status (visible s) = effective_status s"
    by (rule effective_status_cong) (simp add: visible_def without_refused_tables)
  then show ?thesis by (intro ext) (simp add: requires_attribution_def)
qed

lemma visible_tables [simp]:
  "instruments (work (visible s)) = instruments (work s)" "listings (work (visible s)) = listings (work s)"
  "jobs (work (visible s)) = jobs (work s)" "runs (work (visible s)) = runs (work s)"
  by (simp_all add: visible_def without_refused_tables)

lemma select_visible:
  "reads_alike (is_publication_authorized s) s without arrange
     \<Longrightarrow> select_observation is_publication_authorized without (visible s)
       = select_observation is_publication_authorized arrange s"
  unfolding visible_def by (rule select_without_refused) (simp_all add: visible_authorized [unfolded visible_def])

lemma api_view_simps [simp]:
  "v_sess (api_view A cal s) = s" "v_settings (api_view A cal s) = api_settings A"
  "v_calendar (api_view A cal s) = cal" "v_arrange (api_view A cal s) = api_arrange A"
  by (simp_all add: api_view_def)

text \<open>The application on an engine that returns rows in the order \<open>order\<close>.\<close>

definition with_order :: "'q api \<Rightarrow> (observation list \<Rightarrow> observation list) \<Rightarrow> 'q api" where
  "with_order A order = A\<lparr>api_arrange := order\<rparr>"

lemma with_order_simps [simp]:
  "api_settings (with_order A order) = api_settings A" "api_arrange (with_order A order) = order"
  "api_environ (with_order A order) = api_environ A" "api_deployment (with_order A order) = api_deployment A"
  "api_quota (with_order A order) = api_quota A" "calendar_of (with_order A order) = calendar_of A"
  by (simp_all add: with_order_def calendar_of_def fun_eq_iff)

lemma build_visible:
  assumes "reads_alike (is_publication_authorized s) s without order"
  shows "build_observation_out (api_view (with_order A without) cal (visible s))
    = build_observation_out (api_view (with_order A order) cal s)"
proof -
  have "select_for (api_view (with_order A without) cal (visible s)) = select_for (api_view (with_order A order) cal s)"
    by (intro ext) (simp add: select_for_def select_visible [OF assms])
  moreover have "asset_class_of l (visible s) = asset_class_of l s" for l
    by (simp add: asset_class_of_def)
  then have "session_expectation (api_view (with_order A without) cal (visible s))
      = session_expectation (api_view (with_order A order) cal s)"
    unfolding session_expectation_def api_view_simps by presburger
  moreover have "value_out (visible s) = value_out s"
    by (intro ext) (simp add: value_out_def attribution_for_def visible_attribution)
  ultimately show ?thesis unfolding build_observation_out_def api_view_simps with_order_simps by presburger
qed

lemma latest_visible:
  "reads_alike (is_publication_authorized s) s without order \<Longrightarrow>
    find_latest_observation (api_view (with_order A without) cal (visible s))
      = find_latest_observation (api_view (with_order A order) cal s)"
  by (intro ext) (simp only: find_latest_observation_def build_visible)

lemma status_visible:
  "latest_publishable_session_date (api_view (with_order A without) cal (visible s)) l otype
     = latest_publishable_session_date (api_view (with_order A order) cal s) l otype"
proof -
  have "authorized_sources (api_view (with_order A without) cal (visible s)) = authorized_sources (api_view A cal s)"
    "authorized_sources (api_view (with_order A order) cal s) = authorized_sources (api_view A cal s)"
    by (simp_all add: authorized_sources_def visible_authorized)
  moreover have "filter (\<lambda>q. obs_listing_id q = lst_id l \<and> observation_type q = otype
         \<and> obs_source q \<in> set (authorized_sources (api_view A cal s))) (observations (work (visible s)))
      = filter (\<lambda>q. obs_listing_id q = lst_id l \<and> observation_type q = otype
         \<and> obs_source q \<in> set (authorized_sources (api_view A cal s))) (observations (work s))"
    by (auto simp: visible_def without_refused_def authorized_sources_def intro!: filter_cong)
  ultimately show ?thesis by (simp add: latest_publishable_session_date_def select_max_def)
qed

lemma catalog_visible:
  "find_listings (visible s) = find_listings s" "listing_outs (visible s) = listing_outs s"
  "listing_out_of (visible s) = listing_out_of s" "resolve_listing i (visible s) = resolve_listing i s"
proof -
  have i: "instrument_of (visible s) = instrument_of s" by (intro ext) (simp add: instrument_of_def)
  then have "matches_criteria (visible s) = matches_criteria s" by (intro ext) (simp add: matches_criteria_def)
  then show "find_listings (visible s) = find_listings s" by (intro ext) (simp add: find_listings_def)
  show out: "listing_out_of (visible s) = listing_out_of s" using i by (intro ext) (simp add: listing_out_of_def)
  show "listing_outs (visible s) = listing_outs s"
  proof
    fix ls
    show "listing_outs (visible s) ls = listing_outs s ls" by (induction ls) (simp_all add: out)
  qed
  show "resolve_listing i (visible s) = resolve_listing i s" by (simp add: resolve_listing_def get_listing_def)
qed

lemma queue_visible:
  "operational_status st now (visible s) = operational_status st now s"
  "scheduler_metrics (with_order A order) now s = scheduler_metrics A now s"
  "scheduler_metrics A now (visible s) = scheduler_metrics A now s"
  by (simp_all add: operational_status_def oldest_pending_age_seconds_def depth_def scheduler_metrics_def Let_def
      collect_scheduler_metrics_def pending_by_source_def count_by_source_def sources_of_def failed_by_source_def
      done_count_def oldest_pending_age_by_source_def count_runs_with_status_def)

lemma handle_visible:
  assumes "reads_alike (is_publication_authorized s) s without order"
  shows "handle (with_order A without) today now (visible s) req = handle (with_order A order) today now s req"
  by (cases req)
    (simp_all only: handle.simps search_instruments_def listing_detail_def latest_observation_def observation_range_def
      data_status_def catalog_visible queue_visible build_observation_range_def build_visible [OF assms]
      latest_visible [OF assms] status_visible [where order = order] with_order_simps)

lemma serve_visible:
  assumes "reads_alike (is_publication_authorized s) s without order"
  shows "serve (with_order A without) today now (visible s) header req = serve (with_order A order) today now s header req"
  by (simp only: serve_def handle_visible [OF assms] with_order_simps)

text \<open>
  What the application can answer: the replies of all engines, whatever order each returns the rows of a
  query in.
\<close>

definition replies :: "'q api \<Rightarrow> date \<Rightarrow> datetime \<Rightarrow> sess \<Rightarrow> string option \<Rightarrow> request \<Rightarrow> response reply set" where
  "replies A today now s header req =
     {serve (with_order A order) today now s header req | order. permutes_rows order}"

text \<open>
  C1. What may not be published leaves no trace. A request can be answered in exactly the same ways on the
  database as it is and on one in which the observations of all sources without a current authorization
  to publish were never stored: no answer, date, count, discrepancy or error tells one from the other.
  The queries have no \<open>ORDER BY\<close>, so that one of several answers may come; the answers are those of all
  engines, each returning rows in an order of its own.
\<close>

theorem withheld_rows_leave_no_trace:
  "replies A today now (without_refused (is_publication_authorized s) s) header req = replies A today now s header req"
proof (intro equalityI subsetI)
  fix r
  assume "r \<in> replies A today now (without_refused (is_publication_authorized s) s) header req"
  then obtain order where p: "permutes_rows order" and r: "r = serve (with_order A order) today now (visible s) header req"
    by (auto simp: replies_def visible_def)
  have "r = serve (with_order A (putting_back (is_publication_authorized s) order)) today now s header req"
    using serve_visible [OF putting_back_reads_alike [OF p]] r by simp
  with putting_back_permutes [OF p] show "r \<in> replies A today now s header req" by (auto simp: replies_def)
next
  fix r
  assume "r \<in> replies A today now s header req"
  then obtain order where p: "permutes_rows order" and r: "r = serve (with_order A order) today now s header req"
    by (auto simp: replies_def)
  have "r = serve (with_order A (leaving_out (is_publication_authorized s) s order)) today now (visible s) header req"
    unfolding r by (rule serve_visible [OF leaving_out_reads_alike [OF p], symmetric])
  with leaving_out_permutes [OF p] show "r \<in> replies A today now (without_refused (is_publication_authorized s) s) header req"
    by (auto simp: replies_def visible_def)
qed

definition withheld_row :: observation where
  "withheld_row = sample_row 3 ''other'' ''default'' ''Y'' 1 9"

section \<open>Ranges\<close>

lemma crypto_calendar:
  "lst_venue l = ''KRAKEN'' \<Longrightarrow> lst_mic l = None \<Longrightarrow> calendar_of sample_api l = Inr fake_sessions_in_range"
  by (simp add: calendar_of_def sample_api_def get_calendar_for_listing_def route_keys_def calendar_routes_def
      get_calendar_port_def get_port_def fake_registries_def fake_source_def upper_def)

definition listed_session :: "observation list \<Rightarrow> sess" where
  "listed_session os = (published_session os)\<lparr>work := (work (published_session os))\<lparr>listings := [sample_listing],
     instruments := [\<lparr>ins_id = 1, asset_class = CRYPTO, ins_name = ''Bitcoin'', ins_isin = None, ins_figi = None,
       ins_created_at = 0, ins_updated_at = 0\<rparr>]\<rparr>\<rparr>"

lemma listed: "resolve_listing 1 (listed_session os) = Inr sample_listing"
  by (simp add: resolve_listing_def get_listing_def listed_session_def select_first_def sample_listing_def)

text \<open>Where the calendar answers, so does the view of every date.\<close>

lemma build_answers:
  assumes "calendar_port cal classify" and "\<And>ac venue mic d. \<exists>cs. cal ac venue mic d d = Inr cs"
    and "instrument_of s l = Some i" and "permutes_rows (api_arrange A)"
  shows "\<exists>out. build_observation_out (api_view A cal s) l otype day = Inr out"
proof (cases "select_for (api_view A cal s) (lst_id l) otype day")
  case (Inr r)
  then show ?thesis by (simp add: build_observation_out_def)
next
  case (Inl e)
  then have e: "e = NoEligibleObservationError"
    using none_selected_iff [of "api_arrange A"] assms(4) by (simp add: select_for_def)
  from assms(2) obtain cs where cs: "cal (asset_class i) (lst_venue l) (lst_mic l) day day = Inr cs" by blast
  moreover have "cs = [\<lparr>check_date = day, expectation = classify (asset_class i) (lst_venue l) (lst_mic l) day\<rparr>]"
    by (rule calendar_port.one_check [OF assms(1) cs])
  moreover have "asset_class_of l s = Inr (asset_class i)" using assms(3) by (simp add: asset_class_of_def instrument_of_def)
  ultimately show ?thesis using Inl e by (simp add: build_observation_out_def session_expectation_def)
qed

lemma range_answered:
  assumes "resolve_listing i s = Inr l" and "instrument_of s l = Some ins" and "calendar_of A l = Inr cal"
    and "calendar_port cal classify" and "\<And>ac venue mic d. \<exists>cs. cal ac venue mic d d = Inr cs"
    and "permutes_rows (api_arrange A)" and "end_date \<le> max_date"
  shows "(\<exists>r. observation_range A i start end_date otype s = Inr r)
    = (start \<le> end_date \<and> end_date - start \<le> 366 \<and> end_date < max_date)"
proof -
  let ?build = "build_observation_out (api_view A cal s) l otype"
  have "\<exists>out. ?build d = Inr out" for d using build_answers [OF assms(4,5,2,6)] .
  then have "?build d = Inr (projr (?build d))" for d by (metis sum.sel(2))
  then have all: "map ?build [start..end_date] = map Inr (map (projr \<circ> ?build) [start..end_date])" by simp
  have "(\<exists>outs. build_observation_range (api_view A cal s) l otype start end_date = Inr outs)
      \<longleftrightarrow> \<not> (start \<le> max_date \<and> max_date \<le> end_date)"
    unfolding build_observation_range_def range_from_Inr_iff using all by blast
  then show ?thesis
    using assms(7) by (auto simp: observation_range_def max_range_days_def assms(1,3) if_ok_Inr_iff)
qed

lemma sample_catalog:
  "instrument_of (listed_session os) sample_listing = Some (hd (instruments (work (listed_session os))))"
  "calendar_of sample_api sample_listing = Inr fake_sessions_in_range" "permutes_rows (api_arrange sample_api)"
  "\<exists>cs. fake_sessions_in_range ac venue mic d d = Inr cs"
  by (simp_all add: instrument_of_def listed_session_def select_first_def sample_listing_def crypto_calendar
      fake_sessions_in_range_def) (simp add: sample_api_def permutes_id)

text \<open>
  C27. A range request is answered. For a listing with its instrument and a calendar that answers, the loop
  over the dates ends with a response exactly when the limits are in order, at most 366 days apart and
  below the last date of the type, which the loop cannot step over.
\<close>

theorem range_request_answered:
  assumes "resolve_listing i s = Inr l" and "instrument_of s l = Some ins" and "calendar_of A l = Inr cal"
    and "calendar_port cal classify" and "\<And>ac venue mic d. \<exists>cs. cal ac venue mic d d = Inr cs"
    and "permutes_rows (api_arrange A)" and "end_date \<le> max_date"
  shows "(\<exists>r. observation_range A i start end_date otype s = Inr r)
    = (start \<le> end_date \<and> end_date - start \<le> 366 \<and> end_date < max_date)"
  by (rule range_answered [OF assms])

theorem range_request_answered_witness:
  "\<exists>r. observation_range sample_api 1 738000 738366 EOD_CLOSE (listed_session revised_rows) = Inr r"
  using range_request_answered [OF listed sample_catalog(1,2) fake_calendar.calendar_port_axioms sample_catalog(4,3)]
  by (simp add: max_date_def)

text \<open>
  C38. A range is bounded and complete. An answered range has the listing, the type and the limits of the
  request and one entry for each of its dates, in order: at least one and at most 367 of them.
\<close>

theorem answered_range_is_complete:
  assumes "observation_range A i start end_date otype s = Inr r" and "permutes_rows (api_arrange A)"
  shows "map oo_session_date (or_observations r) = [start..end_date]
    \<and> 1 \<le> length (or_observations r) \<and> length (or_observations r) \<le> 367
    \<and> or_listing_id r = i \<and> or_observation_type r = otype \<and> or_start r = start \<and> or_end r = end_date"
proof -
  from assms(1) obtain l cal outs where
    limits: "start \<le> end_date" "end_date - start \<le> 366"
    and outs: "build_observation_range (api_view A cal s) l otype start end_date = Inr outs"
    and r: "r = \<lparr>or_listing_id = i, or_observation_type = otype, or_start = start, or_end = end_date, or_observations = outs\<rparr>"
    by (auto simp: observation_range_def max_range_days_def if_ok_Inr_iff split: if_splits)
  have dates: "map oo_session_date outs = [start..end_date]"
    using outs assms(2) by (simp add: range_exact)
  have "length outs = nat (end_date - start + 1)" using arg_cong [OF dates, of length] by (simp only: length_map length_upto)
  with limits have "1 \<le> length outs" "length outs \<le> 367" by simp_all
  with dates show ?thesis by (simp add: r)
qed

theorem answered_range_is_complete_witness:
  "\<exists>r. observation_range sample_api 1 738000 738366 EOD_CLOSE (listed_session revised_rows) = Inr r
     \<and> map oo_session_date (or_observations r) = [738000..738366]"
proof -
  have "\<exists>r. observation_range sample_api 1 738000 738366 EOD_CLOSE (listed_session revised_rows) = Inr r"
    using range_answered [OF listed sample_catalog(1,2) fake_calendar.calendar_port_axioms sample_catalog(4,3)]
    by (simp add: max_date_def)
  then obtain r where r: "observation_range sample_api 1 738000 738366 EOD_CLOSE (listed_session revised_rows) = Inr r" by blast
  from r answered_range_is_complete [OF r sample_catalog(3)] show ?thesis by blast
qed

text \<open>
  With the row of another source, enabled before the approved one, the newest observation is answered
  with the approved value, as it is without that row.
\<close>

definition both_enabled_api :: "unit api" where
  "both_enabled_api = sample_api\<lparr>api_settings := default_settings\<lparr>enabled_sources := [''other'', ''fake'']\<rparr>\<rparr>"

definition withheld_session :: sess where
  "withheld_session = listed_session (withheld_row # revised_rows)"

lemma withheld_decided: "is_publication_authorized withheld_session = (\<lambda>x. x = ''fake'')"
  by (rule ext) (simp add: withheld_session_def is_publication_authorized_def effective_status_def effective_decision_def
      listed_session_def published_session_def approved_decisions_def sample_decision_def session_on_def)

definition approved_out :: observation_out where
  "approved_out = \<lparr>oo_listing_id = 1, oo_session_date = 738000, oo_availability = AV_OK,
     oo_value = Some (value_out withheld_session \<lparr>selected = sample_row 2 ''fake'' ''default'' ''X'' 2 6,
       applied_policy = ''configured-sources'', alternatives = []\<rparr>)\<rparr>"

lemma withheld_answer:
  "serve both_enabled_api 738000 0 withheld_session (Some ''Bearer k1'') (LatestObservation 1 EOD_CLOSE)
     = Success (ObservationOut approved_out)"
proof -
  let ?cal = fake_sessions_in_range and ?rows = "withheld_row # revised_rows"
  let ?V = "api_view both_enabled_api ?cal withheld_session"
  have "rows_for withheld_session 1 738000 EOD_CLOSE = ?rows"
    by (simp add: rows_for_def withheld_session_def listed_session_def published_session_def session_on_def withheld_row_def
        revised_rows_def sample_row_def)
  moreover have "latest_by_key ?rows
      = [((''other'', ''default''), withheld_row), ((''fake'', ''default''), sample_row 2 ''fake'' ''default'' ''X'' 2 6)]"
    by (simp add: latest_by_key_def revised_rows_def withheld_row_def keep_greater_def account_def sample_row_def)
  ultimately have "select_for ?V 1 EOD_CLOSE 738000
      = Inr \<lparr>selected = sample_row 2 ''fake'' ''default'' ''X'' 2 6, applied_policy = ''configured-sources'', alternatives = []\<rparr>"
    by (simp add: select_for_def priority_policy_def both_enabled_api_def sample_api_def select_observation_def
        current_publishable_by_source_def keep_publishable_def keep_greater_def withheld_decided)
  then have "build_observation_out ?V sample_listing EOD_CLOSE 738000 = Inr approved_out"
    by (simp add: build_observation_out_def sample_listing_def approved_out_def)
  moreover have "[0..<latest_lookback_days + 1] = 0 # [1..<latest_lookback_days + 1]"
    by (simp add: upt_conv_Cons latest_lookback_days_def)
  then have "lookback_dates 738000 = 738000 # map (\<lambda>offset. 738000 - int offset) [1..<latest_lookback_days + 1]"
    by (simp add: lookback_dates_def)
  moreover have "oo_availability approved_out = AV_OK" by (simp add: approved_out_def)
  ultimately have "find_latest_observation ?V sample_listing EOD_CLOSE 738000 = Inr approved_out"
    by (simp add: find_latest_observation_def)
  moreover have "calendar_of both_enabled_api sample_listing = Inr ?cal"
    using sample_catalog(2) by (simp add: both_enabled_api_def calendar_of_def)
  ultimately have "latest_observation both_enabled_api 1 EOD_CLOSE 738000 withheld_session = Inr approved_out"
    by (simp add: latest_observation_def withheld_session_def listed del: One_nat_def)
  moreover have "require_scope (api_environ both_enabled_api) (build_consumer_credentials (api_settings both_enabled_api))
      observations_read_scope (Some ''Bearer k1'') = Inr \<lparr>consumer_id = ''holdria'', scopes = cc_scopes holdria_config\<rparr>"
  proof -
    have "extract_bearer_token (Some ''Bearer k1'') = Some ''k1''" by (simp add: extract_Some_iff bearer_prefix_def)
    then show ?thesis
      by (simp add: require_scope_eq build_consumer_credentials_def default_settings_def both_enabled_api_def sample_api_def
          sample_environ_def holdria_config_def ops_config_def identity_of_def comparable_def configured_def ascii_def
          last_holder_def holds_key_def observations_read_scope_def)
  qed
  ultimately show ?thesis by (simp add: serve_def guarded_def respond_def)
qed

theorem withheld_rows_leave_no_trace_witness:
  "Success (ObservationOut approved_out)
     \<in> replies both_enabled_api 738000 0 (without_refused (is_publication_authorized withheld_session) withheld_session)
         (Some ''Bearer k1'') (LatestObservation 1 EOD_CLOSE)
   \<and> observations (work (without_refused (is_publication_authorized withheld_session) withheld_session)) = revised_rows
   \<and> observations (work withheld_session) = withheld_row # revised_rows"
proof (intro conjI)
  have "serve (with_order both_enabled_api (\<lambda>rows. rows)) 738000 0 withheld_session (Some ''Bearer k1'')
      (LatestObservation 1 EOD_CLOSE) = Success (ObservationOut approved_out)"
    using withheld_answer by (simp add: with_order_def both_enabled_api_def sample_api_def)
  then show "Success (ObservationOut approved_out)
     \<in> replies both_enabled_api 738000 0 (without_refused (is_publication_authorized withheld_session) withheld_session)
         (Some ''Bearer k1'') (LatestObservation 1 EOD_CLOSE)"
    unfolding withheld_rows_leave_no_trace unfolding replies_def
    by (intro CollectI exI [of _ "\<lambda>rows. rows"] conjI permutes_id(1)) simp
  show stored: "observations (work withheld_session) = withheld_row # revised_rows"
    by (simp add: withheld_session_def listed_session_def published_session_def session_on_def)
  show "observations (work (without_refused (is_publication_authorized withheld_session) withheld_session)) = revised_rows"
    by (simp add: without_refused_def stored withheld_decided) (simp add: withheld_row_def revised_rows_def sample_row_def)
qed

section \<open>Status\<close>

definition published_dates :: "'q api \<Rightarrow> sess \<Rightarrow> uuid \<Rightarrow> ObservationType \<Rightarrow> date set" where
  "published_dates A s i otype = {day. \<exists>r. select_observation is_publication_authorized (api_arrange A) s i day otype
     (priority_policy (api_settings A)) = Inr r}"

lemma published_dates_iff: "published_on (api_view A cal s) i otype day \<longleftrightarrow> day \<in> published_dates A s i otype"
  by (simp add: published_on_def published_dates_def select_for_def)

text \<open>
  C24. The status says what can be read. The last effective date of a listing is the greatest date on which
  the API publishes a value, and it is missing exactly when there is none; data is reported as
  publishable exactly when there is a value on one of the eleven days up to today.
\<close>

theorem status_says_what_is_published:
  assumes "data_status A i otype today s = Inr r" and "permutes_rows (api_arrange A)"
  shows "(case ds_last_effective_date r of
        None \<Rightarrow> published_dates A s i otype = {}
      | Some d \<Rightarrow> d \<in> published_dates A s i otype \<and> published_dates A s i otype \<inter> {d<..} = {})
    \<and> ds_has_publishable_data r = (published_dates A s i otype \<inter> {today - 10..today} \<noteq> {})
    \<and> ds_listing_id r = i \<and> ds_observation_type r = otype"
proof -
  from assms(1) obtain l cal latest where
    l: "resolve_listing i s = Inr l" and latest: "find_latest_observation (api_view A cal s) l otype today = Inr latest"
    and r: "r = \<lparr>ds_listing_id = i, ds_observation_type = otype,
         ds_last_effective_date = latest_publishable_session_date (api_view A cal s) l otype,
         ds_has_publishable_data = (oo_availability latest = AV_OK)\<rparr>"
    by (auto simp: data_status_def if_ok_Inr_iff)
  have i: "lst_id l = i" using l by (auto simp: resolve_listing_def get_listing_def dest: select_first_SomeD split: option.splits)
  have perm: "permutes_rows (v_arrange (api_view A cal s))" using assms(2) by simp
  note date = status_date [OF perm, of l otype, unfolded published_dates_iff i]
  have "recent_dates (api_view A cal s) i otype today = published_dates A s i otype \<inter> {today - 10..today}"
    by (auto simp: recent_dates_def published_dates_iff)
  with latest_newest [OF latest perm] have "(oo_availability latest = AV_OK) = (published_dates A s i otype \<inter> {today - 10..today} \<noteq> {})"
    by (simp add: i)
  moreover have "case latest_publishable_session_date (api_view A cal s) l otype of
        None \<Rightarrow> published_dates A s i otype = {}
      | Some d \<Rightarrow> d \<in> published_dates A s i otype \<and> published_dates A s i otype \<inter> {d<..} = {}"
  proof (cases "latest_publishable_session_date (api_view A cal s) l otype")
    case None
    with date show ?thesis by auto
  next
    case (Some d)
    with date [of d] show ?thesis by auto
  qed
  ultimately show ?thesis by (simp add: r)
qed

lemma latest_answers:
  assumes "\<And>d. \<exists>out. build_observation_out V l otype d = Inr out"
  shows "\<exists>out. find_latest_observation V l otype today = Inr out"
proof -
  have "\<exists>r. first_available (build_observation_out V l otype) ds = Inr r" for ds
  proof (induction ds)
    case (Cons d ds)
    obtain out where "build_observation_out V l otype d = Inr out" using assms by blast
    with Cons show ?case by auto
  qed simp
  then obtain r where "first_available (build_observation_out V l otype) (lookback_dates today) = Inr r" by blast
  then show ?thesis using assms by (cases r) (simp_all add: find_latest_observation_def)
qed

theorem status_says_what_is_published_witness:
  "\<exists>r. data_status sample_api 1 EOD_CLOSE 738000 (listed_session revised_rows) = Inr r \<and> ds_has_publishable_data r
     = (published_dates sample_api (listed_session revised_rows) 1 EOD_CLOSE \<inter> {737990..738000} \<noteq> {})"
proof -
  let ?V = "api_view sample_api fake_sessions_in_range (listed_session revised_rows)"
  have "\<exists>out. build_observation_out ?V sample_listing EOD_CLOSE d = Inr out" for d
    by (rule build_answers [OF fake_calendar.calendar_port_axioms sample_catalog(4,1,3)])
  from latest_answers [OF this] obtain out where "find_latest_observation ?V sample_listing EOD_CLOSE 738000 = Inr out" by blast
  then have "\<exists>r. data_status sample_api 1 EOD_CLOSE 738000 (listed_session revised_rows) = Inr r"
    by (simp add: data_status_def listed sample_catalog(2) del: One_nat_def)
  then obtain r where r: "data_status sample_api 1 EOD_CLOSE 738000 (listed_session revised_rows) = Inr r" by blast
  from r status_says_what_is_published [OF r sample_catalog(3)] show ?thesis by auto
qed

text \<open>
  The two status endpoints agree. The number of jobs is the same in both, the age that consumers see is
  the operators' oldest age in whole seconds and not below zero, and a queue that consumers see as
  stalled has a source that operators see as stalled.
\<close>

theorem status_endpoints_agree:
  "os_pending_jobs (operational_status (api_settings A) now s) = sm_pending_jobs (scheduler_metrics A now s)
   \<and> os_oldest_pending_seconds (operational_status (api_settings A) now s)
       = map_option (\<lambda>age. max \<lfloor>age\<rfloor> 0) (sm_oldest_pending_seconds (scheduler_metrics A now s))
   \<and> (os_stalled (operational_status (api_settings A) now s) \<and> 0 \<le> stalled_job_threshold_seconds (api_settings A)
       \<longrightarrow> sm_stalled_sources (scheduler_metrics A now s) \<noteq> [])"
proof (intro conjI impI)
  let ?m = "scheduler_metrics A now s" and ?o = "operational_status (api_settings A) now s"
  have max0: "max (truncated age) 0 = max \<lfloor>age\<rfloor> 0" for age
  proof (cases "age < 0")
    case True
    then have "truncated age \<le> 0" "\<lfloor>age\<rfloor> \<le> 0" by (simp_all add: truncated_def)
    then show ?thesis by simp
  qed (simp add: truncated_def)
  have oldest: "sm_oldest_pending_seconds ?m = oldest_pending_age_seconds s now"
    by (simp add: scheduler_metrics_def Let_def snapshot_oldest)
  show "os_pending_jobs ?o = sm_pending_jobs ?m"
    by (simp add: operational_status_def scheduler_metrics_def Let_def snapshot_pending)
  show "os_oldest_pending_seconds ?o = map_option (\<lambda>age. max \<lfloor>age\<rfloor> 0) (sm_oldest_pending_seconds ?m)"
    by (simp add: oldest operational_status_def Let_def max0)
  assume stalled: "os_stalled ?o \<and> 0 \<le> stalled_job_threshold_seconds (api_settings A)"
  then obtain age where age: "oldest_pending_age_seconds s now = Some age"
    "stalled_job_threshold_seconds (api_settings A) < max \<lfloor>age\<rfloor> 0"
    by (auto simp: operational_status_def Let_def max0 split: option.splits)
  with stalled have "of_int (stalled_job_threshold_seconds (api_settings A)) < age" by (simp add: less_max_iff_disj) linarith
  moreover from age(1) obtain j js where
    j: "sort_key job_created_at (filter (\<lambda>j. job_status j = PENDING) (jobs (work s))) = j # js"
      "age = total_seconds (now - job_created_at j)"
    by (auto simp: oldest_pending_age_seconds_def split: list.splits)
  have "set (j # js) = set (filter (\<lambda>j. job_status j = PENDING) (jobs (work s)))"
    unfolding j(1) [symmetric] by (rule set_sort)
  then have "j \<in> set (filter (\<lambda>j. job_status j = PENDING) (jobs (work s)))" by auto
  ultimately have "job_source j \<in> set (sm_stalled_sources ?m)"
    using j(2) by (auto simp: scheduler_metrics_def Let_def snapshot_stalled)
  then show "sm_stalled_sources ?m \<noteq> []" by (cases "sm_stalled_sources ?m") auto
qed

theorem status_endpoints_agree_witness:
  "sm_stalled_sources (scheduler_metrics sample_api (microseconds 7200) sample_queue) \<noteq> []"
proof -
  have "os_stalled (operational_status (api_settings sample_api) (microseconds 7200) sample_queue)"
    by (simp add: operational_status_def Let_def oldest_pending_age_seconds_def sample_queue_def session_on_def
        sample_job_def sample_api_def default_settings_def total_seconds_def microseconds_def truncated_def)
  with status_endpoints_agree [of sample_api "microseconds 7200" sample_queue] show ?thesis
    by (simp add: sample_api_def default_settings_def)
qed

end
