(* ===== verification/Delivery.thy ===== *)
theory Delivery
  imports Provenance Batch Api
begin

text \<open>
  From the provider to the consumer: the scheduler's batch (\<open>Cycle\<close>), what the runner stores
  (\<open>Ingestion\<close>), what the selector picks (\<open>Selection\<close>) and what the API answers (\<open>Api\<close>), composed.
\<close>

section \<open>What a batch leaves to the selector\<close>

text \<open>The policy gate reads the decisions only.\<close>

lemma authorized_by_decisions:
  "decisions (work t) = decisions (work s) \<Longrightarrow> is_publication_authorized t = is_publication_authorized s"
  by (rule ext) (simp add: is_publication_authorized_def effective_status_def effective_decision_def)

text \<open>The rows of a source for a listing are those of one account under one identifier.\<close>

definition only_account :: "observation list \<Rightarrow> string \<Rightarrow> uuid \<Rightarrow> string \<Rightarrow> string \<Rightarrow> bool" where
  "only_account os source l scope ext \<longleftrightarrow>
     (\<forall>ob \<in> set os. obs_source ob = source \<and> obs_listing_id ob = l \<longrightarrow> credential_scope ob = scope \<and> external_listing_id ob = ext)
   \<and> (\<forall>ob \<in> set os. obs_source ob = source \<and> credential_scope ob = scope \<and> external_listing_id ob = ext \<longrightarrow> obs_listing_id ob = l)"

lemma only_account_append:
  "only_account (os @ new) source l scope ext \<longleftrightarrow> only_account os source l scope ext \<and> only_account new source l scope ext"
  unfolding only_account_def by auto

lemma batch_delivers:
  assumes "opened_run db rt" and "tables_ok db"
    and "claimable_jobs now None (refreshed_jobs now (job_lease_seconds st) (jobs db)) = j # rest"
    and "\<And>i. \<exists>k < lock_retry_attempts. \<not> lock_failures D i k"
    and "deliverable D st rt j ports f" and "quota_laws (snd ports)" and "historical_port f"
    and "parse_cursor (job_cursor j) = Inr c" and "job_listing_id j = Some l"
    and "raw \<in> set (f (cur_external_listing_id c) (cur_start c) (cur_end c))" and "exact_row (numeric_column D) raw"
    and "only_account (observations db) (job_source j) l (cur_credential_scope c) (cur_external_listing_id c)"
    and "claim_and_process D st w now 1 rt = (x, rt')"
  obtains r auth where "same_job r j" "duplicate_of (rt_sess rt') (row_input r l c auth now raw) \<noteq> None"
    "only_account (observations (work (rt_sess rt'))) (job_source j) l (cur_credential_scope c) (cur_external_listing_id c)"
    "rows_ok (observations (work (rt_sess rt')))" "reference_tables (rt_sess rt') = reference_tables (rt_sess rt)"
proof -
  have db: "work (rt_sess rt) = db" "durable (rt_sess rt) = db" "rt_loaded rt = (\<lambda>k. None)"
    using assms(1) by (simp_all add: opened_run_def opened_def)
  have alone: "rival_rows D = no_rivals" "\<And>n s. concurrently D n s = s" using assms(5) by (simp_all add: deliverable_def)
  obtain rt1 r c' l' q y rt2 where r: "claim_batch D st w now 1 rt = (Inr [job_id j], rt1)" "same_job r j"
    "r \<in> set (jobs (work (rt_sess rt1)))" "ready (runner_for D st ports) rt1 w r c' l' q"
    "answer (runner_for D st ports) rt1 c' = Inr (f (cur_external_listing_id c') (cur_start c') (cur_end c'))"
    "process (runner_for D st ports) (job_id r) w (Some now) rt1 = (y, rt2)"
    "claim_and_process D st w now 1 rt = (Inr ((claimed_only 1)\<lparr>jobs_done := 1\<rparr>), rt2)"
    by (rule due_job_run [where w = w, of now st rt j rest D ports f]) (use assms db in \<open>auto simp: tables_ok_def\<close>)
  have same: "rt2 = rt'" "c' = c" "l' = l" using r(2,4,7) assms(8,9,13) by (auto simp: ready_def same_job_def)
  have laws: "quota_laws (quota (runner_for D st ports))" using assms(6) by (simp add: runner_for_def)
  have "duplicate_of (rt_sess rt') (row_input r l c auth now raw) \<noteq> None" for auth
    using healthy_job [OF r(4) laws assms(7) r(5,6)] assms(10,11) same by (auto simp: exact_row_kept runner_for_def)
  moreover have "only_account (observations (work (rt_sess rt'))) (job_source j) l (cur_credential_scope c) (cur_external_listing_id c)"
  proof -
    have "objects_known rt" using assms(2) by (simp add: objects_known_def rows_persist_def db tables_ok_def)
    from keepsD [OF objects.batches r(1) this] have known: "objects_ok rt1" by (rule objects_known_ok)
    have rows: "observations (work (rt_sess rt1)) = observations db"
      using keepsD [OF durable_claim.claim_batch_kept r(1), of "observations db" "observations db"] db by simp
    have "bystanders (runner_for D st ports)" by (rule beside_bystanders) (simp add: stores_nothing_beside_def alone)
    from process_stored [OF r(6) known r(3) refl this] obtain new where
      new: "observations (work (rt_sess rt')) = observations db @ new"
        "\<And>ob. ob \<in> set new \<Longrightarrow> \<exists>c auth raw. parse_cursor (job_cursor r) = Inr c \<and> stored_from (runner_for D st ports) r c auth now raw ob"
      unfolding rows same by blast
    have "only_account new (job_source j) l (cur_credential_scope c) (cur_external_listing_id c)"
      using new(2) assms(8,9) r(2)
      by (fastforce simp: only_account_def stored_from_def natural_key_def well_formed_def same_job_def)
    with assms(12) show ?thesis by (simp add: new(1) only_account_append)
  qed
  moreover have "rows_ok (observations (work (rt_sess rt')))"
  proof -
    have "sound db (rt_sess rt)" using assms(2) by (simp add: sound_def kept_def db)
    moreover have "lawful_rows db (rival_rows D n)" for n by (simp add: lawful_rows_def alone no_rivals_def)
    ultimately have "sound db (rt_sess rt')"
      using keepsD [OF soundness.claim_and_process_kept assms(13)] alone by simp
    then show ?thesis by (simp add: sound_def tables_ok_def)
  qed
  moreover have "reference_tables (rt_sess rt') = reference_tables (rt_sess rt)"
    using keepsD [OF reference_rows.claim_and_process_kept assms(13) refl] alone by simp
  ultimately show ?thesis using that r(2) by blast
qed

section \<open>What the selector picks\<close>

lemma selected_is_current:
  assumes "select_for V l otype day = Inr res" and "permutes_rows (v_arrange V)"
    and "enabled_sources (v_settings V) = source # others" and "is_publication_authorized (v_sess V) source"
    and "only_account (observations (work (v_sess V))) source l scope ext" and "rows_ok (observations (work (v_sess V)))"
    and "current_for_key (v_sess V) source scope ext day otype = Some q" and "obs_listing_id q = l"
  shows "selected res = q"
proof -
  let ?os = "observations (work (v_sess V))"
  note q = effective_SomeD [OF assms(7) [unfolded current_for_key_log]]
  have eligible: "eligible is_publication_authorized (v_sess V) l day otype source"
    using q(1,2) assms(4,8) unfolding eligible_def rows_for_def by (auto simp: natural_key_def)
  obtain before chosen after where chosen: "source # others = before @ chosen # after"
    "\<forall>x \<in> set before. \<not> eligible is_publication_authorized (v_sess V) l day otype x"
    "map_of (current_publishable_by_source is_publication_authorized (v_arrange V) (v_sess V) l day otype) chosen = Some (selected res)"
    using selected_of [OF assms(1) [unfolded select_for_def] assms(2)] assms(3) by (auto simp: priority_policy_def)
  from chosen(1,2) eligible have "chosen = source" by (cases before) auto
  with candidate_publishable [OF chosen(3) assms(2)] have
    p: "publishable_row is_publication_authorized (v_sess V) l day otype (selected res)" "obs_source (selected res) = source" by auto
  have in_os: "selected res \<in> set ?os" using p(1) by (simp add: publishable_row_def)
  have "credential_scope (selected res) = scope \<and> external_listing_id (selected res) = ext"
    using p in_os assms(5) unfolding publishable_row_def only_account_def by blast
  with p have key: "natural_key (selected res) = (source, scope, ext, day, otype)"
    by (simp add: publishable_row_def natural_key_def)
  have "q \<in> set (rows_for (v_sess V) l day otype)" using q(1,2) assms(8) by (auto simp: rows_for_def natural_key_def)
  moreover have "account q = account (selected res)" using q(2) key by (simp add: natural_key_def account_def)
  ultimately have "revision q \<le> revision (selected res)" using p(1) unfolding publishable_row_def by blast
  with q(3) [OF in_os key] have "revision (selected res) = revision q" by simp
  with key q(2) have same: "(natural_key (selected res), revision (selected res)) = (natural_key q, revision q)" by simp
  have "inj_on (\<lambda>r. (natural_key r, revision r)) (set ?os)"
    using assms(6) by (simp add: rows_ok_def unique_versions_def distinct_map)
  from inj_onD [OF this same in_os q(1)] show ?thesis .
qed

lemma input_key_row: "well_formed (cur_external_listing_id c) a b raw
    \<Longrightarrow> input_key (row_input r l c auth now raw)
      = (job_source r, cur_credential_scope c, cur_external_listing_id c, raw_session_date raw, raw_observation_type raw)"
  by (simp add: input_key_def row_input_def well_formed_def)

lemma build_selected:
  assumes "build_observation_out V lst otype day = Inr out" and "permutes_rows (v_arrange V)"
    and "enabled_sources (v_settings V) = source # others" and "is_publication_authorized (v_sess V) source"
    and "only_account (observations (work (v_sess V))) source (lst_id lst) scope ext" and "rows_ok (observations (work (v_sess V)))"
    and "current_for_key (v_sess V) source scope ext day otype = Some q" and "obs_listing_id q = lst_id lst"
  shows "oo_session_date out = day \<and> oo_availability out = AV_OK
    \<and> (\<exists>v. oo_value out = Some v \<and> vo_close v = obs_close q \<and> vo_currency v = obs_currency q \<and> vo_source v = obs_source q
         \<and> vo_revision v = revision q)"
proof -
  note q = effective_SomeD [OF assms(7) [unfolded current_for_key_log]]
  have "eligible is_publication_authorized (v_sess V) (lst_id lst) day otype source"
    using q(1,2) assms(4,8) unfolding eligible_def rows_for_def by (auto simp: natural_key_def)
  then have "select_for V (lst_id lst) otype day \<noteq> Inl e" for e
    using none_selected_iff [OF assms(2)] assms(3) by (auto simp: select_for_def priority_policy_def)
  then obtain res where res: "select_for V (lst_id lst) otype day = Inr res" by (cases "select_for V (lst_id lst) otype day") auto
  from selected_is_current [OF res assms(2-8)] assms(1) res show ?thesis
    by (auto simp: build_observation_out_def value_out_def Let_def split: prod.split)
qed

lemma range_entries:
  assumes "observation_range A i a b otype s = Inr r"
  obtains l cal outs where "resolve_listing i s = Inr l" "or_observations r = outs"
    "map (build_observation_out (api_view A cal s) l otype) [a..b] = map Inr outs"
proof -
  from assms obtain l cal outs where "resolve_listing i s = Inr l" "or_observations r = outs"
    "build_observation_range (api_view A cal s) l otype a b = Inr outs"
    by (auto simp: observation_range_def if_ok_Inr_iff split: if_splits)
  with that show ?thesis unfolding build_observation_range_def range_from_Inr_iff by blast
qed

lemma resolved_id: "resolve_listing i s = Inr l \<Longrightarrow> lst_id l = i"
  by (auto simp: resolve_listing_def get_listing_def dest: select_first_SomeD split: option.splits)

section \<open>From the provider to the consumer\<close>

text \<open>
  C2. What was fetched is what is served. When the oldest job that may be claimed is deliverable, then after
  the batch of one that claims it, each row of the provider's answer whose prices the columns keep is
  what the API says of the row's date: it is available, with the close of the row, its currency in
  capitals and the name of the source, provided that the source is the first one enabled and may be
  published, and that the listing has one account and identifier with it. Earlier rows of the listing,
  also other values for that date, do not stand in the way.
\<close>

theorem fetched_value_is_served:
  assumes "opened_run db rt" and "tables_ok db"
    and "claimable_jobs now None (refreshed_jobs now (job_lease_seconds st) (jobs db)) = j # rest"
    and "\<And>i. \<exists>k < lock_retry_attempts. \<not> lock_failures D i k"
    and "deliverable D st rt j ports f" and "quota_laws (snd ports)" and "historical_port f"
    and "parse_cursor (job_cursor j) = Inr c" and "job_listing_id j = Some l"
    and "raw \<in> set (f (cur_external_listing_id c) (cur_start c) (cur_end c))" and "exact_row (numeric_column D) raw"
    and "only_account (observations db) (job_source j) l (cur_credential_scope c) (cur_external_listing_id c)"
    and "claim_and_process D st w now 1 rt = (x, rt')" and "opened (work (rt_sess rt')) s"
    and "is_publication_authorized (rt_sess rt) (job_source j)" and "enabled_sources (api_settings A) = job_source j # others"
    and "permutes_rows (api_arrange A)"
    and "observation_range A l a b (raw_observation_type raw) s = Inr r" and "raw_session_date raw \<in> {a..b}"
  shows "\<exists>out \<in> set (or_observations r). oo_session_date out = raw_session_date raw \<and> oo_availability out = AV_OK
    \<and> (\<exists>v. oo_value out = Some v \<and> vo_close v = raw_close raw \<and> vo_currency v = upper (raw_currency raw)
         \<and> vo_source v = job_source j)"
proof -
  let ?day = "raw_session_date raw" and ?type = "raw_observation_type raw"
  obtain k auth where k: "same_job k j" "duplicate_of (rt_sess rt') (row_input k l c auth now raw) \<noteq> None"
    "only_account (observations (work (rt_sess rt'))) (job_source j) l (cur_credential_scope c) (cur_external_listing_id c)"
    "rows_ok (observations (work (rt_sess rt')))" "reference_tables (rt_sess rt') = reference_tables (rt_sess rt)"
    by (rule batch_delivers [OF assms(1-13)]) (rule that)
  have s: "work s = work (rt_sess rt')" using assms(14) by (simp add: opened_def)
  have valid: "well_formed (cur_external_listing_id c) (cur_start c) (cur_end c) raw"
    using historical_port.all_accepted [OF assms(7,10)] by (simp add: validate_Inr_iff)
  obtain q where q: "current_revision (rt_sess rt') (row_input k l c auth now raw) = Some q" "same_value q (row_input k l c auth now raw)"
    using k(2) duplicate_of_SomeD by blast
  have current: "current_for_key s (job_source j) (cur_credential_scope c) (cur_external_listing_id c) ?day ?type = Some q"
    using q(1) k(1) by (simp add: current_for_key_log current_revision_log input_key_row [OF valid] s same_job_def)
  have "obs_close q = raw_close raw" "obs_currency q = upper (raw_currency raw)"
    using q(2) assms(11) by (auto simp: same_value_def dec_eq_iff row_input_def exact_row_def)
  moreover note q' = effective_SomeD(1,2) [OF current [unfolded current_for_key_log]]
  have key: "obs_source q = job_source j" "credential_scope q = cur_credential_scope c"
    "external_listing_id q = cur_external_listing_id c" using q'(2) by (simp_all add: natural_key_def)
  moreover have "obs_listing_id q = l" using k(3) q'(1) key unfolding only_account_def s by blast
  moreover have "is_publication_authorized s (job_source j)"
    using assms(15) k(5) authorized_by_decisions [of s "rt_sess rt"] by (simp add: reference_tables_def s)
  moreover obtain lst cal outs where range: "resolve_listing l s = Inr lst" "or_observations r = outs"
    "map (build_observation_out (api_view A cal s) lst ?type) [a..b] = map Inr outs"
    using range_entries [OF assms(18)] .
  moreover have "lst_id lst = l" using resolved_id [OF range(1)] .
  moreover have "build_observation_out (api_view A cal s) lst ?type ?day \<in> set (map Inr outs)"
    unfolding range(3) [symmetric] using assms(19) by simp
  then obtain out where "out \<in> set outs" "build_observation_out (api_view A cal s) lst ?type ?day = Inr out"
    unfolding list.set_map by (rule imageE) (rule that)
  ultimately show ?thesis
    using build_selected [of "api_view A cal s" lst ?type ?day out "job_source j" others "cur_credential_scope c"
        "cur_external_listing_id c" q] assms(16,17) k(3,4) current
    by (simp add: api_view_def s) blast
qed

text \<open>The pending job of the fake provider, for a listing of the catalog.\<close>

definition market_database :: database where
  "market_database = pending_database\<lparr>instruments := instruments crypto_database, listings := [crypto_listing]\<rparr>"

definition market_rt :: "quota_book rt" where
  "market_rt = (pending_rt [pending_row])\<lparr>rt_sess := session_on market_database 0\<rparr>"

lemma market_fields:
  "jobs market_database = [pending_row]" "decisions market_database = approved_decisions" "observations market_database = []"
  "listings market_database = [crypto_listing]" "instruments market_database = instruments crypto_database"
  "engine market_database = SQLITE" "identities market_database = []"
  "work (rt_sess market_rt) = market_database" "rt_quota market_rt = rt_quota (pending_rt [pending_row])"
  "rt_calls market_rt = rt_calls (pending_rt [pending_row])"
  by (simp_all add: market_database_def pending_database_def market_rt_def session_on_def empty_database_def)

lemma market_opened: "opened_run market_database market_rt"
  by (simp add: opened_run_def opened_def market_rt_def session_on_def pending_rt_def)

lemma market_sound: "tables_ok market_database"
proof -
  have "catalog_ok (session_on market_database 0)"
    by (simp add: catalog_ok_def keys_ok_def referenced_def fk_holds_def session_on_def market_fields)
      (simp add: crypto_database_def crypto_listing_def upper_def upper_char_upper is_upper_def)
  with pending_sound show ?thesis
    by (simp add: tables_ok_def market_fields references_ok_def)
      (simp add: pending_database_def empty_database_def)
qed

lemma market_deliverable: "deliverable demo_deployment default_settings market_rt pending_row demo_ports (fake_fetch_range (\<lambda>seed. 0))"
proof -
  have "newest_approved (rt_sess market_rt) source cap = newest_approved (rt_sess (pending_rt [pending_row])) source cap" for source cap
    unfolding newest_approved_iff [symmetric]
    by (simp add: effective_status_def effective_decision_def pending_fields market_fields)
  moreover have "fresh_ids (rt_sess market_rt)"
    by (simp add: fresh_ids_def market_fields) (simp add: market_rt_def session_on_def inj_def)
  ultimately show ?thesis
    using pending_deliverable by (simp add: deliverable_def fk_holds_def market_fields pending_fields)
qed

definition delivered :: "quota_book rt" where
  "delivered = snd (claim_and_process demo_deployment default_settings ''w'' 5 1 market_rt)"

theorem fetched_value_is_served_witness:
  "\<exists>r. observation_range sample_api 7 738000 738000 EOD_CLOSE (session_on (work (rt_sess delivered)) 9) = Inr r
     \<and> (\<exists>out \<in> set (or_observations r). oo_session_date out = 738000 \<and> oo_availability out = AV_OK
          \<and> (\<exists>v. oo_value out = Some v \<and> vo_close v = Fin 10))"
proof -
  let ?s = "session_on (work (rt_sess delivered)) 9"
  have run: "claim_and_process demo_deployment default_settings ''w'' 5 1 market_rt
      = (fst (claim_and_process demo_deployment default_settings ''w'' 5 1 market_rt), delivered)" by (simp add: delivered_def)
  have "reference_tables (rt_sess delivered) = reference_tables (rt_sess market_rt)"
    using keepsD [OF reference_rows.claim_and_process_kept run refl] by (simp add: demo_deployment_def)
  then have catalog: "listings (work ?s) = [crypto_listing]" "instruments (work ?s) = instruments crypto_database"
    by (simp_all add: reference_tables_def market_fields session_on_def)
  have "resolve_listing 7 ?s = Inr crypto_listing" "calendar_of sample_api crypto_listing = Inr fake_sessions_in_range"
    "\<exists>i. instrument_of ?s crypto_listing = Some i"
    using catalog by (simp_all add: resolve_listing_def get_listing_def instrument_of_def crypto_listing_def crypto_database_def
        crypto_calendar)
  then obtain r where r: "observation_range sample_api 7 738000 738000 EOD_CLOSE ?s = Inr r"
    using range_answered [OF _ _ _ fake_calendar.calendar_port_axioms sample_catalog(4,3)] by (fastforce simp: max_date_def)
  have row: "good_row \<in> set (fake_fetch_range (\<lambda>seed. 0) (cur_external_listing_id demo_cursor) (cur_start demo_cursor) (cur_end demo_cursor))"
    "raw_observation_type good_row = EOD_CLOSE"
    by (simp_all add: good_row_def fake_fetch_range_def demo_cursor_fields weekday_def)
      (simp add: fake_observation_def Let_def)
  have exact: "exact_row (numeric_column demo_deployment) good_row"
    using good_row_kept unfolding exact_row_kept by (simp add: demo_runner_fields demo_deployment_def)
  have due: "claimable_jobs 5 None (refreshed_jobs 5 (job_lease_seconds default_settings) (jobs market_database)) = pending_row # []"
    by (simp add: market_fields pending_due)
  have publishable: "is_publication_authorized (rt_sess market_rt) (job_source pending_row)"
    by (simp add: is_publication_authorized_def effective_status_def effective_decision_def market_fields pending_row_fields approved_defs)
  have opened: "opened (work (rt_sess delivered)) ?s" by (simp add: opened_def session_on_def)
  have cursor: "parse_cursor (job_cursor pending_row) = Inr demo_cursor" "job_listing_id pending_row = Some 7"
    by (simp_all add: pending_row_fields demo_cursor_parsed)
  have account: "only_account (observations market_database) (job_source pending_row) 7 (cur_credential_scope demo_cursor)
      (cur_external_listing_id demo_cursor)" by (simp add: market_fields only_account_def)
  have enabled: "enabled_sources (api_settings sample_api) = job_source pending_row # []"
    by (simp add: sample_api_def default_settings_def pending_row_fields)
  have "observation_range sample_api 7 738000 738000 (raw_observation_type good_row) ?s = Inr r" "raw_session_date good_row \<in> {738000..738000}"
    using r row(2) by (simp_all add: good_row_fields)
  from fetched_value_is_served [OF market_opened market_sound due demo_locks market_deliverable demo_port_laws
      fake_prices.historical_port_axioms cursor row(1) exact account run opened publishable enabled sample_catalog(3) this]
  show ?thesis using r by (auto simp: good_row_fields)
qed

end
