(* ===== verification/Migrations.thy ===== *)
theory Migrations
  imports Models
begin

text \<open>
  \<open>db/migrations/versions\<close>: the revisions 0001 to 0005 as lists of operations on a schema. A schema is
  read by names only: the columns, constraints, indexes and triggers of a table are maps, so the order
  of columns does not count. Of Alembic this uses what the revisions rely on and say: an operation fails
  when what it adds is there or what it drops is not, and on SQLite a batch that does more than add
  columns or change indexes recreates its table, without the triggers. Indexes and foreign keys are those
  of one column, and every foreign key refers to an \<open>id\<close>.
\<close>

section \<open>Schemas\<close>

datatype sql_type = Uuid | Text nat | Int_Type | Bool_Type | Date_Type | Date_Time | Num nat nat | Enum_Type "string list"

record column =
  col_type :: sql_type
  col_nullable :: bool
  col_default :: "string option"

record foreign_key =
  fk_column :: string
  fk_table :: string
  fk_ondelete :: string

record trigger =
  trg_events :: "string list"
  trg_function :: "string option"

record table =
  tab_columns :: "string \<rightharpoonup> column"
  tab_uniques :: "string \<rightharpoonup> string list"
  tab_checks :: "string \<rightharpoonup> string"
  tab_foreign :: "string \<rightharpoonup> foreign_key"
  tab_indexes :: "string \<rightharpoonup> string"
  tab_triggers :: "string \<rightharpoonup> trigger"

record schema =
  sch_tables :: "string \<rightharpoonup> table"
  sch_functions :: "string set"

definition no_schema :: schema where
  "no_schema = \<lparr>sch_tables = (\<lambda>n. None), sch_functions = {}\<rparr>"

definition put :: "string \<Rightarrow> 'a \<Rightarrow> (string \<rightharpoonup> 'a) \<Rightarrow> (string \<rightharpoonup> 'a) option" where
  "put k v m = (if m k = None then Some (m(k := Some v)) else None)"

definition take_out :: "string \<Rightarrow> (string \<rightharpoonup> 'a) \<Rightarrow> (string \<rightharpoonup> 'a) option" where
  "take_out k m = (if m k = None then None else Some (m(k := None)))"

section \<open>Operations\<close>

datatype alteration =
    Add_Column string column
  | Drop_Column string
  | Set_Default string "string option"
  | Add_Unique string "string list"
  | Drop_Unique string
  | Add_Foreign_Key string foreign_key
  | Drop_Foreign_Key string
  | Create_Index string string
  | Drop_Index string

fun alter :: "alteration \<Rightarrow> table \<Rightarrow> table option" where
  "alter (Add_Column n c) t = map_option (\<lambda>m. t\<lparr>tab_columns := m\<rparr>) (put n c (tab_columns t))"
| "alter (Drop_Column n) t = map_option (\<lambda>m. t\<lparr>tab_columns := m\<rparr>) (take_out n (tab_columns t))"
| "alter (Set_Default n v) t =
     (case tab_columns t n of None \<Rightarrow> None
      | Some c \<Rightarrow> Some (t\<lparr>tab_columns := (tab_columns t)(n := Some (c\<lparr>col_default := v\<rparr>))\<rparr>))"
| "alter (Add_Unique n cs) t = map_option (\<lambda>m. t\<lparr>tab_uniques := m\<rparr>) (put n cs (tab_uniques t))"
| "alter (Drop_Unique n) t = map_option (\<lambda>m. t\<lparr>tab_uniques := m\<rparr>) (take_out n (tab_uniques t))"
| "alter (Add_Foreign_Key n k) t = map_option (\<lambda>m. t\<lparr>tab_foreign := m\<rparr>) (put n k (tab_foreign t))"
| "alter (Drop_Foreign_Key n) t = map_option (\<lambda>m. t\<lparr>tab_foreign := m\<rparr>) (take_out n (tab_foreign t))"
| "alter (Create_Index n c) t = map_option (\<lambda>m. t\<lparr>tab_indexes := m\<rparr>) (put n c (tab_indexes t))"
| "alter (Drop_Index n) t = map_option (\<lambda>m. t\<lparr>tab_indexes := m\<rparr>) (take_out n (tab_indexes t))"

fun alter_all :: "alteration list \<Rightarrow> table \<Rightarrow> table option" where
  "alter_all [] t = Some t"
| "alter_all (a # as) t = (case alter a t of None \<Rightarrow> None | Some u \<Rightarrow> alter_all as u)"

fun recreates :: "alteration \<Rightarrow> bool" where
  "recreates (Add_Column n c) = False"
| "recreates (Create_Index n c) = False"
| "recreates (Drop_Index n) = False"
| "recreates _ = True"

definition batch :: "dialect \<Rightarrow> alteration list \<Rightarrow> table \<Rightarrow> table option" where
  "batch d as t = map_option (\<lambda>u. if d = SQLITE \<and> list_ex recreates as then u\<lparr>tab_triggers := (\<lambda>n. None)\<rparr> else u)
     (alter_all as t)"

datatype operation =
    Create_Table string table
  | Drop_Table string
  | Batch_Alter_Table string "alteration list"
  | Create_Trigger string string trigger
  | Drop_Trigger_If_Exists string string
  | Create_Function string
  | Drop_Function_If_Exists string
  | Backfill_Dedupe_Keys

fun run_op :: "dialect \<Rightarrow> operation \<Rightarrow> schema \<Rightarrow> schema option" where
  "run_op d (Create_Table n t) S = map_option (\<lambda>m. S\<lparr>sch_tables := m\<rparr>) (put n t (sch_tables S))"
| "run_op d (Drop_Table n) S = map_option (\<lambda>m. S\<lparr>sch_tables := m\<rparr>) (take_out n (sch_tables S))"
| "run_op d (Batch_Alter_Table n as) S =
     (case sch_tables S n of None \<Rightarrow> None
      | Some t \<Rightarrow> map_option (\<lambda>u. S\<lparr>sch_tables := (sch_tables S)(n := Some u)\<rparr>) (batch d as t))"
| "run_op d (Create_Trigger n trg x) S =
     (case sch_tables S n of None \<Rightarrow> None
      | Some t \<Rightarrow>
          if (case trg_function x of None \<Rightarrow> True | Some f \<Rightarrow> f \<in> sch_functions S)
          then map_option (\<lambda>m. S\<lparr>sch_tables := (sch_tables S)(n := Some (t\<lparr>tab_triggers := m\<rparr>))\<rparr>) (put trg x (tab_triggers t))
          else None)"
| "run_op d (Drop_Trigger_If_Exists n trg) S =
     (case sch_tables S n of None \<Rightarrow> None
      | Some t \<Rightarrow> Some (S\<lparr>sch_tables := (sch_tables S)(n := Some (t\<lparr>tab_triggers := (tab_triggers t)(trg := None)\<rparr>))\<rparr>))"
| "run_op d (Create_Function f) S = Some (S\<lparr>sch_functions := insert f (sch_functions S)\<rparr>)"
| "run_op d (Drop_Function_If_Exists f) S = Some (S\<lparr>sch_functions := sch_functions S - {f}\<rparr>)"
| "run_op d Backfill_Dedupe_Keys S = Some S"

fun run_ops :: "dialect \<Rightarrow> operation list \<Rightarrow> schema \<Rightarrow> schema option" where
  "run_ops d [] S = Some S"
| "run_ops d (p # ps) S = (case run_op d p S of None \<Rightarrow> None | Some T \<Rightarrow> run_ops d ps T)"

section \<open>Revision 0001\<close>

definition req :: "sql_type \<Rightarrow> column" where
  "req ty = \<lparr>col_type = ty, col_nullable = False, col_default = None\<rparr>"

definition opt :: "sql_type \<Rightarrow> column" where
  "opt ty = \<lparr>col_type = ty, col_nullable = True, col_default = None\<rparr>"

definition refers :: "string \<Rightarrow> string \<Rightarrow> string \<Rightarrow> foreign_key" where
  "refers column table ondelete = \<lparr>fk_column = column, fk_table = table, fk_ondelete = ondelete\<rparr>"

definition new_table :: "(string \<times> column) list \<Rightarrow> (string \<times> string list) list \<Rightarrow> (string \<times> string) list
    \<Rightarrow> (string \<times> foreign_key) list \<Rightarrow> table" where
  "new_table columns uniques checks foreign = \<lparr>tab_columns = map_of columns, tab_uniques = map_of uniques,
     tab_checks = map_of checks, tab_foreign = map_of foreign, tab_indexes = (\<lambda>n. None), tab_triggers = (\<lambda>n. None)\<rparr>"

definition instruments_table :: table where
  "instruments_table = new_table
     [(''id'', req Uuid), (''asset_class'', req (Enum_Type [''EQUITY'', ''ETF'', ''FUND'', ''CRYPTO''])),
      (''name'', req (Text 256)), (''isin'', opt (Text 12)), (''figi'', opt (Text 12)),
      (''created_at'', req Date_Time), (''updated_at'', req Date_Time)]
     [(''pk_instruments'', [''id'']), (''uq_instruments_isin'', [''isin''])] [] []"

definition decisions_table :: table where
  "decisions_table = new_table
     [(''id'', req Uuid), (''source'', req (Text 64)),
      (''capability'', req (Enum_Type [''RETRIEVE'', ''STORE'', ''DISPLAY'', ''REDISTRIBUTE'', ''ATTRIBUTE'', ''RETAIN''])),
      (''version'', req Int_Type), (''status'', req (Enum_Type [''APPROVED'', ''DENIED'', ''UNRESOLVED''])),
      (''evidence_reference'', req (Text 512)), (''reviewed_by'', req (Text 128)), (''reviewed_at'', req Date_Time),
      (''notes'', opt (Text 1024)), (''created_at'', req Date_Time)]
     [(''pk_source_policy_decisions'', [''id'']),
      (''uq_source_policy_source_cap_version'', [''source'', ''capability'', ''version''])] [] []"

definition listings_table :: table where
  "listings_table = new_table
     [(''id'', req Uuid), (''instrument_id'', req Uuid), (''mic'', opt (Text 4)), (''venue'', req (Text 64)),
      (''ticker'', req (Text 32)), (''currency'', req (Text 3)), (''created_at'', req Date_Time), (''updated_at'', req Date_Time)]
     [(''pk_listings'', [''id'']), (''uq_listings_venue_ticker_ccy'', [''instrument_id'', ''venue'', ''ticker'', ''currency''])] []
     [(''fk_listings_instrument_id_instruments'', refers ''instrument_id'' ''instruments'' ''CASCADE'')]"

definition external_identities_table :: table where
  "external_identities_table = new_table
     [(''id'', req Uuid), (''listing_id'', req Uuid), (''source'', req (Text 64)), (''external_id'', req (Text 128)),
      (''valid_from'', req Date_Type), (''valid_to'', opt Date_Type), (''created_at'', req Date_Time), (''updated_at'', req Date_Time)]
     [(''pk_external_identities'', [''id'']), (''uq_external_identities_source_ext_from'', [''source'', ''external_id'', ''valid_from''])]
     [(''ck_external_identities_valid_to_after_valid_from'', ''valid_to IS NULL OR valid_to >= valid_from'')]
     [(''fk_external_identities_listing_id_listings'', refers ''listing_id'' ''listings'' ''CASCADE'')]"

definition jobs_table :: table where
  "jobs_table = new_table
     [(''id'', req Uuid), (''job_type'', req (Text 64)), (''source'', req (Text 64)), (''listing_id'', opt Uuid),
      (''status'', req (Enum_Type [''PENDING'', ''CLAIMED'', ''RUNNING'', ''WAITING_FOR_PUBLICATION'', ''DONE'', ''FAILED''])),
      (''cursor'', opt (Text 512)), (''attempt_count'', req Int_Type), (''max_attempts'', req Int_Type),
      (''next_run_at'', req Date_Time), (''claimed_by'', opt (Text 128)), (''claimed_at'', opt Date_Time),
      (''generation'', req Int_Type), (''last_error'', opt (Text 1024)), (''created_at'', req Date_Time), (''updated_at'', req Date_Time)]
     [(''pk_jobs'', [''id''])] []
     [(''fk_jobs_listing_id_listings'', refers ''listing_id'' ''listings'' ''CASCADE'')]"

definition observations_table :: table where
  "observations_table = new_table
     [(''id'', req Uuid), (''listing_id'', req Uuid), (''source'', req (Text 64)), (''credential_scope'', req (Text 64)),
      (''external_listing_id'', req (Text 128)), (''session_date'', req Date_Type),
      (''observation_type'', req (Enum_Type [''EOD_CLOSE'', ''NAV''])), (''currency'', req (Text 3)), (''close'', req (Num 20 8)),
      (''open'', opt (Num 20 8)), (''high'', opt (Num 20 8)), (''low'', opt (Num 20 8)), (''adjusted_close'', opt (Num 20 8)),
      (''quality_status'', req (Enum_Type [''OK'', ''SUSPECT''])), (''retrieved_at'', req Date_Time),
      (''is_publishable'', req Bool_Type), (''created_at'', req Date_Time)]
     [(''pk_observations'', [''id'']),
      (''uq_observations_idempotency_key'',
        [''source'', ''credential_scope'', ''external_listing_id'', ''session_date'', ''observation_type''])] []
     [(''fk_observations_listing_id_listings'', refers ''listing_id'' ''listings'' ''RESTRICT'')]"

definition upgrade_0001 :: "operation list" where
  "upgrade_0001 =
     [Create_Table ''instruments'' instruments_table,
      Create_Table ''source_policy_decisions'' decisions_table,
      Batch_Alter_Table ''source_policy_decisions'' [Create_Index ''ix_source_policy_decisions_source'' ''source''],
      Create_Table ''listings'' listings_table,
      Batch_Alter_Table ''listings'' [Create_Index ''ix_listings_instrument_id'' ''instrument_id''],
      Create_Table ''external_identities'' external_identities_table,
      Batch_Alter_Table ''external_identities'' [Create_Index ''ix_external_identities_listing_id'' ''listing_id''],
      Create_Table ''jobs'' jobs_table,
      Batch_Alter_Table ''jobs'' [Create_Index ''ix_jobs_listing_id'' ''listing_id'', Create_Index ''ix_jobs_source'' ''source'',
        Create_Index ''ix_jobs_status'' ''status''],
      Create_Table ''observations'' observations_table,
      Batch_Alter_Table ''observations'' [Create_Index ''ix_observations_listing_id'' ''listing_id'']]"

definition downgrade_0001 :: "operation list" where
  "downgrade_0001 =
     [Batch_Alter_Table ''observations'' [Drop_Index ''ix_observations_listing_id''],
      Drop_Table ''observations'',
      Batch_Alter_Table ''jobs'' [Drop_Index ''ix_jobs_status'', Drop_Index ''ix_jobs_source'', Drop_Index ''ix_jobs_listing_id''],
      Drop_Table ''jobs'',
      Batch_Alter_Table ''external_identities'' [Drop_Index ''ix_external_identities_listing_id''],
      Drop_Table ''external_identities'',
      Batch_Alter_Table ''listings'' [Drop_Index ''ix_listings_instrument_id''],
      Drop_Table ''listings'',
      Batch_Alter_Table ''source_policy_decisions'' [Drop_Index ''ix_source_policy_decisions_source''],
      Drop_Table ''source_policy_decisions'',
      Drop_Table ''instruments'']"

section \<open>Revisions 0002 to 0005\<close>

definition idempotency_columns :: "string list" where
  "idempotency_columns = [''source'', ''credential_scope'', ''external_listing_id'', ''session_date'', ''observation_type'']"

definition upgrade_0002 :: "operation list" where
  "upgrade_0002 =
     [Batch_Alter_Table ''observations'' [Drop_Unique ''uq_observations_idempotency_key'',
        Add_Column ''revision'' ((req Int_Type)\<lparr>col_default := Some ''1''\<rparr>), Set_Default ''revision'' None,
        Add_Unique ''uq_observations_idempotency_key'' (idempotency_columns @ [''revision''])],
      Batch_Alter_Table ''jobs'' [Add_Column ''dedupe_key'' ((req (Text 256))\<lparr>col_default := Some []\<rparr>)],
      Backfill_Dedupe_Keys,
      Batch_Alter_Table ''jobs'' [Set_Default ''dedupe_key'' None, Add_Unique ''uq_jobs_dedupe_key'' [''dedupe_key'']]]"

definition downgrade_0002 :: "operation list" where
  "downgrade_0002 =
     [Batch_Alter_Table ''jobs'' [Drop_Unique ''uq_jobs_dedupe_key'', Drop_Column ''dedupe_key''],
      Batch_Alter_Table ''observations'' [Drop_Unique ''uq_observations_idempotency_key'', Drop_Column ''revision'',
        Add_Unique ''uq_observations_idempotency_key'' idempotency_columns]]"

text \<open>The triggers, each with the statements that it refuses.\<close>

definition sqlite_update_trigger :: trigger where
  "sqlite_update_trigger = \<lparr>trg_events = [''UPDATE''], trg_function = None\<rparr>"

definition sqlite_delete_trigger :: trigger where
  "sqlite_delete_trigger = \<lparr>trg_events = [''DELETE''], trg_function = None\<rparr>"

definition pg_trigger :: "string \<Rightarrow> trigger" where
  "pg_trigger f = \<lparr>trg_events = [''UPDATE'', ''DELETE''], trg_function = Some f\<rparr>"

definition sqlite_observation_triggers :: "operation list" where
  "sqlite_observation_triggers =
     [Create_Trigger ''observations'' ''trg_observations_no_update'' sqlite_update_trigger,
      Create_Trigger ''observations'' ''trg_observations_no_delete'' sqlite_delete_trigger]"

fun upgrade_0003 :: "dialect \<Rightarrow> operation list" where
  "upgrade_0003 SQLITE = Batch_Alter_Table ''observations'' [Drop_Column ''is_publishable''] # sqlite_observation_triggers"
| "upgrade_0003 POSTGRESQL =
     [Batch_Alter_Table ''observations'' [Drop_Column ''is_publishable''],
      Create_Function ''fn_observations_append_only'',
      Create_Trigger ''observations'' ''trg_observations_append_only'' (pg_trigger ''fn_observations_append_only'')]"

definition restore_flag :: operation where
  "restore_flag = Batch_Alter_Table ''observations''
     [Add_Column ''is_publishable'' ((req Bool_Type)\<lparr>col_default := Some ''true''\<rparr>), Set_Default ''is_publishable'' None]"

fun downgrade_0003 :: "dialect \<Rightarrow> operation list" where
  "downgrade_0003 SQLITE =
     [Drop_Trigger_If_Exists ''observations'' ''trg_observations_no_update'',
      Drop_Trigger_If_Exists ''observations'' ''trg_observations_no_delete'', restore_flag]"
| "downgrade_0003 POSTGRESQL =
     [Drop_Trigger_If_Exists ''observations'' ''trg_observations_append_only'',
      Drop_Function_If_Exists ''fn_observations_append_only'', restore_flag]"

definition scheduler_runs_table :: table where
  "scheduler_runs_table = new_table
     [(''id'', req Uuid), (''started_at'', req Date_Time), (''finished_at'', opt Date_Time),
      (''scheduler_status'', opt (Enum_Type [''SUCCESS'', ''FAILURE''])), (''worker_status'', opt (Enum_Type [''SUCCESS'', ''FAILURE''])),
      (''error_code'', opt (Text 64))]
     [(''pk_scheduler_runs'', [''id''])] [] []"

definition upgrade_0004 :: "operation list" where
  "upgrade_0004 = [Create_Table ''scheduler_runs'' scheduler_runs_table]"

definition downgrade_0004 :: "operation list" where
  "downgrade_0004 = [Drop_Table ''scheduler_runs'']"

definition add_provenance :: operation where
  "add_provenance = Batch_Alter_Table ''observations''
     [Add_Column ''retrieval_policy_decision_id'' (opt Uuid), Add_Column ''storage_policy_decision_id'' (opt Uuid),
      Add_Foreign_Key ''fk_observations_retrieval_policy''
        (refers ''retrieval_policy_decision_id'' ''source_policy_decisions'' ''RESTRICT''),
      Add_Foreign_Key ''fk_observations_storage_policy''
        (refers ''storage_policy_decision_id'' ''source_policy_decisions'' ''RESTRICT'')]"

fun upgrade_0005 :: "dialect \<Rightarrow> operation list" where
  "upgrade_0005 SQLITE = add_provenance # sqlite_observation_triggers @
     [Create_Trigger ''source_policy_decisions'' ''trg_source_policy_decisions_no_update'' sqlite_update_trigger,
      Create_Trigger ''source_policy_decisions'' ''trg_source_policy_decisions_no_delete'' sqlite_delete_trigger]"
| "upgrade_0005 POSTGRESQL =
     [add_provenance, Create_Function ''fn_source_policy_decisions_append_only'',
      Create_Trigger ''source_policy_decisions'' ''trg_source_policy_decisions_append_only''
        (pg_trigger ''fn_source_policy_decisions_append_only'')]"

definition remove_provenance :: operation where
  "remove_provenance = Batch_Alter_Table ''observations''
     [Drop_Foreign_Key ''fk_observations_storage_policy'', Drop_Foreign_Key ''fk_observations_retrieval_policy'',
      Drop_Column ''storage_policy_decision_id'', Drop_Column ''retrieval_policy_decision_id'']"

fun downgrade_0005 :: "dialect \<Rightarrow> operation list" where
  "downgrade_0005 SQLITE =
     [Drop_Trigger_If_Exists ''source_policy_decisions'' ''trg_source_policy_decisions_no_update'',
      Drop_Trigger_If_Exists ''source_policy_decisions'' ''trg_source_policy_decisions_no_delete'', remove_provenance]
     @ sqlite_observation_triggers"
| "downgrade_0005 POSTGRESQL =
     [Drop_Trigger_If_Exists ''source_policy_decisions'' ''trg_source_policy_decisions_append_only'',
      Drop_Function_If_Exists ''fn_source_policy_decisions_append_only'', remove_provenance]"

definition upgrade :: "dialect \<Rightarrow> nat \<Rightarrow> operation list" where
  "upgrade d n = [[], upgrade_0001, upgrade_0002, upgrade_0003 d, upgrade_0004, upgrade_0005 d] ! n"

definition downgrade :: "dialect \<Rightarrow> nat \<Rightarrow> operation list" where
  "downgrade d n = [[], downgrade_0001, downgrade_0002, downgrade_0003 d, downgrade_0004, downgrade_0005 d] ! n"

definition head :: nat where
  "head = 5"

section \<open>The schema of each revision\<close>

text \<open>What the chain of revisions is meant to reach, written down table by table.\<close>

definition indexed :: "(string \<times> string) list \<Rightarrow> table \<Rightarrow> table" where
  "indexed ixs t = t\<lparr>tab_indexes := map_of ixs\<rparr>"

definition decisions_1 :: table where
  "decisions_1 = indexed [(''ix_source_policy_decisions_source'', ''source'')] decisions_table"

definition jobs_1 :: table where
  "jobs_1 = indexed [(''ix_jobs_status'', ''status''), (''ix_jobs_source'', ''source''), (''ix_jobs_listing_id'', ''listing_id'')] jobs_table"

definition observations_1 :: table where
  "observations_1 = indexed [(''ix_observations_listing_id'', ''listing_id'')] observations_table"

definition schema_1 :: schema where
  "schema_1 = \<lparr>sch_tables = map_of
     [(''instruments'', instruments_table), (''source_policy_decisions'', decisions_1),
      (''listings'', indexed [(''ix_listings_instrument_id'', ''instrument_id'')] listings_table),
      (''external_identities'', indexed [(''ix_external_identities_listing_id'', ''listing_id'')] external_identities_table),
      (''jobs'', jobs_1), (''observations'', observations_1)], sch_functions = {}\<rparr>"

definition with_tables :: "(string \<times> table) list \<Rightarrow> schema \<Rightarrow> schema" where
  "with_tables ts S = S\<lparr>sch_tables := sch_tables S ++ map_of ts\<rparr>"

definition observations_2 :: table where
  "observations_2 = observations_1\<lparr>tab_columns := (tab_columns observations_1)(''revision'' \<mapsto> req Int_Type),
     tab_uniques := (tab_uniques observations_1)(''uq_observations_idempotency_key'' \<mapsto> idempotency_columns @ [''revision''])\<rparr>"

definition jobs_2 :: table where
  "jobs_2 = jobs_1\<lparr>tab_columns := (tab_columns jobs_1)(''dedupe_key'' \<mapsto> req (Text 256)),
     tab_uniques := (tab_uniques jobs_1)(''uq_jobs_dedupe_key'' \<mapsto> [''dedupe_key''])\<rparr>"

fun append_only_triggers :: "dialect \<Rightarrow> string \<Rightarrow> (string \<rightharpoonup> trigger)" where
  "append_only_triggers SQLITE t = [''trg_'' @ t @ ''_no_update'' \<mapsto> sqlite_update_trigger,
     ''trg_'' @ t @ ''_no_delete'' \<mapsto> sqlite_delete_trigger]"
| "append_only_triggers POSTGRESQL t = [''trg_'' @ t @ ''_append_only'' \<mapsto> pg_trigger (''fn_'' @ t @ ''_append_only'')]"

definition observations_3 :: "dialect \<Rightarrow> table" where
  "observations_3 d = observations_2\<lparr>tab_columns := (tab_columns observations_2)(''is_publishable'' := None),
     tab_triggers := append_only_triggers d ''observations''\<rparr>"

definition observations_5 :: "dialect \<Rightarrow> table" where
  "observations_5 d = (observations_3 d)\<lparr>
     tab_columns := (tab_columns (observations_3 d))(''retrieval_policy_decision_id'' \<mapsto> opt Uuid,
       ''storage_policy_decision_id'' \<mapsto> opt Uuid),
     tab_foreign := (tab_foreign (observations_3 d))(
       ''fk_observations_retrieval_policy'' \<mapsto> refers ''retrieval_policy_decision_id'' ''source_policy_decisions'' ''RESTRICT'',
       ''fk_observations_storage_policy'' \<mapsto> refers ''storage_policy_decision_id'' ''source_policy_decisions'' ''RESTRICT'')\<rparr>"

definition decisions_5 :: "dialect \<Rightarrow> table" where
  "decisions_5 d = decisions_1\<lparr>tab_triggers := append_only_triggers d ''source_policy_decisions''\<rparr>"

definition functions_3 :: "dialect \<Rightarrow> string set" where
  "functions_3 d = (if d = POSTGRESQL then {''fn_observations_append_only''} else {})"

definition functions_5 :: "dialect \<Rightarrow> string set" where
  "functions_5 d = (if d = POSTGRESQL then {''fn_source_policy_decisions_append_only'', ''fn_observations_append_only''} else {})"

definition schema_2 :: schema where
  "schema_2 = with_tables [(''observations'', observations_2), (''jobs'', jobs_2)] schema_1"

definition schema_3 :: "dialect \<Rightarrow> schema" where
  "schema_3 d = with_tables [(''observations'', observations_3 d)] (schema_2\<lparr>sch_functions := functions_3 d\<rparr>)"

definition schema_4 :: "dialect \<Rightarrow> schema" where
  "schema_4 d = with_tables [(''scheduler_runs'', scheduler_runs_table)] (schema_3 d)"

definition schema_5 :: "dialect \<Rightarrow> schema" where
  "schema_5 d = with_tables [(''observations'', observations_5 d), (''source_policy_decisions'', decisions_5 d)]
     ((schema_4 d)\<lparr>sch_functions := functions_5 d\<rparr>)"

definition schema_at :: "dialect \<Rightarrow> nat \<Rightarrow> schema" where
  "schema_at d n = [no_schema, schema_1, schema_2, schema_3 d, schema_4 d, schema_5 d] ! n"

section \<open>What the batches do\<close>

lemmas batch_defs = batch_def put_def take_out_def

lemma observations_fields:
  "tab_columns observations_1 ''revision'' = None" "tab_columns observations_1 ''is_publishable'' = Some (req Bool_Type)"
  "tab_columns observations_1 ''retrieval_policy_decision_id'' = None" "tab_columns observations_1 ''storage_policy_decision_id'' = None"
  "tab_uniques observations_1 ''uq_observations_idempotency_key'' = Some idempotency_columns"
  "tab_foreign observations_1 ''fk_observations_retrieval_policy'' = None" "tab_foreign observations_1 ''fk_observations_storage_policy'' = None"
  "tab_triggers observations_1 = (\<lambda>n. None)"
  by (simp_all add: observations_1_def indexed_def observations_table_def new_table_def idempotency_columns_def)

lemma jobs_fields:
  "tab_columns jobs_1 ''dedupe_key'' = None" "tab_uniques jobs_1 ''uq_jobs_dedupe_key'' = None"
  "tab_triggers jobs_1 = (\<lambda>n. None)"
  by (simp_all add: jobs_1_def indexed_def jobs_table_def new_table_def)

lemma req_default: "(req ty\<lparr>col_default := v\<rparr>)\<lparr>col_default := None\<rparr> = req ty"
  by (simp add: req_def)

lemma observations_up_2:
  "batch d [Drop_Unique ''uq_observations_idempotency_key'',
        Add_Column ''revision'' ((req Int_Type)\<lparr>col_default := Some ''1''\<rparr>), Set_Default ''revision'' None,
        Add_Unique ''uq_observations_idempotency_key'' (idempotency_columns @ [''revision''])] observations_1 = Some observations_2"
  by (simp add: batch_defs observations_fields req_default observations_2_def)

lemma observations_down_2:
  "batch d [Drop_Unique ''uq_observations_idempotency_key'', Drop_Column ''revision'',
        Add_Unique ''uq_observations_idempotency_key'' idempotency_columns] observations_2 = Some observations_1"
  by (simp add: batch_defs observations_fields observations_2_def fun_upd_idem)

lemma fields_2:
  "tab_columns observations_2 ''is_publishable'' = Some (req Bool_Type)"
  "tab_columns observations_2 ''retrieval_policy_decision_id'' = None" "tab_columns observations_2 ''storage_policy_decision_id'' = None"
  "tab_foreign observations_2 ''fk_observations_retrieval_policy'' = None" "tab_foreign observations_2 ''fk_observations_storage_policy'' = None"
  "tab_triggers observations_2 = (\<lambda>n. None)"
  by (simp_all add: observations_2_def observations_fields)

lemma fields_3:
  "tab_columns (observations_3 d) ''is_publishable'' = None"
  "tab_columns (observations_3 d) ''retrieval_policy_decision_id'' = None" "tab_columns (observations_3 d) ''storage_policy_decision_id'' = None"
  "tab_foreign (observations_3 d) ''fk_observations_retrieval_policy'' = None" "tab_foreign (observations_3 d) ''fk_observations_storage_policy'' = None"
  "tab_triggers (observations_3 d) = append_only_triggers d ''observations''"
  by (simp_all add: observations_3_def fields_2)

lemma decisions_triggers: "tab_triggers decisions_1 = (\<lambda>n. None)"
  by (simp add: decisions_1_def indexed_def decisions_table_def new_table_def)

lemmas table_fields = observations_fields jobs_fields fields_2 fields_3 decisions_triggers

lemmas migration_defs = upgrade_0001_def downgrade_0001_def upgrade_0002_def downgrade_0002_def upgrade_0004_def downgrade_0004_def
  restore_flag_def add_provenance_def remove_provenance_def sqlite_observation_triggers_def

lemma tables_1:
  "sch_tables schema_1 ''observations'' = Some observations_1" "sch_tables schema_1 ''jobs'' = Some jobs_1"
  "sch_tables schema_1 ''source_policy_decisions'' = Some decisions_1" "sch_tables schema_1 ''scheduler_runs'' = None"
  "sch_functions schema_1 = {}"
  by (simp_all add: schema_1_def)

lemma up_1: "run_ops d upgrade_0001 no_schema = Some schema_1"
  by (simp add: migration_defs no_schema_def batch_defs)
    (auto simp: schema_1_def decisions_1_def jobs_1_def observations_1_def indexed_def new_table_def instruments_table_def
      decisions_table_def listings_table_def external_identities_table_def jobs_table_def observations_table_def fun_eq_iff)

lemma down_1: "run_ops d downgrade_0001 schema_1 = Some no_schema"
  by (simp add: migration_defs no_schema_def batch_defs schema_1_def decisions_1_def jobs_1_def observations_1_def
      indexed_def fun_eq_iff)

lemma jobs_up_2:
  "batch d [Add_Column ''dedupe_key'' ((req (Text 256))\<lparr>col_default := Some []\<rparr>)] jobs_1
     = Some (jobs_1\<lparr>tab_columns := (tab_columns jobs_1)(''dedupe_key'' \<mapsto> (req (Text 256))\<lparr>col_default := Some []\<rparr>)\<rparr>)"
  "batch d [Set_Default ''dedupe_key'' None, Add_Unique ''uq_jobs_dedupe_key'' [''dedupe_key'']]
     (jobs_1\<lparr>tab_columns := (tab_columns jobs_1)(''dedupe_key'' \<mapsto> (req (Text 256))\<lparr>col_default := Some []\<rparr>)\<rparr>) = Some jobs_2"
  by (simp_all add: batch_defs jobs_fields req_default jobs_2_def)

lemma jobs_down_2: "batch d [Drop_Unique ''uq_jobs_dedupe_key'', Drop_Column ''dedupe_key''] jobs_2 = Some jobs_1"
  by (simp add: batch_defs jobs_fields jobs_2_def fun_upd_idem)

lemma up_2: "run_ops d upgrade_0002 schema_1 = Some schema_2"
  by (simp add: migration_defs tables_1 observations_up_2 jobs_up_2 schema_2_def with_tables_def)
    (simp add: fun_eq_iff)

lemma down_2: "run_ops d downgrade_0002 schema_2 = Some schema_1"
  by (simp add: migration_defs schema_2_def with_tables_def observations_down_2 jobs_down_2 fun_upd_idem tables_1)

lemma tables_2:
  "sch_tables schema_2 ''observations'' = Some observations_2" "sch_tables schema_2 ''source_policy_decisions'' = Some decisions_1"
  "sch_tables schema_2 ''scheduler_runs'' = None" "sch_functions schema_2 = {}"
  by (simp_all add: schema_2_def with_tables_def tables_1)

lemma tables_3:
  "sch_tables (schema_3 d) ''observations'' = Some (observations_3 d)" "sch_tables (schema_3 d) ''source_policy_decisions'' = Some decisions_1"
  "sch_tables (schema_3 d) ''scheduler_runs'' = None" "sch_functions (schema_3 d) = functions_3 d"
  by (simp_all add: schema_3_def with_tables_def tables_2)

lemma tables_4:
  "sch_tables (schema_4 d) ''observations'' = Some (observations_3 d)" "sch_tables (schema_4 d) ''source_policy_decisions'' = Some decisions_1"
  "sch_functions (schema_4 d) = functions_3 d"
  by (simp_all add: schema_4_def with_tables_def tables_3)

lemma up_3: "run_ops d (upgrade_0003 d) schema_2 = Some (schema_3 d)"
  by (cases d) (simp_all add: migration_defs batch_defs tables_2 table_fields schema_3_def with_tables_def functions_3_def
      pg_trigger_def sqlite_update_trigger_def sqlite_delete_trigger_def observations_3_def)

lemma down_3: "run_ops d (downgrade_0003 d) (schema_3 d) = Some schema_2"
  by (cases d) (simp_all add: migration_defs batch_defs tables_2 table_fields schema_3_def with_tables_def functions_3_def
      observations_3_def req_default fun_upd_idem)

lemma up_4: "run_ops d upgrade_0004 (schema_3 d) = Some (schema_4 d)"
  by (simp add: migration_defs batch_defs tables_3 schema_4_def with_tables_def)

lemma down_4: "run_ops d downgrade_0004 (schema_4 d) = Some (schema_3 d)"
  by (simp add: migration_defs batch_defs schema_4_def with_tables_def tables_3 fun_upd_idem)

text \<open>On SQLite the functions stay as they are, and the triggers that a batch loses are put back.\<close>

lemma same_functions: "(schema_4 SQLITE)\<lparr>sch_functions := {}\<rparr> = schema_4 SQLITE"
  using tables_4(3) [of SQLITE] by (cases "schema_4 SQLITE") (simp add: functions_3_def)

lemma same_triggers: "(observations_5 d)\<lparr>tab_triggers := append_only_triggers d ''observations''\<rparr> = observations_5 d"
  using fields_3(6) [of d] by (cases "observations_3 d") (simp add: observations_5_def)

lemma provenance_added:
  "batch SQLITE [Add_Column ''retrieval_policy_decision_id'' (opt Uuid), Add_Column ''storage_policy_decision_id'' (opt Uuid),
      Add_Foreign_Key ''fk_observations_retrieval_policy''
        (refers ''retrieval_policy_decision_id'' ''source_policy_decisions'' ''RESTRICT''),
      Add_Foreign_Key ''fk_observations_storage_policy''
        (refers ''storage_policy_decision_id'' ''source_policy_decisions'' ''RESTRICT'')] (observations_3 d)
     = Some ((observations_5 d)\<lparr>tab_triggers := (\<lambda>n. None)\<rparr>)"
  by (simp add: batch_defs fields_3 observations_5_def)

lemma up_5_sqlite: "run_ops SQLITE (upgrade_0005 SQLITE) (schema_4 SQLITE) = Some (schema_5 SQLITE)"
  using same_triggers [of SQLITE]
  by (simp add: migration_defs provenance_added tables_4 decisions_triggers put_def schema_5_def with_tables_def functions_5_def
      sqlite_update_trigger_def sqlite_delete_trigger_def decisions_5_def fun_upd_twist same_functions)

lemma up_5: "run_ops d (upgrade_0005 d) (schema_4 d) = Some (schema_5 d)"
  by (cases d) (use up_5_sqlite in \<open>simp_all add: migration_defs batch_defs tables_4 table_fields schema_5_def with_tables_def functions_3_def
      functions_5_def pg_trigger_def observations_5_def decisions_5_def fun_upd_twist\<close>)

lemma down_5: "run_ops d (downgrade_0005 d) (schema_5 d) = Some (schema_4 d)"
  by (cases d) (simp_all add: migration_defs batch_defs tables_4 table_fields schema_5_def with_tables_def functions_3_def
      functions_5_def observations_5_def decisions_5_def fun_upd_idem sqlite_update_trigger_def sqlite_delete_trigger_def)

section \<open>Upgrading and downgrading\<close>

text \<open>The schemas that some sequence of upgrades and downgrades reaches, with their revision.\<close>

inductive migrated :: "dialect \<Rightarrow> nat \<Rightarrow> schema \<Rightarrow> bool" for d where
  start: "migrated d 0 no_schema"
| up: "migrated d n S \<Longrightarrow> n < head \<Longrightarrow> run_ops d (upgrade d (Suc n)) S = Some T \<Longrightarrow> migrated d (Suc n) T"
| down: "migrated d (Suc n) S \<Longrightarrow> run_ops d (downgrade d (Suc n)) S = Some T \<Longrightarrow> migrated d n T"

lemma below_head: "n < head \<Longrightarrow> n = 0 \<or> n = 1 \<or> n = 2 \<or> n = 3 \<or> n = 4"
  by (auto simp: head_def)

lemma step_up: "n < head \<Longrightarrow> run_ops d (upgrade d (Suc n)) (schema_at d n) = Some (schema_at d (Suc n))"
  by (drule below_head, elim disjE)
    (simp_all add: upgrade_def schema_at_def up_1 up_2 up_3 up_4 up_5 eval_nat_numeral)

lemma step_down: "n < head \<Longrightarrow> run_ops d (downgrade d (Suc n)) (schema_at d (Suc n)) = Some (schema_at d n)"
  by (drule below_head, elim disjE)
    (simp_all add: downgrade_def schema_at_def down_1 down_2 down_3 down_4 down_5 eval_nat_numeral)

lemma migrated_schema: "migrated d n S \<Longrightarrow> S = schema_at d n \<and> n \<le> head"
proof (induction rule: migrated.induct)
  case start
  then show ?case by (simp add: schema_at_def)
next
  case (up n S T)
  with step_up [of n d] show ?case by simp
next
  case (down n S T)
  with step_down [of n d] show ?case by simp
qed

text \<open>
  C39. The revisions can be applied and taken back. On both engines, whatever sequence of upgrades and
  downgrades came before: the schema is the one of its revision, the same for every history; the next
  upgrade never fails, and the downgrade after it returns exactly the schema before, with its
  columns, constraints, indexes, triggers and functions.
\<close>

theorem revisions_round_trip:
  assumes "migrated d n S" and "n < head"
  shows "(\<exists>T. run_ops d (upgrade d (Suc n)) S = Some T \<and> run_ops d (downgrade d (Suc n)) T = Some S \<and> migrated d (Suc n) T)
    \<and> {T. migrated d n T} = {S}"
proof
  from assms(1) have S: "S = schema_at d n" by (simp add: migrated_schema)
  with assms migrated.up [OF assms] step_up [of n d] step_down [of n d]
  show "\<exists>T. run_ops d (upgrade d (Suc n)) S = Some T \<and> run_ops d (downgrade d (Suc n)) T = Some S \<and> migrated d (Suc n) T"
    by auto
  from assms(1) show "{T. migrated d n T} = {S}" using migrated_schema by blast
qed

theorem revisions_round_trip_witness:
  "\<exists>T. run_ops SQLITE upgrade_0001 no_schema = Some T \<and> run_ops SQLITE downgrade_0001 T = Some no_schema"
proof -
  have "0 < head" "upgrade SQLITE (Suc 0) = upgrade_0001" "downgrade SQLITE (Suc 0) = downgrade_0001"
    by (simp_all add: head_def upgrade_def downgrade_def)
  with revisions_round_trip [OF migrated.start [of SQLITE]] show ?thesis by (simp only:) blast
qed

section \<open>The history cannot be rewritten\<close>

definition refused_events :: "schema \<Rightarrow> string \<Rightarrow> string set" where
  "refused_events S n =
     (case sch_tables S n of None \<Rightarrow> {} | Some t \<Rightarrow> (\<Union>x \<in> ran (tab_triggers t). set (trg_events x)))"

lemma refused_append_only: "(\<Union>x \<in> ran (append_only_triggers d n). set (trg_events x)) = {''UPDATE'', ''DELETE''}"
  by (cases d) (simp_all add: ran_map_upd sqlite_update_trigger_def sqlite_delete_trigger_def pg_trigger_def insert_commute)

lemma observations_5_triggers: "tab_triggers (observations_5 d) = append_only_triggers d ''observations''"
  using fields_3(6) by (simp add: observations_5_def)

lemma tables_5:
  "sch_tables (schema_5 d) ''observations'' = Some (observations_5 d)"
  "sch_tables (schema_5 d) ''source_policy_decisions'' = Some (decisions_5 d)"
  by (simp_all add: schema_5_def with_tables_def)

text \<open>
  C40. The triggers are never lost. From revision 0003 on, on both engines and after any sequence of upgrades
  and downgrades, the database refuses every \<open>UPDATE\<close> and \<open>DELETE\<close> of observations, although the
  batches of SQLite drop the triggers with the table; at the head it refuses those of policy decisions too.
\<close>

theorem append_only_enforced:
  assumes "migrated d n S" and "3 \<le> n"
  shows "refused_events S ''observations'' = {''UPDATE'', ''DELETE''}
    \<and> refused_events S ''source_policy_decisions'' = (if n = head then {''UPDATE'', ''DELETE''} else {})"
proof -
  from assms have S: "S = schema_at d n" and n: "n = 3 \<or> n = 4 \<or> n = 5"
    using migrated_schema [OF assms(1)] by (auto simp: head_def)
  from n show ?thesis
    by (elim disjE) (simp_all add: S schema_at_def refused_events_def tables_3 tables_4 tables_5 fields_3 observations_5_triggers
        decisions_triggers decisions_5_def refused_append_only head_def eval_nat_numeral)
qed

lemma reaches_head: "n \<le> head \<Longrightarrow> migrated d n (schema_at d n)"
proof (induction n)
  case 0
  then show ?case using migrated.start by (simp add: schema_at_def)
next
  case (Suc n)
  then show ?case by (intro migrated.up [OF _ _ step_up]) auto
qed

theorem append_only_enforced_witness:
  "refused_events (schema_at SQLITE head) ''source_policy_decisions'' = {''UPDATE'', ''DELETE''}"
  using append_only_enforced [OF reaches_head [of head SQLITE]] by (simp add: head_def)

text \<open>The unique constraints at the head are the keys that the insertions of the model check.\<close>

lemma head_uniques:
  "tab_uniques (observations_5 d) ''uq_observations_idempotency_key'' = Some (idempotency_columns @ [''revision''])"
  "tab_uniques jobs_2 ''uq_jobs_dedupe_key'' = Some [''dedupe_key'']"
  by (simp_all add: observations_5_def observations_3_def observations_2_def jobs_2_def)

section \<open>Backfilled keys\<close>

text \<open>\<open>cast\<close> is the engine's text of a \<open>Uuid\<close>; a row is an identifier and its dedupe key.\<close>

definition backfill :: "(uuid \<Rightarrow> string) \<Rightarrow> (uuid \<times> string) list \<Rightarrow> (uuid \<times> string) list" where
  "backfill cast rows = update_where (\<lambda>(i, k). k = []) (\<lambda>(i, k). (i, ''legacy-job:'' @ cast i)) rows"

lemma backfilled_keys_unique:
  assumes "inj cast" and "distinct ids"
  shows "distinct (map snd (backfill cast (map (\<lambda>i. (i, [])) ids)))"
proof -
  have "backfill cast (map (\<lambda>i. (i, [])) ids) = map (\<lambda>i. (i, ''legacy-job:'' @ cast i)) ids"
    by (simp add: backfill_def update_where_def)
  moreover have "inj_on (\<lambda>i. ''legacy-job:'' @ cast i) (set ids)" using assms(1) by (simp add: inj_on_def inj_def)
  ultimately show ?thesis using assms(2) by (simp add: distinct_map o_def)
qed

end
