(* ===== verification/Entrypoints.thy ===== *)
theory Entrypoints
  imports Cycle Api Migrations
begin

text \<open>
  The processes of the service around their sessions: the engines and factories of \<open>db/session.py\<close>, the
  application's shared state (\<open>api/app.py\<close>, \<open>api/deps.py\<close>), \<open>entrypoints/scheduler.py\<close> with what it logs,
  and \<open>db/migrations/env.py\<close>, which decides where and how the migrations run.
\<close>

section \<open>Engines and session factories\<close>

record engine_spec =
  eng_url :: string
  eng_connect_args :: "(string \<times> bool) list"

record session_factory =
  fac_engine :: engine_spec
  fac_autoflush :: bool
  fac_expire_on_commit :: bool

definition create_engine_from_settings :: "settings \<Rightarrow> engine_spec" where
  "create_engine_from_settings st =
     \<lparr>eng_url = database_url st, eng_connect_args = (if is_sqlite st then [(''check_same_thread'', False)] else [])\<rparr>"

definition build_session_factory :: "engine_spec \<Rightarrow> session_factory" where
  "build_session_factory e = \<lparr>fac_engine = e, fac_autoflush = False, fac_expire_on_commit = False\<rparr>"

section \<open>The state of the application\<close>

record app_state =
  app_settings :: settings
  app_credentials :: "consumer_credential list"
  app_factory :: "session_factory option"

definition create_app :: "settings \<Rightarrow> app_state" where
  "create_app st = \<lparr>app_settings = st, app_credentials = build_consumer_credentials st, app_factory = None\<rparr>"

text \<open>The factory from which the session of a request comes, built by the first request that needs one.\<close>

definition get_db :: "app_state \<Rightarrow> session_factory \<times> app_state" where
  "get_db a = (case app_factory a of
     None \<Rightarrow> (let f = build_session_factory (create_engine_from_settings (app_settings a)) in (f, a\<lparr>app_factory := Some f\<rparr>))
   | Some f \<Rightarrow> (f, a))"

text \<open>The application's state after a request that is let through: only \<open>/health\<close> does without a session.\<close>

definition after_request :: "request \<Rightarrow> app_state \<Rightarrow> app_state" where
  "after_request r a = (if r = Health then a else snd (get_db a))"

lemma one_factory:
  "app_factory (fold after_request reqs (create_app st)) =
     (if set reqs \<subseteq> {Health} then None else Some (build_session_factory (create_engine_from_settings st)))"
proof -
  let ?f = "build_session_factory (create_engine_from_settings st)"
  have kept: "fold after_request rs a = a" if "app_factory a = Some f" for rs a f
    using that by (induction rs) (simp_all add: after_request_def get_db_def)
  show ?thesis
  proof (induction reqs)
    case (Cons r rs)
    show ?case
    proof (cases "r = Health")
      case False
      then have "after_request r (create_app st) = (create_app st)\<lparr>app_factory := Some ?f\<rparr>"
        by (simp add: after_request_def get_db_def create_app_def Let_def)
      with False kept show ?thesis by simp
    qed (use Cons.IH in \<open>simp add: after_request_def\<close>)
  qed (simp add: create_app_def)
qed

section \<open>The scheduler process\<close>

datatype log_level = INFO | WARNING

type_synonym log_record = "log_level \<times> string"

text \<open>\<open>%d\<close> of an integer.\<close>

definition format_int :: "int \<Rightarrow> string" where
  "format_int i = (if i < 0 then ''-'' @ str_nat (nat (- i)) else str_nat (nat i))"

definition started_record :: "settings \<Rightarrow> log_record" where
  "started_record st = (INFO,
     ''market-relay-scheduler started (environment='' @ environment_value (environment st)
     @ '', sources='' @ join '','' (enabled_sources st)
     @ '', batch='' @ format_int (scheduler_batch_size st) @ '')'')"

definition completed_record :: "scheduler_cycle_result \<Rightarrow> log_record" where
  "completed_record r = (INFO,
     ''market-relay-scheduler completed: listings_considered='' @ str_nat (listings_considered (refreshed_part r))
     @ '' jobs_enqueued='' @ str_nat (jobs_enqueued (refreshed_part r))
     @ '' jobs_claimed='' @ str_nat (jobs_claimed (processed_part r))
     @ '' done='' @ str_nat (jobs_done (processed_part r))
     @ '' waiting_for_publication='' @ str_nat (jobs_waiting (processed_part r))
     @ '' deferred_for_quota='' @ str_nat (jobs_deferred_quota (processed_part r))
     @ '' retrying='' @ str_nat (jobs_retrying (processed_part r))
     @ '' failed_terminal='' @ str_nat (jobs_failed_terminal (processed_part r)))"

definition error_record :: "string \<Rightarrow> log_record" where
  "error_record error = (WARNING, ''market-relay-scheduler: isolated failure during refresh: '' @ error)"

text \<open>
  \<open>run\<close>: the records in the order of the log, with what the run raises or returns. An exception passes
  the log by; only the engine is disposed of.
\<close>

definition scheduler_log :: "settings \<Rightarrow> exn + scheduler_cycle_result \<Rightarrow> log_record list" where
  "scheduler_log st x = started_record st # (case x of
     Inl e \<Rightarrow> []
   | Inr r \<Rightarrow> completed_record r # map error_record (refresh_errors (refreshed_part r)))"

definition scheduler_main :: "'q deployment \<Rightarrow> settings \<Rightarrow> datetime \<Rightarrow> 'q rt \<Rightarrow> log_record list \<times> (exn + unit) \<times> 'q rt" where
  "scheduler_main D st now rt =
     (case run_scheduler D st now rt of (x, rt') \<Rightarrow> (scheduler_log st x, map_sum id (\<lambda>_. ()) x, rt'))"

section \<open>What a refresh reports\<close>

text \<open>The errors of a refresh are names of enabled sources with a code of the closed set.\<close>

definition reported :: "string list \<Rightarrow> string \<Rightarrow> bool" where
  "reported sources text1 \<longleftrightarrow>
     (\<exists>source \<in> set sources. \<exists>code \<in> {UNKNOWN_SOURCE, PROVIDER_TIMEOUT, ADAPTER_ERROR}. text1 = source @ '': '' @ code)"

lemma reported_error: "source \<in> set sources \<Longrightarrow> reported sources (refresh_error source e)"
  using adapter_error_code_closed [of e] by (auto simp: reported_def refresh_error_def)

lemma identities_reported:
  "refresh_identities D st limits now source xs oc s = (oc', t) \<Longrightarrow> source \<in> set sources
    \<Longrightarrow> list_all (reported sources) (refresh_errors oc) \<Longrightarrow> list_all (reported sources) (refresh_errors oc')"
proof (induction xs arbitrary: oc s)
  case (Cons x xs)
  then show ?case
    by (auto simp: Let_def note_error_def reported_error split: option.splits prod.splits sum.splits)
qed simp

lemma sources_reported:
  "refresh_sources D st limits n now sources oc s = (Inr oc', t) \<Longrightarrow> set sources \<subseteq> set known
    \<Longrightarrow> list_all (reported known) (refresh_errors oc) \<Longrightarrow> list_all (reported known) (refresh_errors oc')"
proof (induction sources arbitrary: oc s)
  case (Cons source rest)
  then show ?case
    by (auto simp: note_error_def reported_error split: option.splits prod.splits sum.splits
        dest: identities_reported [where sources = known])
qed simp

lemma cycle_reported:
  assumes "run_scheduler D st now rt = (Inr r, rt')"
  shows "list_all (reported (enabled_sources st)) (refresh_errors (refreshed_part r))"
proof -
  obtain rt0 oc s where "refresh_and_dispatch D st None max_listings_refreshed_per_source now rt0 = (Inr oc, s)" "refreshed_part r = oc"
    using assms
    by (auto simp: run_scheduler_def session_scope_def run_scheduler_cycle_def andthen_def refresh_phase_def in_session_def
        processing_phase_def split: prod.splits sum.splits)
  then show ?thesis
    using sources_reported [of D st None max_listings_refreshed_per_source now "enabled_sources st" no_refresh rt0 oc s "enabled_sources st"]
    by (simp add: refresh_and_dispatch_def no_refresh_def)
qed

section \<open>The Alembic environment\<close>

text \<open>
  The option \<open>sqlalchemy.url\<close> of the configuration file wins over the settings when it is there and not
  empty. A configured context has the address or a connection to it, and how migrations are rendered.
  \<open>backend\<close> is the library's reading of an address (\<open>URL.get_backend_name\<close>).
\<close>

definition migration_url :: "string option \<Rightarrow> settings \<Rightarrow> string" where
  "migration_url override st = (case override of Some u \<Rightarrow> if u = [] then database_url st else u | None \<Rightarrow> database_url st)"

record migration_context =
  ctx_url :: string
  ctx_connected :: bool
  ctx_literal_binds :: bool
  ctx_paramstyle :: "string option"
  ctx_render_as_batch :: bool

definition run_migrations_offline :: "string option \<Rightarrow> settings \<Rightarrow> migration_context" where
  "run_migrations_offline override st =
     (let url = migration_url override st
      in \<lparr>ctx_url = url, ctx_connected = False, ctx_literal_binds = True, ctx_paramstyle = Some ''named'',
          ctx_render_as_batch = starts_with ''sqlite://'' url\<rparr>)"

definition online_section :: "(string \<rightharpoonup> string) option \<Rightarrow> string option \<Rightarrow> settings \<Rightarrow> string \<rightharpoonup> string" where
  "online_section section override st =
     (case section of None \<Rightarrow> (\<lambda>k. None) | Some m \<Rightarrow> m)(''sqlalchemy.url'' \<mapsto> migration_url override st)"

definition run_migrations_online :: "(string \<Rightarrow> string) \<Rightarrow> string option \<Rightarrow> settings \<Rightarrow> migration_context" where
  "run_migrations_online backend override st =
     (let url = migration_url override st
      in \<lparr>ctx_url = url, ctx_connected = True, ctx_literal_binds = False, ctx_paramstyle = None,
          ctx_render_as_batch = (backend url = ''sqlite'')\<rparr>)"

definition migration_environment :: "(string \<Rightarrow> string) \<Rightarrow> bool \<Rightarrow> string option \<Rightarrow> settings \<Rightarrow> migration_context" where
  "migration_environment backend offline override st =
     (if offline then run_migrations_offline override st else run_migrations_online backend override st)"

text \<open>An address is a dialect, perhaps a driver after a plus sign, and what follows \<open>://\<close>.\<close>

definition dialect_of_url :: "string \<Rightarrow> string" where
  "dialect_of_url url = takeWhile (\<lambda>c. c \<noteq> CHR ''+'' \<and> c \<noteq> CHR '':'') url"

lemma dialect_of_sqlite: "starts_with ''sqlite://'' url \<Longrightarrow> dialect_of_url url = ''sqlite''"
  by (auto simp: starts_with_iff dialect_of_url_def)

text \<open>
  Without an override both modes work on the database of the settings, and render in batches exactly when
  that is a SQLite file.
\<close>

theorem migrations_use_settings:
  assumes "database_url_ok (database_url st)" and "\<And>url. backend url = dialect_of_url url" and "override \<in> {None, Some []}"
  shows "ctx_url (migration_environment backend offline override st) = database_url st
    \<and> ctx_render_as_batch (migration_environment backend offline override st) = is_sqlite st"
proof -
  have url: "migration_url override st = database_url st" using assms(3) by (auto simp: migration_url_def)
  have "dialect_of_url (database_url st) = ''sqlite'' \<longleftrightarrow> starts_with ''sqlite://'' (database_url st)"
    using assms(1) by (auto simp: database_url_ok_def starts_with_iff dialect_of_url_def)
  with assms(2) url show ?thesis
    by (simp add: migration_environment_def run_migrations_offline_def run_migrations_online_def Let_def is_sqlite_def)
qed

text \<open>An override can name another database, and a driver makes the two modes disagree.\<close>

theorem override_diverges:
  "ctx_url (migration_environment dialect_of_url offline (Some ''sqlite+pysqlite:///other.db'') default_settings)
     \<noteq> database_url default_settings
   \<and> \<not> ctx_render_as_batch (migration_environment dialect_of_url True (Some ''sqlite+pysqlite:///other.db'') default_settings)
   \<and> ctx_render_as_batch (migration_environment dialect_of_url False (Some ''sqlite+pysqlite:///other.db'') default_settings)"
  by (simp add: migration_environment_def run_migrations_offline_def run_migrations_online_def migration_url_def
      default_settings_def starts_with_def dialect_of_url_def Let_def)

end
