(* ===== verification/Disclosure.thy ===== *)
theory Disclosure
  imports Entrypoints
begin

text \<open>
  What an adapter says in an exception stays with the adapter (\<open>domain/ingestion/error_codes.py\<close>): two
  deployments whose calendars and quota ports raise exceptions of the same code, whatever their text, run
  alike. The relation is on exceptions; it is lifted to actions, and every operation that a cycle uses
  keeps it.
\<close>

section \<open>Exceptions of the same code\<close>

definition same_code :: "exn \<Rightarrow> exn \<Rightarrow> bool" where
  "same_code e e' \<longleftrightarrow> adapter_error_code e = adapter_error_code e'
     \<and> (\<forall>k. e = StaleJobClaimError k \<longleftrightarrow> e' = StaleJobClaimError k)"

fun same_answer :: "exn + 'a \<Rightarrow> exn + 'a \<Rightarrow> bool" where
  "same_answer (Inl e) (Inl e') \<longleftrightarrow> same_code e e'"
| "same_answer (Inr x) (Inr y) \<longleftrightarrow> x = y"
| "same_answer _ _ \<longleftrightarrow> False"

lemma same_code_refl [simp]: "same_code e e"
  by (simp add: same_code_def)

lemma same_answer_refl [simp]: "same_answer x x"
  by (cases x) simp_all

lemma same_answer_cases:
  assumes "same_answer x y"
  obtains (failed) e e' where "x = Inl e" "y = Inl e'" "same_code e e'" | (fine) v where "x = Inr v" "y = Inr v"
  using assms by (cases x; cases y) auto

definition alike :: "(exn, 's, 'a) act \<Rightarrow> (exn, 's, 'a) act \<Rightarrow> bool" where
  "alike m n \<longleftrightarrow> (\<forall>s. same_answer (fst (m s)) (fst (n s)) \<and> snd (m s) = snd (n s))"

lemma alike_refl [simp]: "alike m m"
  by (simp add: alike_def)

lemma alike_andthen:
  assumes "alike m n" and "\<And>x. alike (f x) (g x)"
  shows "alike (andthen m f) (andthen n g)"
  unfolding alike_def
proof
  fix s
  obtain x t where m: "m s = (x, t)" by fastforce
  with assms(1) obtain y where n: "n s = (y, t)" "same_answer x y" unfolding alike_def by (metis fst_conv snd_conv surjective_pairing)
  from n(2) show "same_answer (fst (andthen m f s)) (fst (andthen n g s)) \<and> snd (andthen m f s) = snd (andthen n g s)"
    using assms(2) m n(1) by (cases rule: same_answer_cases) (auto simp: andthen_def alike_def)
qed

lemma alike_at: "alike m n \<Longrightarrow> same_answer (fst (m s)) (fst (n s)) \<and> snd (m s) = snd (n s)"
  by (simp add: alike_def)

lemma alike_cases:
  assumes "alike m n"
  obtains (failed) e e' t where "m s = (Inl e, t)" "n s = (Inl e', t)" "same_code e e'" | (fine) v t where "m s = (Inr v, t)" "n s = (Inr v, t)"
  using alike_at [OF assms, of s] by (cases "m s"; cases "n s") (auto elim: same_answer_cases)

section \<open>Adapters with other texts\<close>

text \<open>\<open>m\<close> rewrites the exceptions of the adapters that run in the process of the service.\<close>

definition keeps_codes :: "(exn \<Rightarrow> exn) \<Rightarrow> bool" where
  "keeps_codes m \<longleftrightarrow> (\<forall>e. same_code e (m e))"

definition reworded_calendar :: "(exn \<Rightarrow> exn) \<Rightarrow> calendar \<Rightarrow> calendar" where
  "reworded_calendar m cal = (\<lambda>ac venue mic a b. map_sum m id (cal ac venue mic a b))"

definition reworded_quota :: "(exn \<Rightarrow> exn) \<Rightarrow> 'q quota_port \<Rightarrow> 'q quota_port" where
  "reworded_quota m q = \<lparr>quota_check = (\<lambda>source b. map_sum m id (quota_check q source b)),
     quota_consume = (\<lambda>source cost b. map_prod (map_sum m id) id (quota_consume q source cost b))\<rparr>"

definition reworded :: "(exn \<Rightarrow> exn) \<Rightarrow> 'q deployment \<Rightarrow> 'q deployment" where
  "reworded m D = D\<lparr>adapters := (adapters D)\<lparr>
     calendar_adapters := map (\<lambda>(k, c). (k, reworded_calendar m c)) (calendar_adapters (adapters D)),
     quota_adapters := map (\<lambda>(k, q). (k, reworded_quota m q)) (quota_adapters (adapters D))\<rparr>\<rparr>"

lemma reworded_fields [simp]:
  "routes (reworded m D) = routes D" "pipe_size (reworded m D) = pipe_size D" "concurrently (reworded m D) = concurrently D"
  "numeric_column (reworded m D) = numeric_column D" "rival_rows (reworded m D) = rival_rows D"
  "lock_failures (reworded m D) = lock_failures D" "query_fails (reworded m D) = query_fails D"
  by (simp_all add: reworded_def)

lemma reworded_answer [simp]: "keeps_codes m \<Longrightarrow> same_answer r (map_sum m id r)"
  by (cases r) (simp_all add: keeps_codes_def)

lemma map_of_reworded: "map_of (map (\<lambda>(k, c). (k, f c)) xs) k = map_option f (map_of xs k)"
  by (induction xs) auto

lemma get_port_reworded: "get_port (map (\<lambda>(k, c). (k, f c)) xs) k cap = map_sum id f (get_port xs k cap)"
  by (simp add: get_port_def map_of_reworded split: option.split)

lemma reworded_ports: "ports_of (reworded m D) source = map_sum id (map_prod id (reworded_quota m)) (ports_of D source)"
  by (simp add: ports_of_def reworded_def get_historical_price_port_def get_quota_port_def get_port_reworded split: sum.split)

lemma reworded_get_calendar:
  "get_calendar_for_listing (routes D) (adapters (reworded m D)) mic venue
     = map_sum id (reworded_calendar m) (get_calendar_for_listing (routes D) (adapters D) mic venue)"
  by (simp add: get_calendar_for_listing_def get_calendar_port_def reworded_def get_port_reworded split: option.split)

section \<open>The refresh\<close>

lemma plan_reworded:
  assumes "keeps_codes m"
  shows "same_answer (plan cal limits ac venue mic last_done today) (plan (reworded_calendar m cal) limits ac venue mic last_done today)"
proof (cases "today < plan_start limits last_done today")
  case False
  then show ?thesis
    using assms by (cases "cal ac venue mic (plan_start limits last_done today) today")
      (simp_all add: plan_def reworded_calendar_def keeps_codes_def)
qed (simp add: plan_def)

lemma dispatch_reworded:
  assumes "keeps_codes m"
  shows "alike (dispatch_identity D st limits now source x l) (dispatch_identity (reworded m D) st limits now source x l)"
  unfolding alike_def
proof
  fix s
  have "alike (plan_and_enqueue cal d) (plan_and_enqueue (reworded_calendar m cal) d)" for cal d
    using plan_reworded [OF assms, of cal "dsp_limits d" "dsp_asset_class d" "dsp_venue d" "dsp_mic d" "dsp_last_completed d" "dsp_today d"]
    by (rule same_answer_cases) (simp_all add: plan_and_enqueue_def alike_def throw_def)
  from alike_at [OF this, of _ _ s]
  show "same_answer (fst (dispatch_identity D st limits now source x l s))
      (fst (dispatch_identity (reworded m D) st limits now source x l s))
    \<and> snd (dispatch_identity D st limits now source x l s) = snd (dispatch_identity (reworded m D) st limits now source x l s)"
    by (simp add: dispatch_identity_def reworded_get_calendar split: sum.split)
qed

lemma refresh_identities_reworded:
  assumes "keeps_codes m"
  shows "refresh_identities (reworded m D) st limits now source xs oc s = refresh_identities D st limits now source xs oc s"
proof (induction xs arbitrary: oc s)
  case (Cons x xs)
  show ?case
  proof (cases "get_listing (xid_listing_id x) s")
    case (Some l)
    from dispatch_reworded [OF assms, of D st limits now source x l] Some show ?thesis
      by (cases rule: alike_cases [where s = s]) (auto simp: Let_def Cons.IH note_error_def refresh_error_def same_code_def)
  qed (simp add: Let_def Cons.IH)
qed simp

lemma refresh_reworded:
  assumes "keeps_codes m"
  shows "refresh_and_dispatch (reworded m D) st limits n now = refresh_and_dispatch D st limits n now"
proof -
  have "refresh_sources (reworded m D) st limits n now sources oc s = refresh_sources D st limits n now sources oc s" for sources oc s
    by (induction sources arbitrary: oc s)
      (simp_all add: reworded_ports refresh_identities_reworded [OF assms] split: sum.split option.split prod.split)
  then show ?thesis by (simp add: refresh_and_dispatch_def fun_eq_iff)
qed

section \<open>The processing of jobs\<close>

definition reworded_runner :: "(exn \<Rightarrow> exn) \<Rightarrow> 'q runner \<Rightarrow> 'q runner" where
  "reworded_runner m R = R\<lparr>quota := reworded_quota m (quota R)\<rparr>"

lemma reworded_runner_fields [simp]:
  "quota (reworded_runner m R) = reworded_quota m (quota R)" "provider (reworded_runner m R) = provider R"
  "timeout_seconds (reworded_runner m R) = timeout_seconds R" "pipe_capacity (reworded_runner m R) = pipe_capacity R"
  "meanwhile (reworded_runner m R) = meanwhile R" "column (reworded_runner m R) = column R"
  "other_writers (reworded_runner m R) = other_writers R" "locks (reworded_runner m R) = locks R"
  by (simp_all add: reworded_runner_def)

lemma runner_reworded: "runner_for (reworded m D) st (map_prod id (reworded_quota m) ports) = reworded_runner m (runner_for D st ports)"
  by (simp add: runner_for_def reworded_runner_def)

lemma store_rows_reworded: "store_rows (reworded_runner m R) j c auth now raws k l s = store_rows R j c auth now raws k l s"
  by (induction raws arbitrary: k l s) (simp_all add: store_rows.simps(2) split: sum.split prod.split exn.split option.split)

lemma fetch_reworded:
  assumes "keeps_codes m"
  shows "alike (fetch_and_store R i w g now c auth) (fetch_and_store (reworded_runner m R) i w g now c auth)"
proof -
  have "alike (consume_quota R source) (consume_quota (reworded_runner m R) source)" for source
    using assms by (simp add: alike_def consume_quota_def reworded_quota_def map_prod_def split: prod.split)
  moreover have "store_rows (reworded_runner m R) j c auth now raws 0 0 = store_rows R j c auth now raws 0 0" for j raws
    using store_rows_reworded by blast
  ultimately have "alike (store_answer R i w g now c auth raws) (store_answer (reworded_runner m R) i w g now c auth raws)" for raws
    unfolding store_answer_def by (simp add: alike_andthen)
  moreover have "call_provider (reworded_runner m R) c = call_provider R c"
    by (simp add: call_provider_def fun_eq_iff)
  ultimately show ?thesis
    by (simp add: alike_def fetch_and_store_def split: prod.split sum.split)
qed

lemma process_reworded:
  assumes "keeps_codes m"
  shows "alike (process R i w at1) (process (reworded_runner m R) i w at1)"
proof -
  have check: "alike (check_quota R j w now c auth) (check_quota (reworded_runner m R) j w now c auth)" for j now c auth
    unfolding alike_def
  proof
    fix rt
    let ?go = "\<lambda>R. andthen (transition (job_id j) (mark_running j w (generation j)))
        (\<lambda>_. fetch_and_store R (job_id j) w (generation j) now c auth)"
    have "alike (?go R) (?go (reworded_runner m R))" by (intro alike_andthen fetch_reworded assms alike_refl)
    from alike_at [OF this, of rt] assms
    show "same_answer (fst (check_quota R j w now c auth rt)) (fst (check_quota (reworded_runner m R) j w now c auth rt))
      \<and> snd (check_quota R j w now c auth rt) = snd (check_quota (reworded_runner m R) j w now c auth rt)"
      by (cases "quota_check (quota R) (job_source j) (rt_quota rt)")
        (simp_all add: check_quota_def reworded_quota_def keeps_codes_def)
  qed
  have "alike (authorize_and_parse R j w now) (authorize_and_parse (reworded_runner m R) j w now)" for j now
    using alike_at [OF check] unfolding alike_def authorize_and_parse_def
    by (auto split: sum.split exn.split)
  moreover have "claim_pending (reworded_runner m R) = claim_pending R" by (simp add: claim_pending_def fun_eq_iff)
  ultimately have "alike (andthen (the_job i) (\<lambda>j0. andthen (claim_pending R j0 w now) (\<lambda>j. authorize_and_parse R j w now)))
      (andthen (the_job i) (\<lambda>j0. andthen (claim_pending (reworded_runner m R) j0 w now) (\<lambda>j. authorize_and_parse (reworded_runner m R) j w now)))"
    for now by (simp add: alike_andthen)
  from alike_at [OF this] show ?thesis by (simp add: alike_def process_def Let_def)
qed

lemma process_one_reworded:
  assumes "keeps_codes m"
  shows "alike (process_one D st w now i) (process_one (reworded m D) st w now i)"
proof -
  have "alike (case ports_of D source of Inl e \<Rightarrow> throw e | Inr ports \<Rightarrow> process (runner_for D st ports) i w (Some now))
      (case ports_of (reworded m D) source of Inl e \<Rightarrow> throw e | Inr ports \<Rightarrow> process (runner_for (reworded m D) st ports) i w (Some now))" for source
    by (cases "ports_of D source") (simp_all add: reworded_ports runner_reworded process_reworded [OF assms])
  then show ?thesis unfolding process_one_def by (intro alike_andthen alike_refl)
qed

lemma step_reworded:
  assumes "keeps_codes m"
  shows "process_step (reworded m D) st w now i oc = process_step D st w now i oc"
proof
  fix rt
  from process_one_reworded [OF assms, of D st w now i]
  show "process_step (reworded m D) st w now i oc rt = process_step D st w now i oc rt"
    by (cases rule: alike_cases [where s = rt])
      (auto simp: process_step_def same_code_def isolate_failure_def split: exn.split)
qed

lemma batch_reworded:
  assumes "keeps_codes m"
  shows "claim_and_process (reworded m D) st w now n = claim_and_process D st w now n"
proof -
  have "process_each (reworded m D) st w now is oc = process_each D st w now is oc" for "is" oc
    by (induction "is" arbitrary: oc) (simp_all add: step_reworded [OF assms] andthen_def fun_eq_iff split: prod.split sum.split)
  then show ?thesis by (simp add: claim_and_process_def claim_batch_def)
qed

section \<open>The run\<close>

text \<open>
  C11. What an adapter says in an exception leaves no trace. A run of the scheduler does the same, in the
  database and in what it returns or raises, and writes the same log, whatever the calendars and quota
  ports put into their exceptions: only the code of an exception counts. And the log holds, beside the
  settings and the counters, nothing but names of enabled sources with codes of the closed set.
\<close>

theorem adapter_texts_leave_no_trace:
  assumes "keeps_codes m"
  shows "scheduler_main (reworded m D) st now rt = scheduler_main D st now rt
    \<and> (\<forall>entry \<in> set (fst (scheduler_main D st now rt)). entry = started_record st \<or> (\<exists>r. entry = completed_record r)
         \<or> (\<exists>error. entry = error_record error \<and> reported (enabled_sources st) error))"
proof
  have "refresh_phase (reworded m D) = refresh_phase D"
    by (simp add: refresh_phase_def refresh_reworded [OF assms] fun_eq_iff)
  moreover have "processing_phase (reworded m D) = processing_phase D"
    by (simp add: processing_phase_def batch_reworded [OF assms] fun_eq_iff)
  ultimately show "scheduler_main (reworded m D) st now rt = scheduler_main D st now rt"
    by (simp add: scheduler_main_def run_scheduler_def run_scheduler_cycle_def session_scope_def)
  obtain x rt' where run: "run_scheduler D st now rt = (x, rt')" by fastforce
  then show "\<forall>entry \<in> set (fst (scheduler_main D st now rt)). entry = started_record st \<or> (\<exists>r. entry = completed_record r)
      \<or> (\<exists>error. entry = error_record error \<and> reported (enabled_sources st) error)"
    using cycle_reported [of D st now rt _ rt']
    by (cases x) (auto simp: scheduler_main_def scheduler_log_def list_all_iff)
qed

text \<open>A quota port and a calendar that tell a key when they fail, and a rewriting that takes it out.\<close>

definition telling_deployment :: "quota_book deployment" where
  "telling_deployment = demo_deployment\<lparr>adapters := fake_registries () (\<lambda>n ext a b. Returned (fake_fetch_range (\<lambda>seed. 0) ext a b) 0 100)
     (\<lambda>ac venue mic a b. Inl (ForeignError ''key=k1''))
     \<lparr>quota_check = (\<lambda>source b. Inl (ForeignError ''key=k1'')), quota_consume = quota_consume fake_quota\<rparr>\<rparr>"

fun silent :: "exn \<Rightarrow> exn" where
  "silent (ForeignError text1) = ForeignError []"
| "silent e = e"

theorem adapter_texts_leave_no_trace_witness:
  "scheduler_main (reworded silent telling_deployment) default_settings crypto_now crypto_rt
     = scheduler_main telling_deployment default_settings crypto_now crypto_rt
   \<and> reworded silent telling_deployment \<noteq> telling_deployment"
proof
  have "keeps_codes silent"
    unfolding keeps_codes_def
  proof
    fix e show "same_code e (silent e)" by (cases e) (simp_all add: same_code_def)
  qed
  from adapter_texts_leave_no_trace [OF this]
  show "scheduler_main (reworded silent telling_deployment) default_settings crypto_now crypto_rt
     = scheduler_main telling_deployment default_settings crypto_now crypto_rt" by blast
  have "map_of (quota_adapters (adapters (reworded silent telling_deployment))) fake_source
      \<noteq> map_of (quota_adapters (adapters telling_deployment)) fake_source"
    by (simp add: reworded_def telling_deployment_def fake_registries_def reworded_quota_def fun_eq_iff)
  then show "reworded silent telling_deployment \<noteq> telling_deployment" by metis
qed

end
