(* ===== verification/Spec2Isabelle.thy ===== *)
theory Spec2Isabelle
  imports Queue_Trace Delivery Disclosure
begin

text \<open>
  Market Relay is a relay of end-of-day market observations: a scheduler fetches prices from providers
  into an append-only store, a policy registry decides what may be fetched, stored and published, and
  an authenticated API answers from the store. This development models the Python package
  \<open>src/src/market_relay\<close>; file names below are relative to it.

  \<^bold>\<open>How the program fits together.\<close> One run of the scheduler (\<open>entrypoints/scheduler.py\<close>) is one cycle of
  \<open>domain/ingestion/scheduler_service.py\<close>. Its refresh phase takes the external identities of each
  enabled source, asks the calendar of the listing which sessions are missing (\<open>planning.py\<close>) and
  enqueues one job per chunk of them, and one for the dates not yet published (\<open>dispatch.py\<close>). Its
  processing phase claims a batch from the queue (\<open>queue.py\<close>) and runs each job (\<open>runner.py\<close>): policy,
  quota, the provider in a child process with a deadline (\<open>provider_execution.py\<close>), validation
  (\<open>validation.py\<close>), and the store (\<open>domain/observations/service.py\<close>). The API (\<open>api/\<close>) authenticates
  the consumer, selects among the sources that may be published (\<open>selection.py\<close>) and answers for one
  date, the latest, a range, or with a status. All parts meet in one database through SQLAlchemy
  sessions.

  \<^bold>\<open>The state.\<close> A table is the list of its rows (\<open>Models\<close>), each a record with the columns of the ORM
  class. A session holds the database as it sees it (\<open>work\<close>), the database as last committed
  (\<open>durable\<close>), the clock and the source of identifiers. A method is a function from a session to an
  exception or a value and the session after it (\<open>'a py\<close>; \<open>('q, 'a) run\<close> where the quota port and the
  loaded objects belong to the state). Exceptions are the constructors of \<open>exn\<close>, and every \<open>raise\<close>,
  \<open>except\<close> and early return of the code is a branch of the model.

  \<^bold>\<open>The theories.\<close>
  \<^item> \<open>Prelude\<close>, \<open>Text\<close>, \<open>Dates\<close>: calls, SQL statements over one table, dictionaries; \<open>str\<close> operations; dates
    with CPython's conversions and the round trip of the ISO format.
  \<^item> \<open>Models\<close>: \<open>domain/*/models.py\<close>, the database and the session. \<open>Settings\<close>: \<open>config/settings.py\<close>.
    \<open>Credentials\<close>: \<open>domain/governance/credentials.py\<close>, with the sanitizer of messages.
    \<open>Migrations\<close>: the schema revisions of \<open>db/migrations/versions\<close> in both directions on both engines.
  \<^item> \<open>Catalog\<close>: \<open>domain/catalog/service.py\<close>; registrations keep the tables well-formed, and a listing is
    resolved exactly when it is the only match.
  \<^item> \<open>Versioned\<close>: the locale of append-only, versioned logs. \<open>Policy\<close> (\<open>policy_gate.py\<close>) and \<open>Observations\<close>
    (\<open>domain/observations/service.py\<close>) interpret it: the newest decision rules, revisions stay
    gapless under races of writers, and nothing that is recorded changes.
  \<^item> \<open>Selection\<close>: \<open>selection.py\<close>; what is selected is publishable, newest, and of the first eligible source.
  \<^item> \<open>Queue\<close>, \<open>Queue_Trace\<close>: \<open>queue.py\<close>, each operation on its own and any number of workers as a step
    relation with a reachable-state invariant: one owner per job, fenced stale claims, bounded attempts;
    the claim refines an abstract specification.
  \<^item> \<open>Planning\<close>, \<open>Ports\<close>, \<open>Adapters\<close>: the calendar port and the planner, the ports' contracts as locales, and
    the fake provider and the registry that interpret them.
  \<^item> \<open>Cursor\<close>, \<open>Dispatch\<close>, \<open>Validation\<close>, \<open>Runner\<close>, \<open>Ingestion\<close>: the modules of the same names; \<open>Ingestion\<close> has
    the guarantees of a processed job.
  \<^item> \<open>Scheduler\<close>, \<open>Invariants\<close>, \<open>Refresh\<close>, \<open>Cycle\<close>: the cycle and its entry point, what its statements keep,
    and its guarantees: isolation of sources, idempotent refresh, the durable record of every cycle, the
    survival of what was dispatched, and that a due job is done.
  \<^item> \<open>System\<close>, \<open>Provenance\<close>: the database over the life of a deployment, as a step relation of runs, runs that
    are killed between two of their commits, decisions and registrations. Every reachable database is
    sound, no step loses a row, and every observation names the approved decisions of its source. Foreign
    keys hold where the engine enforces them, on PostgreSQL; on SQLite a lemma shows a dangling one.
  \<^item> \<open>Batch\<close>: a whole batch of due jobs is done and what their providers answered is stored, by an invariant
    of the loop over the claimed jobs.
  \<^item> \<open>Metrics\<close>: \<open>metrics.py\<close> agrees with the queue.
  \<^item> \<open>Consumers\<close>: \<open>consumer_auth.py\<close> and \<open>api/deps.py\<close>; who is let in, and what a rejection reveals.
  \<^item> \<open>Views\<close>, \<open>Api\<close>: \<open>api/services/observation_view.py\<close>, the schemas, the routers and the application as one
    function \<open>serve\<close> from requests to replies. A request can be answered in the same ways, over all
    orders in which an engine may return rows, when the observations that may not be published are taken
    out of the database.
  \<^item> \<open>Delivery\<close>: the path of a price from the provider's answer through batch, store, selection and view to
    the answer of a range request.
  \<^item> \<open>Entrypoints\<close>, \<open>Disclosure\<close>: engines, session factories and the application's state, the scheduler
    process with its log, and the Alembic environment; what adapters say in their exceptions reaches
    neither the log nor the database.

  \<^bold>\<open>Interfaces.\<close> The locales \<open>versioned_log\<close>, \<open>publication_policy\<close>, \<open>dedupe_queue\<close>, \<open>calendar_port\<close>,
  \<open>historical_port\<close> and \<open>quota_laws\<close> are contracts between components; each is interpreted on the definitions
  that provide it, in the theory of the provider. What a run keeps is a tower of locales in \<open>Invariants\<close>
  and \<open>System\<close>. On sessions, \<open>update_invariant\<close> asks that changes of job rows are harmless,
  \<open>claim_invariant\<close>, \<open>queue_invariant\<close> and \<open>row_invariant\<close> add commits, new jobs and new observations,
  \<open>batch_invariant\<close>, \<open>session_invariant\<close> and \<open>cycle_invariant\<close> put them together. On whole runs,
  \<open>owner_invariant\<close>, \<open>fetch_invariant\<close> and \<open>process_invariant\<close> do the same for what also speaks of the
  quota, the calls and the loaded objects; the former are sublocales of the latter. The tables that a
  cycle keeps, growth, soundness, licences and the objects of a session are interpretations.

  \<^bold>\<open>Crashes.\<close> A run that is killed leaves what it had committed. The points of \<open>kill_point\<close> are those between
  two commits of a run: in and after the refresh, after each committing statement of \<open>claim_next\<close>, after
  some of the candidates were tried, and within the batch.

  \<^bold>\<open>What is a parameter.\<close> Provider code (a child process's run is when and how its action ends and how large
  its message is), the SHA-256 ratio of the fake prices, the conversion of numeric columns, the order in
  which an engine returns rows of a query without \<open>ORDER BY\<close>, the rows that other sessions commit in
  between, failing locks and queries, and the environment variables. A theorem that needs something of a
  parameter says so, and its witness instantiates it.

  \<^bold>\<open>Bounds and fuel.\<close> \<open>retry_on_lock\<close> counts down the code's own ten attempts and \<open>record_attempts\<close> its eight
  revisions, so their fuel is the loop's bound in the source. The scanner of the cursor takes the length
  of its text as fuel, of which every call uses a character. All other loops are structural recursions or
  have a measure: the range loop of the API the days that are left, the sanitizer the text that is left.

  \<^bold>\<open>Not modelled.\<close> FastAPI's routing and conversion of parameters, pydantic's conversion of the environment
  and its checks of responses, response headers and correlation identifiers, the configuration of logging,
  SQLAlchemy's engines and what Alembic does with its context: libraries and input and output around the
  logic. The HTTP server's entry point is one call of uvicorn. Column lengths,
  text beyond Latin-1, signalling NaNs and dates beyond \<open>date.max\<close> (but where the range loop reaches it)
  are outside the types of the model. Migrations act on schemas: whether the rows of a table satisfy a
  constraint that a downgrade restores is not part of them. The latest-price and metadata ports have
  neither an implementation nor a caller. The package's \<open>__init__.py\<close> files re-export names.
\<close>

end
